(* ===== verification/CapioPrelude.thy ===== *)
theory CapioPrelude
  imports Main "HOL-Library.Word" "HOL-Library.Sublist" "HOL-Library.AList"
begin

text \<open>
  What every other theory shares: the named collections of the library, the result type of
  fallible code (\<open>fault + 'a\<close>) with its bind, unordered maps whose iteration order is visible
  (association lists with distinct keys), and the string helpers of the C++ library the source
  calls (\<open>find\<close>, \<open>rfind (s, 0) == 0\<close>, \<open>isspace\<close>).
\<close>

named_theorems res_simps \<comment> \<open>unfolding rules of the result type\<close>
named_theorems umap_simps \<comment> \<open>lookup laws of the unordered maps\<close>

subsection \<open>Types and results\<close>

type_synonym u64 = "64 word" \<comment> \<open>capio_off64_t, uintmax_t, size_t\<close>
type_synonym tid = int \<comment> \<open>pid_t\<close>
type_synonym fd = int

abbreviation ULLONG_MAX :: u64 where
  "ULLONG_MAX \<equiv> 18446744073709551615"

text \<open>
  What ends a call abnormally: an exception that no handler of the program catches, the exit of
  \<open>ERR_EXIT\<close>, a call that blocks for ever, a recursion that exhausts the stack, or undefined
  behaviour (reading an uninitialised or unmapped buffer, writing past one).
\<close>

datatype fault =
    OutOfRange          \<comment> \<open>std::out_of_range\<close>
  | FilesystemError     \<comment> \<open>std::filesystem::filesystem\_error\<close>
  | JsonError           \<comment> \<open>simdjson::simdjson\_error\<close>
  | ErrExit             \<comment> \<open>ERR\_EXIT\<close>
  | Blocked             \<comment> \<open>waits on a semaphore or lock nobody releases\<close>
  | StackExhausted
  | Undefined           \<comment> \<open>undefined behaviour\<close>

type_synonym 'a res = "fault + 'a"

fun rbind :: "'a res \<Rightarrow> ('a \<Rightarrow> 'b res) \<Rightarrow> 'b res" where
  "rbind (Inl e) f = Inl e"
| "rbind (Inr x) f = f x"

lemma rbind_Inr_iff [res_simps]:
  "rbind m f = Inr y \<longleftrightarrow> (\<exists>x. m = Inr x \<and> f x = Inr y)"
  by (cases m) auto

lemma rbind_Inl_iff:
  "rbind m f = Inl e \<longleftrightarrow> m = Inl e \<or> (\<exists>x. m = Inr x \<and> f x = Inl e)"
  by (cases m) auto

lemma rbind_assoc: "rbind (rbind m f) g = rbind m (\<lambda>x. rbind (f x) g)"
  by (cases m) simp_all

lemma rbind_case: "rbind x f = (case x of Inl e \<Rightarrow> Inl e | Inr v \<Rightarrow> f v)"
  by (cases x) simp_all

lemma rbind_right: "rbind x Inr = x"
  by (cases x) simp_all

lemma rbind_cong [fundef_cong]:
  "m = m' \<Longrightarrow> (\<And>x. m' = Inr x \<Longrightarrow> f x = g x) \<Longrightarrow> rbind m f = rbind m' g"
  by (cases m') auto

text \<open>\<open>at(k)\<close>: the element, or \<open>std::out_of_range\<close>.\<close>

definition at_or_throw :: "'a option \<Rightarrow> 'a res" where
  "at_or_throw x = (case x of None \<Rightarrow> Inl OutOfRange | Some v \<Rightarrow> Inr v)"

lemma at_or_throw_simps [simp]:
  "at_or_throw None = Inl OutOfRange" "at_or_throw (Some v) = Inr v"
  by (simp_all add: at_or_throw_def)

lemma at_or_throw_Inr [res_simps]: "at_or_throw x = Inr v \<longleftrightarrow> x = Some v"
  by (cases x) simp_all

lemma at_or_throw_Inl: "at_or_throw x = Inl e \<longleftrightarrow> x = None \<and> e = OutOfRange"
  by (cases x) auto

text \<open>The room for a path with its terminator (\<open>limits.h\<close>).\<close>

definition PATH_MAX :: nat where "PATH_MAX = 4096"

text \<open>Error numbers two sides of the program share.\<close>

definition ENOENT :: int where "ENOENT = 2"
definition EISDIR :: int where "EISDIR = 21"

text \<open>The conversion of a wider integer to a 32-bit \<open>int\<close>.\<close>

definition to_int32 :: "int \<Rightarrow> int" where
  "to_int32 i = signed_take_bit 31 i"

lemma to_int32_id: "- (2 ^ 31) \<le> i \<Longrightarrow> i < 2 ^ 31 \<Longrightarrow> to_int32 i = i"
  by (simp add: to_int32_def signed_take_bit_int_eq_self)

subsection \<open>Unordered maps with a visible iteration order\<close>

text \<open>
  A \<open>std::unordered_map\<close> is an association list with distinct keys; the order of the list is
  the order in which a range-for visits the entries. \<open>emplace\<close> (also \<open>try_emplace\<close> and
  \<open>insert\<close>) leaves an existing entry alone. The C++ order is unspecified: the properties are
  stated for lists in any order.
\<close>

type_synonym ('k, 'v) umap = "('k \<times> 'v) list"

definition emplace :: "'k \<Rightarrow> 'v \<Rightarrow> ('k, 'v) umap \<Rightarrow> ('k, 'v) umap" where
  "emplace k v m = (if map_of m k = None then m @ [(k, v)] else m)"

definition umap_wf :: "('k, 'v) umap \<Rightarrow> bool" where
  "umap_wf m \<longleftrightarrow> distinct (map fst m)"

lemma map_of_emplace [umap_simps]:
  "map_of (emplace k v m) k' = (if map_of m k' = None \<and> k' = k then Some v else map_of m k')"
  by (auto simp: emplace_def map_of_append map_add_def split: option.splits)

lemma map_of_AList_update [umap_simps]:
  "map_of (AList.update k v m) k' = (if k' = k then Some v else map_of m k')"
  by (simp add: update_conv)

lemma map_of_AList_delete [umap_simps]:
  "map_of (AList.delete k m) k' = (if k' = k then None else map_of m k')"
  by (simp add: delete_conv)

lemma umap_wf_Nil [simp]: "umap_wf []"
  by (simp add: umap_wf_def)

lemma umap_wf_emplace [simp]: "umap_wf m \<Longrightarrow> umap_wf (emplace k v m)"
  by (auto simp: umap_wf_def emplace_def map_of_eq_None_iff)

lemma umap_wf_update [simp]: "umap_wf m \<Longrightarrow> umap_wf (AList.update k v m)"
  by (simp add: umap_wf_def distinct_update)

lemma umap_wf_delete [simp]: "umap_wf m \<Longrightarrow> umap_wf (AList.delete k m)"
  by (simp add: umap_wf_def distinct_delete)

lemma umap_wf_Cons: "umap_wf ((k, v) # m) \<longleftrightarrow> map_of m k = None \<and> umap_wf m"
  by (simp add: umap_wf_def map_of_eq_None_iff)

lemma umap_mem_iff: "umap_wf m \<Longrightarrow> (k, v) \<in> set m \<longleftrightarrow> map_of m k = Some v"
  by (auto simp: umap_wf_def map_of_is_SomeI dest: map_of_SomeD)

subsection \<open>The interface of a keyed store\<close>

text \<open>
  What the clients of a keyed table (the CAPIO-CL entries, the waiting lists, the file system)
  rely on: insertion keeps an existing entry, update and delete touch one key only, and the
  well-formedness of the table is kept.
\<close>

locale keyed_store =
  fixes look :: "'s \<Rightarrow> 'k \<Rightarrow> 'v option"
    and ins :: "'k \<Rightarrow> 'v \<Rightarrow> 's \<Rightarrow> 's"
    and upd :: "'k \<Rightarrow> 'v \<Rightarrow> 's \<Rightarrow> 's"
    and del :: "'k \<Rightarrow> 's \<Rightarrow> 's"
    and wf :: "'s \<Rightarrow> bool"
  assumes look_ins: "look (ins k v s) k' = (if look s k' = None \<and> k' = k then Some v else look s k')"
    and look_upd: "look (upd k v s) k' = (if k' = k then Some v else look s k')"
    and look_del: "look (del k s) k' = (if k' = k then None else look s k')"
    and wf_ins: "wf s \<Longrightarrow> wf (ins k v s)"
    and wf_upd: "wf s \<Longrightarrow> wf (upd k v s)"
    and wf_del: "wf s \<Longrightarrow> wf (del k s)"
begin

lemma look_ins_same: "look (ins k v s) k = (case look s k of None \<Rightarrow> Some v | Some w \<Rightarrow> Some w)"
  by (simp add: look_ins split: option.split)

lemma look_ins_keeps: "look s k' = Some w \<Longrightarrow> look (ins k v s) k' = Some w"
  by (simp add: look_ins)

lemma look_ins_defined: "\<exists>w. look (ins k v s) k = Some w"
  by (simp add: look_ins_same split: option.split)

lemma look_upd_upd: "look (upd k v (upd k w s)) = look (upd k v s)"
  by (simp add: look_upd fun_eq_iff)

lemma look_del_ins: "look (ins k v (del k s)) k = Some v"
  by (simp add: look_ins look_del)

lemma wf_fold_ins: "wf s \<Longrightarrow> wf (foldl (\<lambda>s (k, v). ins k v s) s kvs)"
  by (induction kvs arbitrary: s) (auto simp: wf_ins)

lemma look_fold_ins_keeps:
  "look s k' = Some w \<Longrightarrow> look (foldl (\<lambda>s (k, v). ins k v s) s kvs) k' = Some w"
  by (induction kvs arbitrary: s) (auto simp: look_ins_keeps)

end

interpretation um: keyed_store "map_of" "emplace" "AList.update" "AList.delete" "umap_wf"
  by unfold_locales (simp_all add: umap_simps)

subsection \<open>Strings\<close>

definition starts_with :: "string \<Rightarrow> string \<Rightarrow> bool" where
  \<comment> \<open>\<open>s.rfind (p, 0) == 0\<close>\<close>
  "starts_with s p \<longleftrightarrow> take (length p) s = p"

lemma starts_with_prefix: "starts_with s p \<longleftrightarrow> prefix p s"
  unfolding starts_with_def prefix_def by (metis append_eq_conv_conj append_take_drop_id)

text \<open>\<open>s.find (p)\<close>: the first position at which \<open>p\<close> occurs.\<close>

fun find_sub :: "string \<Rightarrow> string \<Rightarrow> nat option" where
  "find_sub [] p = (if p = [] then Some 0 else None)"
| "find_sub (c # cs) p =
     (if starts_with (c # cs) p then Some 0 else map_option Suc (find_sub cs p))"

lemma find_sub_prefix: "prefix p s \<Longrightarrow> find_sub s p = Some 0"
  by (cases s) (auto simp: starts_with_prefix)

definition is_space :: "char \<Rightarrow> bool" where
  \<comment> \<open>isspace in the C locale\<close>
  "is_space c \<longleftrightarrow> c \<in> set [CHR '' '', CHR 0x09, CHR 0x0A, CHR 0x0B, CHR 0x0C, CHR 0x0D]"

text \<open>A word: what one \<open>%s\<close> reads back, non-empty and without white space or the terminator.\<close>

definition is_word :: "string \<Rightarrow> bool" where
  "is_word s \<longleftrightarrow> s \<noteq> [] \<and> list_all (\<lambda>c. \<not> is_space c \<and> c \<noteq> CHR 0x00) s"

end
