(* ===== verification/StdPath.thy ===== *)
theory StdPath
  imports CapioPrelude
begin

text \<open>
  The lexical operations of \<open>std::filesystem::path\<close> (POSIX format) that the source calls, on the
  native string of the path, and the path predicates of \<open>src/common/capio/filesystem.hpp\<close> and
  \<open>src/server/utils/common.hpp\<close> built from them. No operation here looks at the disk.
\<close>

subsection \<open>Elements of a path\<close>

definition is_absolute :: "string \<Rightarrow> bool" where
  "is_absolute p \<longleftrightarrow> (case p of [] \<Rightarrow> False | c # _ \<Rightarrow> c = CHR ''/'')"

text \<open>The file names of a path, in order; runs of separators count once.\<close>

fun split_slash :: "string \<Rightarrow> string \<Rightarrow> string list" where
  "split_slash acc [] = (if acc = [] then [] else [rev acc])"
| "split_slash acc (c # cs) =
     (if c = CHR ''/'' then (if acc = [] then split_slash [] cs else rev acc # split_slash [] cs)
      else split_slash (c # acc) cs)"

definition names :: "string \<Rightarrow> string list" where
  "names p = split_slash [] p"

definition trailing_slash :: "string \<Rightarrow> bool" where
  "trailing_slash p \<longleftrightarrow> p \<noteq> [] \<and> last p = CHR ''/''"

text \<open>
  What \<open>path::begin .. path::end\<close> visits: the root directory, the file names, and an empty
  element for a trailing separator.
\<close>

definition elements :: "string \<Rightarrow> string list" where
  "elements p = (if is_absolute p then [''/''] else []) @ names p @
     (if trailing_slash p \<and> names p \<noteq> [] then [''''] else [])"

definition path_eq :: "string \<Rightarrow> string \<Rightarrow> bool" where
  "path_eq p q \<longleftrightarrow> elements p = elements q"

text \<open>\<open>operator/\<close>.\<close>

definition path_append :: "string \<Rightarrow> string \<Rightarrow> string" where
  "path_append p q =
     (if is_absolute q then q
      else if p \<noteq> [] \<and> \<not> trailing_slash p then p @ ''/'' @ q else p @ q)"

definition filename :: "string \<Rightarrow> string" where
  "filename p = rev (takeWhile (\<lambda>c. c \<noteq> CHR ''/'') (rev p))"

text \<open>\<open>parent_path\<close>: the path without its last element; a root stays as it is.\<close>

definition parent_path :: "string \<Rightarrow> string" where
  "parent_path p =
     (if names p = [] then p
      else let q = rev (dropWhile (\<lambda>c. c = CHR ''/'')
                     (dropWhile (\<lambda>c. c \<noteq> CHR ''/'') (rev p)))
           in if q = [] \<and> is_absolute p then ''/'' else q)"

text \<open>
  \<open>extension\<close>: from the last dot of the file name; a name that starts with its only dot has
  none.
\<close>

definition extension :: "string \<Rightarrow> string" where
  "extension p =
     (let f = filename p; e = takeWhile (\<lambda>c. c \<noteq> CHR ''.'') (rev f)
      in if f = ''.'' \<or> f = ''..'' \<or> length f \<le> Suc (length e) then ''''
         else CHR ''.'' # rev e)"

subsection \<open>lexically\_normal and lexically\_relative\<close>

text \<open>
  One element after the other onto a stack of names (its top first) with a flag for a trailing
  separator: \<open>.\<close> and the empty element only set the flag, \<open>..\<close> removes the name before it, stays
  where there is none, and disappears at the root.
\<close>

fun normal_step :: "bool \<Rightarrow> string \<Rightarrow> string list \<times> bool \<Rightarrow> string list \<times> bool" where
  "normal_step rooted e (st, tr) =
     (if e = ''..'' then
        (case st of
           [] \<Rightarrow> if rooted then ([], False) else ([''..''], False)
         | t # ts \<Rightarrow> if t = ''..'' then (''..'' # st, False) else (ts, True))
      else if e = ''.'' \<or> e = '''' then (st, True)
      else (e # st, False))"

fun join_slash :: "string list \<Rightarrow> string" where
  "join_slash [] = ''''"
| "join_slash [n] = n"
| "join_slash (n # m # ns) = n @ ''/'' @ join_slash (m # ns)"

definition lexically_normal :: "string \<Rightarrow> string" where
  "lexically_normal p =
     (if p = [] then []
      else let rooted = is_absolute p;
               (st, tr) = fold (normal_step rooted)
                 (if rooted then tl (elements p) else elements p) ([], False);
               r = (if rooted then ''/'' else '''') @ join_slash (rev st) @
                   (if tr \<and> st \<noteq> [] \<and> hd st \<noteq> ''..'' then ''/'' else '''')
           in if r = [] then ''.'' else r)"

text \<open>The first position at which two sequences differ, as the two rests from there.\<close>

fun mismatch :: "'a list \<Rightarrow> 'a list \<Rightarrow> 'a list \<times> 'a list" where
  "mismatch (x # xs) (y # ys) = (if x = y then mismatch xs ys else (x # xs, y # ys))"
| "mismatch xs ys = (xs, ys)"

definition dotdot_count :: "string list \<Rightarrow> int" where
  "dotdot_count es =
     sum_list (map (\<lambda>e. if e = ''..'' then -1 else if e = '''' \<or> e = ''.'' then 0 else 1) es)"

definition lexically_relative :: "string \<Rightarrow> string \<Rightarrow> string" where
  "lexically_relative p base =
     (if is_absolute p \<noteq> is_absolute base then []
      else let (a, b) = mismatch (elements p) (elements base)
           in if a = [] \<and> b = [] then ''.''
              else let n = dotdot_count b
                   in if n < 0 then []
                      else if n = 0 \<and> (a = [] \<or> hd a = '''') then ''.''
                      else foldl path_append '''' (replicate (nat n) ''..'' @ a))"

subsection \<open>The path predicates of the source\<close>

definition CAPIO_DIR_FORBIDDEN_PATHS :: "string list" where
  "CAPIO_DIR_FORBIDDEN_PATHS = [''/proc/'', ''/sys/'']"

definition is_forbidden_path :: "string \<Rightarrow> bool" where
  "is_forbidden_path path = list_ex (\<lambda>f. starts_with path f) CAPIO_DIR_FORBIDDEN_PATHS"

definition is_prefix :: "string \<Rightarrow> string \<Rightarrow> bool" where
  "is_prefix path_1 path_2 =
     (let relpath = lexically_relative path_2 path_1
      in relpath \<noteq> [] \<and> \<not> starts_with relpath ''..'')"

definition is_capio_dir :: "string \<Rightarrow> string \<Rightarrow> bool" where
  "is_capio_dir capio_dir path_to_check = path_eq capio_dir path_to_check"

definition is_capio_path :: "string \<Rightarrow> string \<Rightarrow> bool" where
  "is_capio_path capio_dir path_to_check = is_prefix capio_dir path_to_check"

definition first_is_subpath_of_second :: "string \<Rightarrow> string \<Rightarrow> bool" where
  "first_is_subpath_of_second path base =
     (let (_, snd_rest) = mismatch (elements path) (elements base) in snd_rest = [])"

text \<open>\<open>find\<close> from \<open>glob.length () - 1\<close> on, which is past the end of any path when the glob is empty.\<close>

definition in_dir :: "string \<Rightarrow> string \<Rightarrow> bool" where
  "in_dir path glob \<longleftrightarrow> glob \<noteq> [] \<and> CHR ''/'' \<in> set (drop (length glob - 1) path)"

text \<open>\<open>rfind ('/')\<close> without a match is \<open>npos\<close>, and \<open>substr (0, npos)\<close> the whole path.\<close>

definition get_parent_dir_path :: "string \<Rightarrow> string" where
  "get_parent_dir_path file_path =
     (if names file_path = [] then file_path
      else if CHR ''/'' \<notin> set file_path then file_path
      else rev (tl (dropWhile (\<lambda>c. c \<noteq> CHR ''/'') (rev file_path))))"

subsection \<open>Lemmas\<close>

lemma mismatch_append: "mismatch (xs @ ys) (xs @ zs) = mismatch ys zs"
  by (induction xs) simp_all

lemma mismatch_snd_Nil: "snd (mismatch xs ys) = [] \<longleftrightarrow> prefix ys xs"
  by (induction xs ys rule: mismatch.induct) (auto simp: prefix_def)

lemma mismatch_prefix: "prefix ys xs \<Longrightarrow> mismatch xs ys = (drop (length ys) xs, [])"
  by (induction xs ys rule: mismatch.induct) (auto simp: prefix_def)

lemma split_slash_no_slash:
  "CHR ''/'' \<notin> set acc \<Longrightarrow> n \<in> set (split_slash acc p) \<Longrightarrow> n \<noteq> [] \<and> CHR ''/'' \<notin> set n"
  by (induction acc p rule: split_slash.induct) (auto split: if_splits)

lemma names_no_slash: "n \<in> set (names p) \<Longrightarrow> n \<noteq> [] \<and> CHR ''/'' \<notin> set n"
  unfolding names_def using split_slash_no_slash[of "[]" n p] by simp

lemma subpath_iff: "first_is_subpath_of_second path base \<longleftrightarrow> prefix (elements base) (elements path)"
  by (simp add: first_is_subpath_of_second_def mismatch_snd_Nil[symmetric] case_prod_unfold)

subsection \<open>What the predicates mean on the canonical directory names realpath returns\<close>

definition canonical_dir :: "string \<Rightarrow> bool" where
  "canonical_dir d \<longleftrightarrow> is_absolute d \<and> list_all (\<lambda>n. n \<noteq> ''.'' \<and> n \<noteq> ''..'') (names d) \<and>
     (names d \<noteq> [] \<longrightarrow> \<not> trailing_slash d)"

lemma elements_canonical: "canonical_dir d \<Longrightarrow> elements d = ''/'' # names d"
  by (auto simp: canonical_dir_def elements_def)

lemma dotdot_count_names:
  "list_all (\<lambda>n. n \<noteq> ''.'' \<and> n \<noteq> ''..'') ns \<Longrightarrow> list_all (\<lambda>n. n \<noteq> []) ns \<Longrightarrow>
     dotdot_count ns = int (length ns)"
  by (induction ns) (auto simp: dotdot_count_def)

lemma foldl_append_starts:
  assumes "CHR ''/'' \<notin> set a" and "a \<noteq> []"
    and "list_all (\<lambda>e. CHR ''/'' \<notin> set e) es"
  shows "\<exists>r. foldl path_append a es = a @ r \<and> (r = [] \<or> hd r = CHR ''/'')"
proof -
  have gen: "\<exists>r'. foldl path_append (a @ r) es = a @ r' \<and> (r' = [] \<or> hd r' = CHR ''/'')"
    if "list_all (\<lambda>e. CHR ''/'' \<notin> set e) es" "r = [] \<or> hd r = CHR ''/''" for r es
    using that
  proof (induction es arbitrary: r)
    case Nil
    then show ?case by auto
  next
    case (Cons e es)
    from Cons.prems(1) have ne: "\<not> is_absolute e" by (auto simp: is_absolute_def split: list.splits)
    obtain r2 where "path_append (a @ r) e = a @ r2" "r2 = [] \<or> hd r2 = CHR ''/''"
    proof (cases r)
      case Nil
      have "last a \<noteq> CHR ''/''" using assms(1,2) last_in_set[of a] by metis
      with Nil assms(2) ne have "path_append (a @ r) e = a @ (''/'' @ e)"
        by (simp add: path_append_def trailing_slash_def)
      then show thesis by (auto intro: that)
    next
      case (Cons x xs)
      with Cons.prems(2) ne assms(2) show thesis
        by (cases "trailing_slash (a @ r)") (auto simp: path_append_def intro!: that)
    qed
    then show ?case using Cons.IH[of r2] Cons.prems(1) by auto
  qed
  from gen[of es "[]"] assms(3) show ?thesis by simp
qed

lemma starts_dotdot_append:
  assumes "CHR ''/'' \<notin> set a" and "a \<noteq> []" and "r = [] \<or> hd r = CHR ''/''"
  shows "starts_with (a @ r) ''..'' = starts_with a ''..''"
proof -
  obtain c cs where a: "a = c # cs" using assms(2) by (cases a) auto
  show ?thesis
  proof (cases cs)
    case Nil
    with assms(3) show ?thesis by (cases r) (auto simp: a starts_with_def)
  qed (simp add: a starts_with_def)
qed

lemma no_slash_relative: "CHR ''/'' \<notin> set e \<Longrightarrow> \<not> is_absolute e"
  by (auto simp: is_absolute_def split: list.splits)

lemma path_append_empty: "\<not> is_absolute e \<Longrightarrow> path_append [] e = e"
  by (simp add: path_append_def)

lemma elements_no_slash:
  "is_absolute p \<Longrightarrow> list_all (\<lambda>e. CHR ''/'' \<notin> set e) (tl (elements p))"
  by (auto simp: elements_def list_all_iff dest: names_no_slash split: if_splits)

text \<open>The relative path below a directory starts with the first element that differs.\<close>

lemma lexically_relative_below:
  assumes "canonical_dir d" and "is_absolute p" and "elements p = elements d @ a # as" and "a \<noteq> []"
  shows "\<exists>r. lexically_relative p d = a @ r \<and> (r = [] \<or> hd r = CHR ''/'')"
proof -
  have d: "elements d = ''/'' # names d" using assms(1) by (rule elements_canonical)
  have "list_all (\<lambda>e. CHR ''/'' \<notin> set e) (a # as)"
    using elements_no_slash[OF assms(2)] by (simp add: assms(3) d)
  then have ns: "CHR ''/'' \<notin> set a" "list_all (\<lambda>e. CHR ''/'' \<notin> set e) as" by simp_all
  have mm: "mismatch (elements p) (elements d) = (a # as, [])"
    using mismatch_append[of "elements d" "a # as" "[]"] by (simp add: assms(3))
  have "lexically_relative p d = foldl path_append a as"
    using assms(1,2,4) ns(1)
    by (simp add: lexically_relative_def mm canonical_dir_def dotdot_count_def path_append_empty
        no_slash_relative)
  with foldl_append_starts[OF ns(1) assms(4) ns(2)] show ?thesis by simp
qed

lemma lexically_relative_outside:
  assumes "canonical_dir d" and "is_absolute p" and "\<not> prefix (elements d) (elements p)"
  shows "starts_with (lexically_relative p d) ''..''"
proof -
  obtain a b where mm: "mismatch (elements p) (elements d) = (a, b)" by (metis surj_pair)
  have b: "b \<noteq> []" using assms(3) mismatch_snd_Nil[of "elements p" "elements d"] mm by simp
  have suf: "snd (mismatch xs ys) = drop (length ys - length (snd (mismatch xs ys))) ys \<and>
      length (snd (mismatch xs ys)) \<le> length ys" for xs ys :: "string list"
    by (induction xs ys rule: mismatch.induct) (auto simp: Suc_diff_le)
  have hd: "\<exists>q. elements p = ''/'' # q"
    using assms(2) by (auto simp: elements_def)
  then have "mismatch (tl (elements p)) (names d) = (a, b)"
    using mm elements_canonical[OF assms(1)] by auto
  with suf[of "tl (elements p)" "names d"] have "set b \<subseteq> set (names d)"
    by (metis set_drop_subset snd_conv)
  then have "dotdot_count b = int (length b)"
    using assms(1) names_no_slash[of _ d]
    by (intro dotdot_count_names) (auto simp: canonical_dir_def list_all_iff)
  moreover have "a = [] \<or> list_all (\<lambda>e. CHR ''/'' \<notin> set e) a"
  proof -
    have suf1: "set (fst (mismatch xs ys)) \<subseteq> set xs" for xs ys :: "string list"
      by (induction xs ys rule: mismatch.induct) auto
    have "set a \<subseteq> set (tl (elements p))"
      using \<open>mismatch (tl (elements p)) (names d) = (a, b)\<close> suf1[of "tl (elements p)" "names d"]
      by simp
    then show ?thesis using elements_no_slash[OF assms(2)] by (auto simp: list_all_iff)
  qed
  ultimately obtain k es where
      rel: "lexically_relative p d = foldl path_append ''..'' es" and
      es: "list_all (\<lambda>e. CHR ''/'' \<notin> set e) es"
  proof -
    assume n: "dotdot_count b = int (length b)" and a: "a = [] \<or> list_all (\<lambda>e. CHR ''/'' \<notin> set e) a"
    obtain k where k: "length b = Suc k" using b by (cases b) auto
    have "lexically_relative p d = foldl path_append '''' (replicate (Suc k) ''..'' @ a)"
      using assms(1,2) b k n
      by (simp add: lexically_relative_def mm canonical_dir_def nat_add_distrib del: replicate_Suc)
    also have "\<dots> = foldl path_append ''..'' (replicate k ''..'' @ a)"
      by (simp add: path_append_empty no_slash_relative)
    finally show thesis using a by (intro that[of "replicate k ''..'' @ a"]) (auto simp: list_all_iff)
  qed
  obtain r where "foldl path_append ''..'' es = ''..'' @ r"
    using foldl_append_starts[of "''..''" es] es by auto
  then show ?thesis by (simp add: rel starts_with_def)
qed

lemma lexically_relative_at:
  assumes "canonical_dir d" and "is_absolute p" and "elements p = elements d @ es"
    and "es = [] \<or> hd es = []"
  shows "lexically_relative p d = ''.''"
proof -
  have "mismatch (elements p) (elements d) = (es, [])"
    using mismatch_append[of "elements d" es "[]"] assms(3) by simp
  with assms(1,2,4) show ?thesis
    by (cases es) (auto simp: lexically_relative_def canonical_dir_def dotdot_count_def)
qed

lemma is_prefix_canonical:
  assumes "canonical_dir d" and "is_absolute p"
  shows "is_prefix d p \<longleftrightarrow>
    (\<exists>es. elements p = elements d @ es \<and> (es = [] \<or> \<not> starts_with (hd es) ''..''))"
proof (cases "prefix (elements d) (elements p)")
  case False
  then show ?thesis
    using lexically_relative_outside[OF assms] by (auto simp: is_prefix_def)
next
  case True
  then obtain es where es: "elements p = elements d @ es" by (auto simp: prefix_def)
  have d: "elements d = ''/'' # names d" using assms(1) by (rule elements_canonical)
  show ?thesis
  proof (cases "es = [] \<or> hd es = []")
    case True
    with lexically_relative_at[OF assms es True] es show ?thesis
      by (auto simp: is_prefix_def starts_with_def)
  next
    case False
    then obtain a as where a: "es = a # as" "a \<noteq> []" by (cases es) auto
    then obtain r where r: "lexically_relative p d = a @ r" "r = [] \<or> hd r = CHR ''/''"
      using lexically_relative_below[OF assms, of a as] es by auto
    have "CHR ''/'' \<notin> set a"
      using elements_no_slash[OF assms(2)] by (simp add: es a d)
    then show ?thesis
      using a r es starts_dotdot_append[of a r] by (auto simp: is_prefix_def)
  qed
qed

lemma is_prefix_absolute: "canonical_dir d \<Longrightarrow> \<not> is_absolute p \<Longrightarrow> \<not> is_prefix d p"
  by (simp add: is_prefix_def lexically_relative_def canonical_dir_def)

subsection \<open>Properties\<close>

text \<open>On absolute paths and a directory in the form \<open>realpath\<close> returns, \<open>is_capio_path\<close> is true
  exactly of the directory and of the paths whose elements extend its elements, except that a first
  name below it that begins with two dots (a legal file name such as \<open>..data\<close>) is taken for an
  escape and refused. A sibling whose name merely starts with the name of the directory is not
  a CAPIO path.\<close>

theorem capio_path_below:
  assumes "canonical_dir d" and "is_absolute p"
  shows "is_capio_path d p \<longleftrightarrow>
    (\<exists>es. elements p = elements d @ es \<and> (es = [] \<or> \<not> starts_with (hd es) ''..''))"
  using is_prefix_canonical[OF assms] by (simp add: is_capio_path_def)

lemma capio_path_below_witness:
  "canonical_dir ''/tmp/w'' \<and> is_absolute ''/tmp/w2/f'' \<and> \<not> is_capio_path ''/tmp/w'' ''/tmp/w2/f'' \<and>
   \<not> (\<exists>es. elements ''/tmp/w2/f'' = elements ''/tmp/w'' @ es \<and> (es = [] \<or> \<not> starts_with (hd es) ''..''))"
proof -
  have "canonical_dir ''/tmp/w''" "is_absolute ''/tmp/w2/f''" "\<not> is_capio_path ''/tmp/w'' ''/tmp/w2/f''"
    by code_simp+
  with capio_path_below[of "''/tmp/w''" "''/tmp/w2/f''"] show ?thesis by blast
qed

end
