(* ===== verification/Globs.thy ===== *)
theory Globs
  imports StdPath
begin

text \<open>
  \<open>match_globs\<close> of \<open>src/server/utils/common.hpp\<close>: the matcher behind the glob entries of a
  CAPIO-CL configuration. The two indices of its loop move together, so the recursion runs over the
  two rests; the whole glob and the whole text stay around for the branch of the star, which takes
  its suffix from the first star of the glob. \<open>std::string::compare\<close> throws \<open>std::out_of_range\<close>
  when its start position \<open>to_match_size - glob_end.size ()\<close> has wrapped around, and its result,
  zero for equal, becomes the boolean.
\<close>

fun match_from :: "string \<Rightarrow> string \<Rightarrow> string \<Rightarrow> string \<Rightarrow> bool res" where
  "match_from glob to_match (g # gs) (t # ts) =
     (if g = CHR ''*'' then
        if last glob = CHR ''*'' then Inr True
        else let glob_end = tl (dropWhile (\<lambda>c. c \<noteq> CHR ''*'') glob)
             in if length to_match < length glob_end then Inl OutOfRange
                else Inr (drop (length to_match - length glob_end) to_match \<noteq> glob_end)
      else if g \<noteq> CHR ''?'' \<and> g \<noteq> t then Inr False
      else match_from glob to_match gs ts)"
| "match_from glob to_match gs ts = Inr True"

definition match_globs :: "string \<Rightarrow> string \<Rightarrow> bool res" where
  "match_globs glob to_match =
     (if glob = [] then Inr False else match_from glob to_match glob to_match)"

subsection \<open>What it matches\<close>

text \<open>A text agrees with a plain pattern as far as both go; a question mark agrees with anything.\<close>

fun agrees :: "string \<Rightarrow> string \<Rightarrow> bool" where
  "agrees (g # gs) (t # ts) \<longleftrightarrow> (g = CHR ''?'' \<or> g = t) \<and> agrees gs ts"
| "agrees _ _ \<longleftrightarrow> True"

definition no_star :: "string \<Rightarrow> bool" where
  "no_star g \<longleftrightarrow> CHR ''*'' \<notin> set g"

lemma match_from_no_star:
  "CHR ''*'' \<notin> set gs \<Longrightarrow> match_from glob to_match gs ts = Inr (agrees gs ts)"
  by (induction glob to_match gs ts rule: match_from.induct) (auto simp: Let_def)

lemma match_from_before_star:
  "CHR ''*'' \<notin> set p \<Longrightarrow>
     match_from glob to_match (p @ CHR ''*'' # q) ts =
     (if agrees p ts then
        if length ts \<le> length p then Inr True
        else match_from glob to_match (CHR ''*'' # q) (drop (length p) ts)
      else Inr False)"
proof (induction p arbitrary: ts)
  case Nil
  then show ?case by (cases ts) simp_all
next
  case (Cons a p)
  then show ?case by (cases ts) auto
qed

lemma agrees_no_wildcard:
  "CHR ''?'' \<notin> set g \<Longrightarrow> agrees g s \<longleftrightarrow> prefix g s \<or> prefix s g"
  by (induction g s rule: agrees.induct) auto

lemma tl_dropWhile_star: "CHR ''*'' \<notin> set p \<Longrightarrow>
    tl (dropWhile (\<lambda>c. c \<noteq> CHR ''*'') (p @ CHR ''*'' # q)) = q"
  by (induction p) auto

lemma match_globs_plain:
  "g \<noteq> [] \<Longrightarrow> no_star g \<Longrightarrow> match_globs g s = Inr (agrees g s)"
  by (simp add: match_globs_def no_star_def match_from_no_star)

lemma match_globs_star_end:
  assumes "no_star p"
  shows "match_globs (p @ ''*'') s = Inr (agrees p s)"
proof (cases "drop (length p) s")
  case Nil
  then show ?thesis using assms
    by (simp add: match_globs_def no_star_def match_from_before_star[of p _ _ "[]"])
next
  case (Cons t ts)
  then have "\<not> length s \<le> length p" by (metis drop_all list.distinct(1))
  then show ?thesis using assms Cons
    by (simp add: match_globs_def no_star_def match_from_before_star[of p _ _ "[]"])
qed

text \<open>
  The star in the middle: where the text goes on behind the part before the star, the result is
  the opposite of \<open>s\<close> ending in the part behind it.
\<close>

lemma match_globs_star_middle:
  assumes "no_star p" and "q \<noteq> []" and "last q \<noteq> CHR ''*''"
    and "agrees p s" and "length p < length s"
  shows "match_globs (p @ CHR ''*'' # q) s =
    (if length s < length q then Inl OutOfRange else Inr (\<not> suffix q s))"
proof -
  obtain t ts where "drop (length p) s = t # ts"
    using assms(5) by (cases "drop (length p) s") auto
  moreover have "suffix q s \<longleftrightarrow> drop (length s - length q) s = q" if "length q \<le> length s"
    using that unfolding suffix_def
    by (metis append_eq_conv_conj append_take_drop_id length_append add_diff_cancel_right')
  ultimately show ?thesis
    using assms tl_dropWhile_star[of p q]
    by (auto simp: match_globs_def no_star_def match_from_before_star Let_def)
qed

subsection \<open>Properties\<close>

text \<open>A glob whose only star ends it matches a text exactly when the two agree, question marks
  aside, on the positions both have: a text that is shorter than the part before the star matches as
  well.\<close>

theorem match_globs_trailing_star:
  assumes "no_star p"
  shows "match_globs (p @ ''*'') s = Inr (agrees p s)"
  using assms by (rule match_globs_star_end)

lemma match_globs_trailing_star_witness:
  "no_star ''out?'' \<and> match_globs (''out?'' @ ''*'') ''out1.dat'' = Inr (agrees ''out?'' ''out1.dat'') \<and>
   agrees ''out?'' ''out1.dat''"
proof -
  have "no_star ''out?''" "agrees ''out?'' ''out1.dat''" by code_simp+
  with match_globs_trailing_star[of "''out?''" "''out1.dat''"] show ?thesis by blast
qed

text \<open>With text behind the star the sense of the comparison is inverted: a text that continues
  behind the part before the star matches exactly when it does \<^bold>\<open>not\<close> end in the part behind the star,
  and when it is shorter than that part the matcher throws \<open>std::out_of_range\<close>.\<close>

theorem match_globs_suffix_inverted:
  assumes "no_star p" and "q \<noteq> []" and "last q \<noteq> CHR ''*''"
    and "agrees p s" and "length p < length s"
  shows "match_globs (p @ CHR ''*'' # q) s =
    (if length s < length q then Inl OutOfRange else Inr (\<not> suffix q s))"
  using assms by (rule match_globs_star_middle)

lemma match_globs_suffix_inverted_witness:
  "match_globs (''a'' @ CHR ''*'' # ''.txt'') ''ab.txt'' = Inr False \<and>
   match_globs (''a'' @ CHR ''*'' # ''.txt'') ''ab.dat'' = Inr True"
proof -
  have h: "no_star ''a''" "agrees ''a'' ''ab.txt''" "agrees ''a'' ''ab.dat''" by code_simp+
  have "suffix ''.txt'' ''ab.txt''" by (simp add: suffix_def exI[of _ "''ab''"])
  moreover have "\<not> suffix ''.txt'' ''ab.dat''" by (simp add: suffix_def)
  ultimately show ?thesis
    using match_globs_suffix_inverted[of "''a''" "''.txt''" "''ab.txt''"]
      match_globs_suffix_inverted[of "''a''" "''.txt''" "''ab.dat''"] h by simp
qed

end
