(* ===== verification/ClientManager.thy ===== *)
theory ClientManager
  imports CapioPrelude
begin

text \<open>
  \<open>ClientManager\<close> of \<open>src/server/client-manager/client_manager.hpp\<close>: the response buffers, the
  application names and the files to commit, by thread id. A response buffer is the bounded queue
  of replies that \<open>RingQueue\<close> shows a ring to be, with the capacity the server gives it;
  \<open>at\<close> on an unknown thread throws.
\<close>

definition CAPIO_REQ_BUFF_CNT :: nat where
  "CAPIO_REQ_BUFF_CNT = 512"

definition CAPIO_DEFAULT_APP_NAME :: string where
  "CAPIO_DEFAULT_APP_NAME = ''default_app''"

record client_manager =
  bufs_response :: "tid \<rightharpoonup> u64 list"
  app_names :: "tid \<rightharpoonup> string"
  files_to_be_committed_by_tid :: "tid \<rightharpoonup> string list"

definition client_manager_init :: client_manager where
  "client_manager_init = \<lparr>bufs_response = Map.empty, app_names = Map.empty,
     files_to_be_committed_by_tid = Map.empty\<rparr>"

text \<open>\<open>insert\<close> and \<open>emplace\<close> keep what is there.\<close>

definition map_emplace :: "'k \<Rightarrow> 'v \<Rightarrow> ('k \<rightharpoonup> 'v) \<Rightarrow> ('k \<rightharpoonup> 'v)" where
  "map_emplace k v m = (case m k of None \<Rightarrow> m(k \<mapsto> v) | Some _ \<Rightarrow> m)"

definition register_new_client :: "tid \<Rightarrow> string \<Rightarrow> client_manager \<Rightarrow> client_manager" where
  "register_new_client t app_name cm = cm\<lparr>
     bufs_response := map_emplace t [] (bufs_response cm),
     app_names := map_emplace t app_name (app_names cm),
     files_to_be_committed_by_tid := map_emplace t [] (files_to_be_committed_by_tid cm)\<rparr>"

definition remove_client :: "tid \<Rightarrow> client_manager \<Rightarrow> client_manager" where
  "remove_client t cm = cm\<lparr>
     bufs_response := (bufs_response cm)(t := None),
     files_to_be_committed_by_tid := (files_to_be_committed_by_tid cm)(t := None)\<rparr>"

definition reply_to_client :: "tid \<Rightarrow> u64 \<Rightarrow> client_manager \<Rightarrow> client_manager res" where
  "reply_to_client t offset cm =
     rbind (at_or_throw (bufs_response cm t)) (\<lambda>buf.
       if length buf < CAPIO_REQ_BUFF_CNT
       then Inr (cm\<lparr>bufs_response := (bufs_response cm)(t \<mapsto> buf @ [offset])\<rparr>)
       else Inl Blocked)"

definition add_producer_file_path :: "tid \<Rightarrow> string \<Rightarrow> client_manager \<Rightarrow> client_manager res" where
  "add_producer_file_path t path cm =
     rbind (at_or_throw (files_to_be_committed_by_tid cm t)) (\<lambda>fs.
       Inr (cm\<lparr>files_to_be_committed_by_tid :=
         (files_to_be_committed_by_tid cm)(t \<mapsto> fs @ [path])\<rparr>))"

definition get_produced_files :: "tid \<Rightarrow> client_manager \<Rightarrow> string list res" where
  "get_produced_files t cm = at_or_throw (files_to_be_committed_by_tid cm t)"

definition get_app_name :: "tid \<Rightarrow> client_manager \<Rightarrow> string res" where
  "get_app_name t cm = at_or_throw (app_names cm t)"

subsection \<open>Invariant\<close>

text \<open>
  A thread with a response buffer has a list of files and a name; the name outlives the client.
\<close>

definition cm_wf :: "client_manager \<Rightarrow> bool" where
  "cm_wf cm \<longleftrightarrow> dom (bufs_response cm) = dom (files_to_be_committed_by_tid cm) \<and>
     dom (bufs_response cm) \<subseteq> dom (app_names cm)"

lemma map_emplace_apply:
  "map_emplace k v m k' = (if k' = k \<and> m k = None then Some v else m k')"
  by (simp add: map_emplace_def split: option.split)

lemma dom_map_emplace [simp]: "dom (map_emplace k v m) = insert k (dom m)"
  by (auto simp: map_emplace_apply split: if_splits)

lemma dom_update_known: "m t = Some x \<Longrightarrow> dom (m(t \<mapsto> y)) = dom m"
  by auto

lemma cm_wf_init: "cm_wf client_manager_init"
  by (simp add: cm_wf_def client_manager_init_def)

lemma cm_wf_register: "cm_wf cm \<Longrightarrow> cm_wf (register_new_client t a cm)"
  by (auto simp: cm_wf_def register_new_client_def)

lemma cm_wf_remove: "cm_wf cm \<Longrightarrow> cm_wf (remove_client t cm)"
  by (auto simp: cm_wf_def remove_client_def)

lemma reply_Inr:
  "reply_to_client t v cm = Inr cm' \<longleftrightarrow> (\<exists>buf. bufs_response cm t = Some buf \<and>
     length buf < CAPIO_REQ_BUFF_CNT \<and>
     cm' = cm\<lparr>bufs_response := (bufs_response cm)(t \<mapsto> buf @ [v])\<rparr>)"
  by (auto simp: reply_to_client_def res_simps split: if_splits)

lemma cm_wf_reply: "cm_wf cm \<Longrightarrow> reply_to_client t v cm = Inr cm' \<Longrightarrow> cm_wf cm'"
  by (clarsimp simp: reply_Inr cm_wf_def dom_update_known simp del: dom_fun_upd)

lemma cm_wf_add_producer: "cm_wf cm \<Longrightarrow> add_producer_file_path t p cm = Inr cm' \<Longrightarrow> cm_wf cm'"
  by (clarsimp simp: add_producer_file_path_def res_simps cm_wf_def dom_update_known
      simp del: dom_fun_upd)

lemma reply_app_names: "reply_to_client t v cm = Inr cm' \<Longrightarrow> app_names cm' = app_names cm"
  by (auto simp: reply_Inr)

lemma reply_files:
  "reply_to_client t v cm = Inr cm' \<Longrightarrow>
     files_to_be_committed_by_tid cm' = files_to_be_committed_by_tid cm"
  by (auto simp: reply_Inr)

subsection \<open>Properties\<close>

text \<open>Removing a client forgets its buffer and its files but not the name of its application: a
  thread id that is used again keeps the name of the first application, whatever name the new client
  registers with.\<close>

theorem stale_app_name:
  assumes "app_names cm t = None"
  shows "get_app_name t (register_new_client t b (remove_client t (register_new_client t a cm))) = Inr a
    \<and> bufs_response (register_new_client t b (remove_client t (register_new_client t a cm))) t = Some []"
  using assms
  by (simp add: get_app_name_def register_new_client_def remove_client_def map_emplace_apply)

lemma stale_app_name_witness:
  "get_app_name 7 (register_new_client 7 ''b'' (remove_client 7 (register_new_client 7 ''a'' client_manager_init)))
     = Inr ''a''"
  using stale_app_name[of client_manager_init 7 "''b''" "''a''"] by (simp add: client_manager_init_def)

end
