(* ===== verification/CLEngine.thy ===== *)
theory CLEngine
  imports Globs ClientManager
begin

text \<open>
  \<open>CapioCLEngine\<close> of \<open>src/server/capio-cl-engine/capio_cl_engine.hpp\<close>: the table of paths and globs
  with their CAPIO-CL rules. The tuple of the source is a record, the unordered map an association
  list in iteration order. Every method is a definition; a method that calls \<open>match_globs\<close> can
  throw and returns a result.
\<close>

definition CAPIO_FILE_MODE_NO_UPDATE :: string where
  "CAPIO_FILE_MODE_NO_UPDATE = ''no_update''"
definition CAPIO_FILE_MODE_UPDATE :: string where
  "CAPIO_FILE_MODE_UPDATE = ''update''"
definition CAPIO_FILE_COMMITTED_ON_CLOSE :: string where
  "CAPIO_FILE_COMMITTED_ON_CLOSE = ''on_close''"
definition CAPIO_FILE_COMMITTED_ON_FILE :: string where
  "CAPIO_FILE_COMMITTED_ON_FILE = ''on_file''"
definition CAPIO_FILE_COMMITTED_ON_TERMINATION :: string where
  "CAPIO_FILE_COMMITTED_ON_TERMINATION = ''on_termination''"

record entry =
  e_producers :: "string list"     \<comment> \<open>[0]\<close>
  e_consumers :: "string list"     \<comment> \<open>[1]\<close>
  e_commit_rule :: string          \<comment> \<open>[2]\<close>
  e_fire_rule :: string            \<comment> \<open>[3]\<close>
  e_permanent :: bool              \<comment> \<open>[4]\<close>
  e_exclude :: bool                \<comment> \<open>[5]\<close>
  e_is_file :: bool                \<comment> \<open>[6]\<close>
  e_commit_on_close :: int         \<comment> \<open>[7], an int\<close>
  e_dir_count :: int               \<comment> \<open>[8], a long\<close>
  e_deps :: "string list"          \<comment> \<open>[9]\<close>

type_synonym engine = "(string, entry) umap"

definition strip_spaces :: "string \<Rightarrow> string" where
  "strip_spaces s = filter (\<lambda>c. \<not> is_space c) s"

subsection \<open>Which paths the server handles\<close>

definition fileToBeHandled :: "string \<Rightarrow> string \<Rightarrow> bool" where
  "fileToBeHandled capio_dir path =
     (if path_eq path capio_dir then False
      else starts_with (parent_path path) capio_dir)"

subsection \<open>Reading an entry\<close>

definition getCommitRule :: "engine \<Rightarrow> string \<Rightarrow> string" where
  "getCommitRule eng path = (case map_of eng path of
     Some e \<Rightarrow> e_commit_rule e | None \<Rightarrow> CAPIO_FILE_COMMITTED_ON_TERMINATION)"

definition getFireRule :: "engine \<Rightarrow> string \<Rightarrow> string" where
  "getFireRule eng path = (case map_of eng path of
     Some e \<Rightarrow> e_fire_rule e | None \<Rightarrow> CAPIO_FILE_MODE_UPDATE)"

definition getDirectoryFileCount :: "engine \<Rightarrow> string \<Rightarrow> int" where
  "getDirectoryFileCount eng path = (case map_of eng path of Some e \<Rightarrow> e_dir_count e | None \<Rightarrow> 0)"

definition isFile :: "engine \<Rightarrow> string \<Rightarrow> bool" where
  "isFile eng path = (case map_of eng path of Some e \<Rightarrow> e_is_file e | None \<Rightarrow> False)"

definition isDirectory :: "engine \<Rightarrow> string \<Rightarrow> bool" where
  "isDirectory eng path = (\<not> isFile eng path)"

definition getCommitCloseCount :: "engine \<Rightarrow> string \<Rightarrow> int" where
  "getCommitCloseCount eng path = (case map_of eng path of
     Some e \<Rightarrow> e_commit_on_close e | None \<Rightarrow> 0)"

definition get_file_deps :: "engine \<Rightarrow> string \<Rightarrow> string list" where
  "get_file_deps eng path = (case map_of eng path of Some e \<Rightarrow> e_deps e | None \<Rightarrow> [])"

definition producers :: "engine \<Rightarrow> string \<Rightarrow> string list" where
  "producers eng path = (case map_of eng path of Some e \<Rightarrow> e_producers e | None \<Rightarrow> [])"

definition consumers :: "engine \<Rightarrow> string \<Rightarrow> string list" where
  "consumers eng path = (case map_of eng path of Some e \<Rightarrow> e_consumers e | None \<Rightarrow> [])"

subsection \<open>Changing the table\<close>

definition add :: "string \<Rightarrow> string list \<Rightarrow> string list \<Rightarrow> string \<Rightarrow> string \<Rightarrow> bool \<Rightarrow> bool \<Rightarrow>
    string list \<Rightarrow> engine \<Rightarrow> engine" where
  "add path prods cons commit fire permanent exclude dependencies eng =
     emplace path \<lparr>e_producers = prods, e_consumers = cons, e_commit_rule = commit,
       e_fire_rule = fire, e_permanent = permanent, e_exclude = exclude, e_is_file = True,
       e_commit_on_close = -1, e_dir_count = -1, e_deps = dependencies\<rparr> eng"

definition new_entry :: "string \<Rightarrow> string \<Rightarrow> entry" where
  "new_entry commit fire = \<lparr>e_producers = [], e_consumers = [], e_commit_rule = commit,
     e_fire_rule = fire, e_permanent = False, e_exclude = False, e_is_file = True,
     e_commit_on_close = -1, e_dir_count = -1, e_deps = []\<rparr>"

text \<open>
  The loop of \<open>newFile\<close> over the table: the longest directory entry seen so far that matches, as
  \<open>(matchSize, commit, fire)\<close>.
\<close>

fun inherit_rules :: "engine \<Rightarrow> string \<Rightarrow> (string \<times> entry) list \<Rightarrow> nat \<times> string \<times> string \<Rightarrow>
    (nat \<times> string \<times> string) res" where
  "inherit_rules eng path [] best = Inr best"
| "inherit_rules eng path ((fname, data) # rest) (matchSize, commit, fire) =
     rbind (match_globs fname path) (\<lambda>m.
       if m \<and> isDirectory eng fname \<and> matchSize < length fname
       then inherit_rules eng path rest
              (length fname, getCommitRule eng fname, getFireRule eng fname)
       else inherit_rules eng path rest (matchSize, commit, fire))"

definition newFile :: "string \<Rightarrow> engine \<Rightarrow> engine res" where
  "newFile path eng =
     (if map_of eng path = None then
        rbind (inherit_rules eng path eng
                 (0, CAPIO_FILE_COMMITTED_ON_TERMINATION, CAPIO_FILE_MODE_UPDATE))
          (\<lambda>(matchSize, commit, fire). Inr (emplace path (new_entry commit fire) eng))
      else Inr eng)"

text \<open>\<open>at\<close> of a path that \<open>find\<close> has just found, assigned; nothing on an unknown path.\<close>

definition modify_if_present :: "string \<Rightarrow> (entry \<Rightarrow> entry) \<Rightarrow> engine \<Rightarrow> engine" where
  "modify_if_present path f eng =
     (case map_of eng path of Some e \<Rightarrow> AList.update path (f e) eng | None \<Rightarrow> eng)"

definition addProducer :: "string \<Rightarrow> string \<Rightarrow> engine \<Rightarrow> engine res" where
  "addProducer path producer eng =
     rbind (newFile path eng) (\<lambda>eng'.
       Inr (modify_if_present path
              (e_producers_update (\<lambda>ps. ps @ [strip_spaces producer])) eng'))"

definition addConsumer :: "string \<Rightarrow> string \<Rightarrow> engine \<Rightarrow> engine" where
  "addConsumer path consumer eng =
     modify_if_present path (e_consumers_update (\<lambda>cs. cs @ [strip_spaces consumer])) eng"

definition setCommitRule :: "string \<Rightarrow> string \<Rightarrow> engine \<Rightarrow> engine" where
  "setCommitRule path rule = modify_if_present path (e_commit_rule_update (\<lambda>_. rule))"

definition setFireRule :: "string \<Rightarrow> string \<Rightarrow> engine \<Rightarrow> engine" where
  "setFireRule path rule = modify_if_present path (e_fire_rule_update (\<lambda>_. rule))"

definition setPermanent :: "string \<Rightarrow> bool \<Rightarrow> engine \<Rightarrow> engine" where
  "setPermanent path v = modify_if_present path (e_permanent_update (\<lambda>_. v))"

definition setExclude :: "string \<Rightarrow> bool \<Rightarrow> engine \<Rightarrow> engine" where
  "setExclude path v = modify_if_present path (e_exclude_update (\<lambda>_. v))"

definition setDirectory :: "string \<Rightarrow> engine \<Rightarrow> engine" where
  "setDirectory path = modify_if_present path (e_is_file_update (\<lambda>_. False))"

definition setFile :: "string \<Rightarrow> engine \<Rightarrow> engine" where
  "setFile path = modify_if_present path (e_is_file_update (\<lambda>_. True))"

definition setCommitedNumber :: "string \<Rightarrow> int \<Rightarrow> engine \<Rightarrow> engine" where
  \<comment> \<open>the parameter is an \<open>int\<close>: the \<open>long\<close> of the caller is converted\<close>
  "setCommitedNumber path num =
     modify_if_present path (e_commit_on_close_update (\<lambda>_. to_int32 num))"

definition setDirectoryFileCount :: "string \<Rightarrow> int \<Rightarrow> engine \<Rightarrow> engine" where
  "setDirectoryFileCount path num = modify_if_present path (e_dir_count_update (\<lambda>_. num))"

definition remove_path :: "string \<Rightarrow> engine \<Rightarrow> engine" where
  "remove_path path eng = AList.delete path eng"

fun newFiles :: "string list \<Rightarrow> engine \<Rightarrow> engine res" where
  "newFiles [] eng = Inr eng"
| "newFiles (d # ds) eng = rbind (newFile d eng) (newFiles ds)"

definition setFileDeps :: "string \<Rightarrow> string list \<Rightarrow> engine \<Rightarrow> engine res" where
  "setFileDeps path dependencies eng =
     rbind (at_or_throw (map_of eng path)) (\<lambda>e.
       newFiles dependencies (AList.update path (e\<lparr>e_deps := dependencies\<rparr>) eng))"

subsection \<open>Who produces a path\<close>

text \<open>Without an exact entry the first entry, in iteration order, whose glob matches decides.\<close>

fun glob_producer :: "string \<Rightarrow> string \<Rightarrow> (string \<times> entry) list \<Rightarrow> bool res" where
  "glob_producer app_name path [] = Inr False"
| "glob_producer app_name path ((k, e) # rest) =
     rbind (match_globs k path) (\<lambda>m.
       if m then Inr (app_name \<in> set (e_producers e)) else glob_producer app_name path rest)"

definition isProducer :: "client_manager \<Rightarrow> engine \<Rightarrow> string \<Rightarrow> tid \<Rightarrow> bool res" where
  "isProducer cm eng path pid =
     rbind (get_app_name pid cm) (\<lambda>app_name.
       case map_of eng path of
         Some e \<Rightarrow> Inr (app_name \<in> set (e_producers e))
       | None \<Rightarrow> glob_producer app_name path eng)"

subsection \<open>Laws of the table\<close>

named_theorems engine_simps \<comment> \<open>what an operation does to a lookup\<close>

lemma map_of_modify [engine_simps]:
  "map_of (modify_if_present p f eng) q =
     (if q = p then map_option f (map_of eng p) else map_of eng q)"
  by (auto simp: modify_if_present_def umap_simps split: option.splits)

lemma wf_modify [simp]: "umap_wf eng \<Longrightarrow> umap_wf (modify_if_present p f eng)"
  by (simp add: modify_if_present_def split: option.split)

lemmas setter_defs = setCommitRule_def setFireRule_def setPermanent_def setExclude_def
  setDirectory_def setFile_def setCommitedNumber_def setDirectoryFileCount_def addConsumer_def

lemmas getter_defs = getCommitRule_def getFireRule_def getDirectoryFileCount_def isFile_def
  isDirectory_def getCommitCloseCount_def get_file_deps_def producers_def consumers_def

lemma newFile_present: "map_of eng p = Some e \<Longrightarrow> newFile p eng = Inr eng"
  by (simp add: newFile_def)

lemma newFile_Inr:
  "newFile p eng = Inr eng' \<longleftrightarrow>
     (map_of eng p \<noteq> None \<and> eng' = eng \<or>
      map_of eng p = None \<and> (\<exists>n c f. inherit_rules eng p eng
         (0, CAPIO_FILE_COMMITTED_ON_TERMINATION, CAPIO_FILE_MODE_UPDATE) = Inr (n, c, f) \<and>
         eng' = emplace p (new_entry c f) eng))"
  by (auto simp: newFile_def res_simps)

lemma newFile_keeps:
  "newFile p eng = Inr eng' \<Longrightarrow> map_of eng q = Some e \<Longrightarrow> map_of eng' q = Some e"
  by (auto simp: newFile_Inr umap_simps)

lemma newFile_other: "newFile p eng = Inr eng' \<Longrightarrow> q \<noteq> p \<Longrightarrow> map_of eng' q = map_of eng q"
  by (auto simp: newFile_Inr umap_simps)

lemma newFile_defined: "newFile p eng = Inr eng' \<Longrightarrow> \<exists>e. map_of eng' p = Some e"
  by (auto simp: newFile_Inr umap_simps)

lemma newFile_wf: "newFile p eng = Inr eng' \<Longrightarrow> umap_wf eng \<Longrightarrow> umap_wf eng'"
  by (auto simp: newFile_Inr)

lemma newFiles_keeps:
  "newFiles ds eng = Inr eng' \<Longrightarrow> map_of eng q = Some e \<Longrightarrow> map_of eng' q = Some e"
  by (induction ds arbitrary: eng) (auto simp: res_simps dest: newFile_keeps)

lemma newFiles_defined: "newFiles ds eng = Inr eng' \<Longrightarrow> d \<in> set ds \<Longrightarrow> \<exists>e. map_of eng' d = Some e"
proof (induction ds arbitrary: eng)
  case (Cons a ds)
  from Cons.prems(1) obtain eng1 where e1: "newFile a eng = Inr eng1" "newFiles ds eng1 = Inr eng'"
    by (auto simp: res_simps)
  show ?case
  proof (cases "d \<in> set ds")
    case True
    with Cons.IH e1(2) show ?thesis by blast
  next
    case False
    with Cons.prems(2) have "d = a" by simp
    with newFile_defined[OF e1(1)] newFiles_keeps[OF e1(2)] show ?thesis by blast
  qed
qed simp

lemma newFiles_wf: "newFiles ds eng = Inr eng' \<Longrightarrow> umap_wf eng \<Longrightarrow> umap_wf eng'"
  by (induction ds arbitrary: eng) (auto simp: res_simps dest: newFile_wf)

lemma setFileDeps_Inr:
  "setFileDeps p ds eng = Inr eng' \<longleftrightarrow> (\<exists>e. map_of eng p = Some e \<and>
     newFiles ds (AList.update p (e\<lparr>e_deps := ds\<rparr>) eng) = Inr eng')"
  by (auto simp: setFileDeps_def res_simps)

lemma addProducer_Inr:
  "addProducer p a eng = Inr eng' \<longleftrightarrow> (\<exists>eng1. newFile p eng = Inr eng1 \<and>
     eng' = modify_if_present p (e_producers_update (\<lambda>ps. ps @ [strip_spaces a])) eng1)"
  by (auto simp: addProducer_def res_simps)

text \<open>The operations a run of the server applies to the table, and the invariant they keep.\<close>

lemma engine_wf_ops:
  assumes "umap_wf eng"
  shows "newFile p eng = Inr eng' \<Longrightarrow> umap_wf eng'"
    and "addProducer p a eng = Inr eng' \<Longrightarrow> umap_wf eng'"
    and "setFileDeps p ds eng = Inr eng' \<Longrightarrow> umap_wf eng'"
    and "umap_wf (addConsumer p a eng)" and "umap_wf (setCommitRule p r eng)"
    and "umap_wf (setFireRule p r eng)" and "umap_wf (setPermanent p v eng)"
    and "umap_wf (setExclude p v eng)" and "umap_wf (setDirectory p eng)"
    and "umap_wf (setFile p eng)" and "umap_wf (setCommitedNumber p n eng)"
    and "umap_wf (setDirectoryFileCount p m eng)" and "umap_wf (remove_path p eng)"
    and "umap_wf (add p prods cons cr fr perm exc deps eng)"
  using assms
  by (auto simp: setter_defs addProducer_Inr setFileDeps_Inr remove_path_def add_def
      dest: newFile_wf newFiles_wf)

subsection \<open>Inheritance from the longest matching directory\<close>

definition dir_candidates :: "engine \<Rightarrow> string \<Rightarrow> (string \<times> entry) list \<Rightarrow> (string \<times> entry) set" where
  "dir_candidates eng path kes = {(k, e) \<in> set kes. match_globs k path = Inr True \<and> isDirectory eng k}"

lemma inherit_rules_longest:
  "inherit_rules eng path kes (n, c, f) = Inr (n', c', f') \<Longrightarrow>
     n \<le> n' \<and> (\<forall>(k, e) \<in> dir_candidates eng path kes. length k \<le> n') \<and>
     ((n', c', f') = (n, c, f) \<or>
      (\<exists>(k, e) \<in> dir_candidates eng path kes.
         n' = length k \<and> c' = getCommitRule eng k \<and> f' = getFireRule eng k))"
proof (induction kes arbitrary: n c f)
  case Nil
  then show ?case by (simp add: dir_candidates_def)
next
  case (Cons ke kes)
  obtain k e where ke: "ke = (k, e)" by (cases ke)
  from Cons.prems obtain m where m: "match_globs k path = Inr m" by (auto simp: ke res_simps)
  have cand: "dir_candidates eng path (ke # kes) =
      (if m \<and> isDirectory eng k then {(k, e)} else {}) \<union> dir_candidates eng path kes"
    using m by (auto simp: dir_candidates_def ke)
  show ?case
  proof (cases "m \<and> isDirectory eng k \<and> n < length k")
    case True
    with Cons.prems m have
      "inherit_rules eng path kes (length k, getCommitRule eng k, getFireRule eng k) = Inr (n', c', f')"
      by (simp add: ke)
    from Cons.IH[OF this] True show ?thesis by (auto simp: cand)
  next
    case False
    with Cons.prems m have "inherit_rules eng path kes (n, c, f) = Inr (n', c', f')"
      by (auto simp: ke)
    from Cons.IH[OF this] False show ?thesis by (auto simp: cand)
  qed
qed

lemma match_globs_nonempty: "match_globs k p = Inr True \<Longrightarrow> k \<noteq> []"
  by (auto simp: match_globs_def)

subsection \<open>Properties\<close>

text \<open>C33: A path the engine has not seen inherits its commit and fire rules from the longest directory
  entry whose glob matches it, and has the defaults (\<open>on_termination\<close>, \<open>update\<close>) when none does; it
  starts without producers, and no other entry changes.\<close>

theorem new_file_inherits:
  assumes "map_of eng p = None" and "newFile p eng = Inr eng'"
  shows "(\<forall>q. q \<noteq> p \<longrightarrow> map_of eng' q = map_of eng q) \<and>
    (\<exists>e. map_of eng' p = Some e \<and> e_producers e = [] \<and> e_deps e = [] \<and>
      (if dir_candidates eng p eng = {}
       then e_commit_rule e = CAPIO_FILE_COMMITTED_ON_TERMINATION \<and> e_fire_rule e = CAPIO_FILE_MODE_UPDATE
       else \<exists>(k, d) \<in> dir_candidates eng p eng.
         (\<forall>(k', d') \<in> dir_candidates eng p eng. length k' \<le> length k) \<and>
         e_commit_rule e = getCommitRule eng k \<and> e_fire_rule e = getFireRule eng k))"
proof -
  from assms obtain n c f where
    i: "inherit_rules eng p eng (0, CAPIO_FILE_COMMITTED_ON_TERMINATION, CAPIO_FILE_MODE_UPDATE) = Inr (n, c, f)"
    and e': "eng' = emplace p (new_entry c f) eng"
    by (auto simp: newFile_Inr)
  note l = inherit_rules_longest[OF i]
  have ne: "0 < length k" if "(k, d) \<in> dir_candidates eng p eng" for k d
    using that match_globs_nonempty by (auto simp: dir_candidates_def)
  have "map_of eng' p = Some (new_entry c f)" using assms(1) by (simp add: e' umap_simps)
  moreover have "map_of eng' q = map_of eng q" if "q \<noteq> p" for q
    using that by (simp add: e' umap_simps)
  moreover have "if dir_candidates eng p eng = {}
       then c = CAPIO_FILE_COMMITTED_ON_TERMINATION \<and> f = CAPIO_FILE_MODE_UPDATE
       else \<exists>(k, d) \<in> dir_candidates eng p eng.
         (\<forall>(k', d') \<in> dir_candidates eng p eng. length k' \<le> length k) \<and>
         c = getCommitRule eng k \<and> f = getFireRule eng k"
  proof (cases "dir_candidates eng p eng = {}")
    case True
    with l show ?thesis by auto
  next
    case False
    then obtain k0 d0 where k0: "(k0, d0) \<in> dir_candidates eng p eng" by fastforce
    from l k0 have "length k0 \<le> n" by blast
    moreover have "0 < length k0" using ne[OF k0] .
    ultimately have "0 < n" by linarith
    with l obtain k d where k: "(k, d) \<in> dir_candidates eng p eng" "n = length k"
      "c = getCommitRule eng k" "f = getFireRule eng k" by auto
    have "\<forall>(k', d') \<in> dir_candidates eng p eng. length k' \<le> length k" using l k(2) by simp
    with False k show ?thesis by auto
  qed
  ultimately show ?thesis by (auto simp: new_entry_def)
qed

lemma inherit_rules_total:
  "\<forall>(k, e) \<in> set kes. \<exists>b. match_globs k p = Inr b \<Longrightarrow> \<exists>r. inherit_rules eng p kes best = Inr r"
proof (induction kes arbitrary: best)
  case (Cons ke kes)
  then obtain b where "match_globs (fst ke) p = Inr b" by (cases ke) auto
  with Cons show ?case by (cases ke; cases best) auto
qed (metis inherit_rules.simps(1))

lemma newFile_total:
  "\<forall>(k, e) \<in> set eng. \<exists>b. match_globs k p = Inr b \<Longrightarrow> \<exists>eng'. newFile p eng = Inr eng'"
  using inherit_rules_total[of eng p eng "(0, CAPIO_FILE_COMMITTED_ON_TERMINATION, CAPIO_FILE_MODE_UPDATE)"]
  by (auto simp: newFile_def)

definition sample_dir :: entry where
  "sample_dir = (new_entry CAPIO_FILE_COMMITTED_ON_CLOSE CAPIO_FILE_MODE_NO_UPDATE)\<lparr>e_is_file := False\<rparr>"

lemma new_file_inherits_witness:
  "\<exists>eng' e. newFile ''/d/f'' [(''/d*'', sample_dir)] = Inr eng' \<and> map_of eng' ''/d/f'' = Some e \<and>
     e_commit_rule e = CAPIO_FILE_COMMITTED_ON_CLOSE"
proof -
  let ?E = "[(''/d*'', sample_dir)]"
  have c: "dir_candidates ?E ''/d/f'' ?E = {(''/d*'', sample_dir)}"
  proof -
    have "match_globs ''/d*'' ''/d/f'' = Inr True" "isDirectory ?E ''/d*''" by code_simp+
    then show ?thesis by (auto simp: dir_candidates_def)
  qed
  have "\<exists>eng'. newFile ''/d/f'' ?E = Inr eng'"
  proof -
    have "match_globs ''/d*'' ''/d/f'' = Inr True" by code_simp
    then show ?thesis by (intro newFile_total) auto
  qed
  then obtain eng' where n: "newFile ''/d/f'' ?E = Inr eng'" by blast
  have "getCommitRule ?E ''/d*'' = CAPIO_FILE_COMMITTED_ON_CLOSE"
    by (simp add: getCommitRule_def sample_dir_def new_entry_def)
  with new_file_inherits[OF _ n] n show ?thesis by (auto simp: c)
qed

text \<open>After \<open>addProducer\<close> the application is a producer of the path for every thread that
  registered under its name (stripped of white space), and nobody who was a producer by the entry of
  the path stops being one.\<close>

theorem added_producer_produces:
  assumes "addProducer p a eng = Inr eng'"
  shows "(app_names cm t = Some (strip_spaces a) \<longrightarrow> isProducer cm eng' p t = Inr True) \<and>
    (map_of eng p \<noteq> None \<and> isProducer cm eng p u = Inr True \<longrightarrow> isProducer cm eng' p u = Inr True)"
proof -
  from assms obtain eng1 where 1: "newFile p eng = Inr eng1"
    "eng' = modify_if_present p (e_producers_update (\<lambda>ps. ps @ [strip_spaces a])) eng1"
    by (auto simp: addProducer_Inr)
  obtain e where e: "map_of eng1 p = Some e" using newFile_defined[OF 1(1)] by blast
  have "isProducer cm eng' p u = Inr True"
    if "map_of eng p = Some d" "isProducer cm eng p u = Inr True" for d
    using that newFile_keeps[OF 1(1) that(1)] 1(2) by (auto simp: isProducer_def res_simps engine_simps)
  with 1(2) e show ?thesis
    by (auto simp: isProducer_def get_app_name_def engine_simps)
qed

lemma added_producer_produces_witness:
  "\<exists>eng'. addProducer ''/d/f'' ''a p'' [] = Inr eng' \<and>
     isProducer (register_new_client 1 ''ap'' client_manager_init) eng' ''/d/f'' 1 = Inr True"
proof -
  obtain eng' where e: "addProducer ''/d/f'' ''a p'' [] = Inr eng'"
    by (simp add: addProducer_def newFile_def)
  have "strip_spaces ''a p'' = ''ap''" by code_simp
  with e added_producer_produces[OF e] show ?thesis
    by (simp add: register_new_client_def client_manager_init_def map_emplace_def)
qed

text \<open>An entry made for a path of its own hides the globs: after \<open>newFile\<close> no thread is a producer
  of the path, although the producers of a glob that matches it were until then.\<close>

theorem new_file_hides_glob_producers:
  assumes "map_of eng p = None" and "newFile p eng = Inr eng'" and "app_names cm t = Some a"
  shows "isProducer cm eng' p t = Inr False"
  using assms by (auto simp: newFile_Inr isProducer_def get_app_name_def umap_simps new_entry_def)

lemma new_file_hides_glob_producers_witness:
  "\<exists>eng eng' cm. isProducer cm eng ''/d/f'' 1 = Inr True \<and> newFile ''/d/f'' eng = Inr eng' \<and>
     isProducer cm eng' ''/d/f'' 1 = Inr False"
proof -
  let ?E = "[(''/d*'', sample_dir\<lparr>e_producers := [''a'']\<rparr>)]"
  let ?cm = "register_new_client 1 ''a'' client_manager_init"
  have m: "match_globs ''/d*'' ''/d/f'' = Inr True" by code_simp
  have cm: "app_names ?cm 1 = Some ''a''"
    by (simp add: register_new_client_def client_manager_init_def map_emplace_def)
  with m have "isProducer ?cm ?E ''/d/f'' 1 = Inr True" by (simp add: isProducer_def get_app_name_def)
  moreover obtain eng' where n: "newFile ''/d/f'' ?E = Inr eng'"
    using m newFile_total[of ?E "''/d/f''"] by auto
  ultimately show ?thesis using new_file_hides_glob_producers[OF _ n cm] by auto
qed

text \<open>\<open>setFileDeps\<close> replaces the dependencies of a known path and gives every dependency an entry;
  all other entries stay as they were. For an unknown path it throws.\<close>

theorem file_deps_set:
  "(setFileDeps p ds eng = Inr eng' \<longrightarrow> get_file_deps eng' p = ds \<and>
      (\<forall>d \<in> set ds. map_of eng' d \<noteq> None) \<and>
      (\<forall>q e. q \<noteq> p \<and> map_of eng q = Some e \<longrightarrow> map_of eng' q = Some e)) \<and>
   (map_of eng p = None \<longrightarrow> setFileDeps p ds eng = Inl OutOfRange)"
proof -
  have "get_file_deps eng' p = ds \<and> (\<forall>d \<in> set ds. map_of eng' d \<noteq> None) \<and>
      (\<forall>q e. q \<noteq> p \<and> map_of eng q = Some e \<longrightarrow> map_of eng' q = Some e)"
    if s: "setFileDeps p ds eng = Inr eng'"
  proof -
    from s obtain e where e: "map_of eng p = Some e"
      and n: "newFiles ds (AList.update p (e\<lparr>e_deps := ds\<rparr>) eng) = Inr eng'"
      by (auto simp: setFileDeps_Inr)
    have "map_of eng' p = Some (e\<lparr>e_deps := ds\<rparr>)"
      by (rule newFiles_keeps[OF n]) (simp add: umap_simps)
    moreover have "map_of eng' q = Some e'" if "q \<noteq> p" "map_of eng q = Some e'" for q e'
      by (rule newFiles_keeps[OF n]) (simp add: umap_simps that)
    ultimately show ?thesis using newFiles_defined[OF n] by (auto simp: get_file_deps_def)
  qed
  then show ?thesis by (auto simp: setFileDeps_def)
qed

lemma file_deps_set_witness:
  "\<exists>eng'. setFileDeps ''/d/f'' [''/d/g''] [(''/d/f'', sample_dir)] = Inr eng' \<and>
     get_file_deps eng' ''/d/f'' = [''/d/g''] \<and> map_of eng' ''/d/g'' \<noteq> None"
proof -
  let ?E = "AList.update ''/d/f'' (sample_dir\<lparr>e_deps := [''/d/g'']\<rparr>) [(''/d/f'', sample_dir)]"
  have "match_globs ''/d/f'' ''/d/g'' = Inr False" by code_simp
  then have "\<exists>eng'. newFile ''/d/g'' ?E = Inr eng'" by (intro newFile_total) auto
  then obtain eng' where "setFileDeps ''/d/f'' [''/d/g''] [(''/d/f'', sample_dir)] = Inr eng'"
    by (auto simp: setFileDeps_def)
  with file_deps_set[of "''/d/f''" "[''/d/g'']" "[(''/d/f'', sample_dir)]" eng'] show ?thesis by auto
qed

text \<open>Two engines with the same entries, met in a different order by the loop over the unordered
  map, can answer differently who produces a path.\<close>

theorem producer_depends_on_order:
  "\<exists>eng1 eng2 cm. set eng1 = set eng2 \<and> umap_wf eng1 \<and> umap_wf eng2 \<and>
     isProducer cm eng1 ''/d/f'' 1 = Inr True \<and> isProducer cm eng2 ''/d/f'' 1 = Inr False"
proof -
  let ?e1 = "(''/d*'', sample_dir\<lparr>e_producers := [''a'']\<rparr>)" and ?e2 = "(''/*'', sample_dir)"
  let ?cm = "register_new_client 1 ''a'' client_manager_init"
  have m: "match_globs ''/d*'' ''/d/f'' = Inr True" "match_globs ''/*'' ''/d/f'' = Inr True"
    by code_simp+
  have "app_names ?cm 1 = Some ''a''"
    by (simp add: register_new_client_def client_manager_init_def map_emplace_def)
  with m have "isProducer ?cm [?e1, ?e2] ''/d/f'' 1 = Inr True"
    "isProducer ?cm [?e2, ?e1] ''/d/f'' 1 = Inr False"
    by (simp_all add: isProducer_def get_app_name_def sample_dir_def new_entry_def)
  then show ?thesis
    by (intro exI[of _ "[?e1, ?e2]"] exI[of _ "[?e2, ?e1]"] exI[of _ ?cm]) (auto simp: umap_wf_def)
qed

text \<open>Server and client disagree about the paths next to the CAPIO directory: a file in a directory
  whose name only starts with the text of the CAPIO directory is handled by the server although the
  client does not take it for a CAPIO path.\<close>

theorem sibling_directory_handled:
  assumes "canonical_dir d" and "is_absolute p" and "starts_with (parent_path p) d"
    and "\<not> prefix (elements d) (elements p)"
  shows "fileToBeHandled d p \<and> \<not> is_capio_path d p"
proof -
  have "\<not> path_eq p d" using assms(4) by (auto simp: path_eq_def)
  then have "fileToBeHandled d p" using assms(3) by (simp add: fileToBeHandled_def)
  moreover have "\<not> is_capio_path d p"
    using is_prefix_canonical[OF assms(1,2)] assms(4) by (auto simp: is_capio_path_def)
  ultimately show ?thesis ..
qed

lemma sibling_directory_handled_witness:
  "fileToBeHandled ''/tmp/w'' ''/tmp/w2/f'' \<and> \<not> is_capio_path ''/tmp/w'' ''/tmp/w2/f''"
proof (rule sibling_directory_handled)
  show "canonical_dir ''/tmp/w''" "is_absolute ''/tmp/w2/f''"
    "starts_with (parent_path ''/tmp/w2/f'') ''/tmp/w''"
    by code_simp+
  have "elements ''/tmp/w'' = [''/'', ''tmp'', ''w'']" "elements ''/tmp/w2/f'' = [''/'', ''tmp'', ''w2'', ''f'']"
    by code_simp+
  then show "\<not> prefix (elements ''/tmp/w'') (elements ''/tmp/w2/f'')" by simp
qed

end
