(* ===== verification/CScan.thy ===== *)
theory CScan
  imports CapioPrelude
begin

text \<open>
  The number and word conversions of the C library the source uses to build and read its messages
  and token files: \<open>%d\<close>, \<open>%ld\<close>, \<open>%04d\<close>, \<open>%llu\<close> and \<open>%s\<close> of printf, the same conversions of
  \<open>sscanf\<close>, \<open>strtol\<close>, \<open>from_chars\<close> and the extraction of an integer from a stream. Every reader
  returns the value with the rest of the text, \<open>None\<close> for a matching failure; the print and the
  read side are tied by round-trip lemmas collected in \<open>scan_simps\<close>.
\<close>

named_theorems scan_simps \<comment> \<open>reading back what was printed\<close>

subsection \<open>Printing\<close>

definition digits :: string where
  "digits = ''0123456789''"

definition digit_char :: "nat \<Rightarrow> char" where
  "digit_char d = digits ! d"

fun show_nat :: "nat \<Rightarrow> string" where
  "show_nat n = (if n < 10 then [digit_char n] else show_nat (n div 10) @ [digit_char (n mod 10)])"

declare show_nat.simps [simp del]

definition show_int :: "int \<Rightarrow> string" where
  "show_int i = (if i < 0 then CHR ''-'' # show_nat (nat (- i)) else show_nat (nat i))"

text \<open>\<open>%04d\<close> of a request code (never negative).\<close>

definition show_pad4 :: "nat \<Rightarrow> string" where
  "show_pad4 n = replicate (4 - length (show_nat n)) CHR ''0'' @ show_nat n"

definition show_u64 :: "u64 \<Rightarrow> string" where
  "show_u64 w = show_nat (unat w)"

subsection \<open>Reading\<close>

definition digit_val :: "char \<Rightarrow> nat option" where
  "digit_val c = map_of (zip digits [0..<10]) c"

fun scan_digits :: "nat \<Rightarrow> string \<Rightarrow> nat \<times> string" where
  "scan_digits n [] = (n, [])"
| "scan_digits n (c # cs) =
     (case digit_val c of None \<Rightarrow> (n, c # cs) | Some d \<Rightarrow> scan_digits (10 * n + d) cs)"

definition scan_nat :: "string \<Rightarrow> (nat \<times> string) option" where
  "scan_nat s = (case s of [] \<Rightarrow> None
     | c # cs \<Rightarrow> (case digit_val c of None \<Rightarrow> None | Some d \<Rightarrow> Some (scan_digits d cs)))"

definition skip_space :: "string \<Rightarrow> string" where
  "skip_space s = dropWhile is_space s"

text \<open>A sign is optional; white space before it is skipped (\<open>strtol\<close>, \<open>%d\<close>, \<open>>>\<close>).\<close>

definition scan_int :: "string \<Rightarrow> (int \<times> string) option" where
  "scan_int s = (case skip_space s of
       [] \<Rightarrow> None
     | c # cs \<Rightarrow>
         if c = CHR ''-'' then map_option (\<lambda>(n, r). (- int n, r)) (scan_nat cs)
         else if c = CHR ''+'' then map_option (\<lambda>(n, r). (int n, r)) (scan_nat cs)
         else map_option (\<lambda>(n, r). (int n, r)) (scan_nat (c # cs)))"

text \<open>
  \<open>%llu\<close>: a minus sign negates modulo \<open>2^64\<close>, a number that does not fit is \<open>ULLONG_MAX\<close>.
\<close>

definition scan_u64 :: "string \<Rightarrow> (u64 \<times> string) option" where
  "scan_u64 s = map_option (\<lambda>(i, r).
     (if \<bar>i\<bar> < 2 ^ 64 then word_of_int i else ULLONG_MAX, r)) (scan_int s)"

text \<open>\<open>%s\<close>: one word; there is none at the end of the text.\<close>

definition scan_word :: "string \<Rightarrow> (string \<times> string) option" where
  "scan_word s = (let t = skip_space s in
     if t = [] then None
     else Some (takeWhile (\<lambda>c. \<not> is_space c) t, dropWhile (\<lambda>c. \<not> is_space c) t))"

text \<open>\<open>is_int\<close>: \<open>strtol\<close> consumes the whole non-empty text; without digits it consumes nothing.\<close>

definition is_int :: "string \<Rightarrow> bool" where
  "is_int s = (if s = [] then False
     else case scan_int s of None \<Rightarrow> False | Some (_, rest) \<Rightarrow> rest = [])"

subsection \<open>Round trips\<close>

definition no_digit_next :: "string \<Rightarrow> bool" where
  "no_digit_next r \<longleftrightarrow> r = [] \<or> digit_val (hd r) = None"

lemma digit_val_char: "d < 10 \<Longrightarrow> digit_val (digit_char d) = Some d"
  by (simp add: digit_val_def digit_char_def digits_def upt_rec less_Suc_eq numeral_eq_Suc)
     (auto simp: less_Suc_eq)

lemma digit_char_facts:
  "d < 10 \<Longrightarrow> \<not> is_space (digit_char d) \<and> digit_char d \<noteq> CHR ''-'' \<and> digit_char d \<noteq> CHR ''+''
     \<and> digit_char d \<noteq> CHR 0x00"
  by (simp add: is_space_def digit_char_def digits_def less_Suc_eq numeral_eq_Suc)
     (auto simp: less_Suc_eq)

lemma show_nat_nonempty [simp]: "show_nat n \<noteq> []"
  by (subst show_nat.simps) simp

lemma show_nat_digits: "c \<in> set (show_nat n) \<Longrightarrow> \<exists>d < 10. c = digit_char d"
proof (induction n rule: show_nat.induct)
  case (1 n)
  then have "n < 10 \<and> c = digit_char n \<or>
      \<not> n < 10 \<and> (c \<in> set (show_nat (n div 10)) \<or> c = digit_char (n mod 10))"
    by (subst (asm) (2) show_nat.simps) (auto split: if_splits)
  moreover have "n mod 10 < 10" by simp
  ultimately show ?case using "1.IH" by blast
qed

lemma scan_digits_snoc:
  "\<forall>c \<in> set xs. \<exists>d < 10. c = digit_char d \<Longrightarrow>
     scan_digits n (xs @ r) = scan_digits (fst (scan_digits n xs)) r"
  by (induction xs arbitrary: n) (auto simp: digit_val_char)

lemma scan_digits_end: "no_digit_next r \<Longrightarrow> scan_digits n r = (n, r)"
  by (cases r) (auto simp: no_digit_next_def)

lemma scan_nat_digits:
  assumes "xs \<noteq> []" and "\<forall>c \<in> set xs. \<exists>d < 10. c = digit_char d"
  shows "scan_nat (xs @ r) = Some (scan_digits 0 (xs @ r))"
  using assms by (cases xs) (auto simp: scan_nat_def digit_val_char)

lemma scan_digits_show_nat: "scan_digits 0 (show_nat n) = (n, [])"
proof (induction n rule: show_nat.induct)
  case (1 n)
  show ?case
  proof (cases "n < 10")
    case True
    then show ?thesis by (subst show_nat.simps) (simp add: digit_val_char)
  next
    case False
    have "scan_digits 0 (show_nat n) =
        scan_digits (fst (scan_digits 0 (show_nat (n div 10)))) [digit_char (n mod 10)]"
      using False show_nat_digits
      by (subst show_nat.simps) (simp add: scan_digits_snoc)
    also have "\<dots> = (n, [])" using 1 False by (simp add: digit_val_char)
    finally show ?thesis .
  qed
qed

lemma scan_nat_show_nat [scan_simps]:
  "no_digit_next r \<Longrightarrow> scan_nat (show_nat n @ r) = Some (n, r)"
  using show_nat_digits[of _ n]
  by (simp add: scan_nat_digits scan_digits_snoc scan_digits_show_nat scan_digits_end)

lemma hd_show_nat: "\<exists>d cs. d < 10 \<and> show_nat n = digit_char d # cs"
  using show_nat_digits[of "hd (show_nat n)" n] by (cases "show_nat n") auto

lemma scan_int_show_int [scan_simps]:
  assumes "no_digit_next r"
  shows "scan_int (show_int i @ r) = Some (i, r)"
proof (cases "i < 0")
  case True
  have "\<not> is_space CHR ''-''" by (simp add: is_space_def)
  with True assms show ?thesis
    by (simp add: scan_int_def show_int_def skip_space_def scan_nat_show_nat)
next
  case False
  obtain d cs where d: "d < 10" "show_nat (nat i) = digit_char d # cs" using hd_show_nat by blast
  with False assms scan_nat_show_nat[OF assms, of "nat i"] digit_char_facts[OF d(1)] show ?thesis
    by (simp add: scan_int_def show_int_def skip_space_def)
qed

lemma scan_int_space [scan_simps]: "scan_int (CHR '' '' # s) = scan_int s"
  by (simp add: scan_int_def skip_space_def is_space_def)

lemma scan_u64_space [scan_simps]: "scan_u64 (CHR '' '' # s) = scan_u64 s"
  by (simp add: scan_u64_def scan_int_space)

lemma scan_u64_show_u64 [scan_simps]:
  assumes "no_digit_next r"
  shows "scan_u64 (show_u64 w @ r) = Some (w, r)"
proof -
  have "show_u64 w = show_int (int (unat w))" by (simp add: show_u64_def show_int_def)
  moreover have "int (unat w) < 2 ^ 64" using unsigned_less[of w, where 'a=int] by simp
  ultimately show ?thesis
    using scan_int_show_int[OF assms, of "int (unat w)"] by (simp add: scan_u64_def)
qed

lemma scan_word_space [scan_simps]: "scan_word (CHR '' '' # s) = scan_word s"
  by (simp add: scan_word_def skip_space_def is_space_def)

lemma scan_word_word [scan_simps]:
  assumes "is_word w" and "r = [] \<or> is_space (hd r)"
  shows "scan_word (w @ r) = Some (w, r)"
proof -
  have w: "w \<noteq> []" "\<forall>c \<in> set w. \<not> is_space c" using assms(1) by (auto simp: is_word_def list_all_iff)
  have "dropWhile is_space (w @ r) = w @ r" using w by (cases w) auto
  moreover have "takeWhile (\<lambda>c. \<not> is_space c) (w @ r) = w"
    using w(2) assms(2) by (cases r) (auto simp: takeWhile_append2)
  moreover have "dropWhile (\<lambda>c. \<not> is_space c) (w @ r) = r"
    using w(2) assms(2) by (cases r) (auto simp: dropWhile_append2)
  ultimately show ?thesis using w(1) by (simp add: scan_word_def skip_space_def)
qed

lemma no_digit_next_simps [simp]:
  "no_digit_next []" "no_digit_next (CHR '' '' # s)" "no_digit_next (CHR 0x0A # s)"
  by (simp_all add: no_digit_next_def digit_val_def digits_def upt_rec numeral_eq_Suc)

lemma is_word_show_nat: "is_word (show_nat n)"
  using show_nat_digits[of _ n] digit_char_facts
  by (simp add: is_word_def list_all_iff) metis

lemma is_word_show_int: "is_word (show_int i)"
  using is_word_show_nat[of "nat i"] is_word_show_nat[of "nat (- i)"]
  by (auto simp: show_int_def is_word_def is_space_def)

end
