(* ===== verification/FileSys.thy ===== *)
theory FileSys
  imports StdPath CScan
begin

text \<open>
  The file system as the server uses it: regular files with their bytes and directories, by their
  absolute normal path. The operations are those of \<open>std::filesystem\<close> and of POSIX that
  \<open>src/server/file-manager\<close> calls; a call that throws \<open>filesystem_error\<close> is an \<open>Inl\<close>. Links,
  permissions and a full disk are not modelled.
\<close>

datatype node = Reg string | Dir

type_synonym fs = "(string, node) umap"

definition fs_exists :: "fs \<Rightarrow> string \<Rightarrow> bool" where
  "fs_exists f p = (map_of f p \<noteq> None)"

definition fs_is_directory :: "fs \<Rightarrow> string \<Rightarrow> bool" where
  "fs_is_directory f p = (map_of f p = Some Dir)"

text \<open>\<open>file_size\<close> throws on a directory (libstdc++).\<close>

definition get_file_size_if_exists :: "fs \<Rightarrow> string \<Rightarrow> u64 res" where
  "get_file_size_if_exists f p =
     (case map_of f p of None \<Rightarrow> Inr 0
      | Some (Reg c) \<Rightarrow> Inr (of_nat (length c)) | Some Dir \<Rightarrow> Inl FilesystemError)"

definition ancestors :: "string \<Rightarrow> string list" where
  "ancestors p =
     (if is_absolute p then map (\<lambda>ns. ''/'' @ join_slash ns) (prefixes (names p))
      else map join_slash (tl (prefixes (names p))))"

fun mkdirs :: "string list \<Rightarrow> fs \<Rightarrow> fs res" where
  "mkdirs [] f = Inr f"
| "mkdirs (p # ps) f =
     (case map_of f p of
        None \<Rightarrow> mkdirs ps (emplace p Dir f)
      | Some Dir \<Rightarrow> mkdirs ps f
      | Some (Reg _) \<Rightarrow> Inl FilesystemError)"

definition create_directories :: "string \<Rightarrow> fs \<Rightarrow> fs res" where
  "create_directories p f = (if p = [] then Inl FilesystemError else mkdirs (ancestors p) f)"

definition touch :: "string \<Rightarrow> fs \<Rightarrow> fs" where
  \<comment> \<open>\<open>open (p, O_CREAT | O_EXCL)\<close>: an empty file, or nothing where there is an entry already\<close>
  "touch p f = emplace p (Reg []) f"

definition write_text :: "string \<Rightarrow> string \<Rightarrow> fs \<Rightarrow> fs" where
  \<comment> \<open>\<open>fopen (p, "w")\<close>, one \<open>fprintf\<close>, \<open>fclose\<close>\<close>
  "write_text p txt f = AList.update p (Reg txt) f"

definition unlink_file :: "string \<Rightarrow> fs \<Rightarrow> fs" where
  "unlink_file p f = AList.delete p f"

text \<open>The integer at the start of a file (\<open>in >> n\<close> of a \<open>long\<close>), zero if it cannot be read.\<close>

definition LONG_MAX :: int where "LONG_MAX = 9223372036854775807"

definition read_long :: "fs \<Rightarrow> string \<Rightarrow> int" where
  "read_long f p =
     (case map_of f p of
        Some (Reg c) \<Rightarrow> (case scan_int c of None \<Rightarrow> 0
           | Some (i, _) \<Rightarrow> max (- LONG_MAX - 1) (min LONG_MAX i))
      | _ \<Rightarrow> 0)"

definition directory_entries :: "fs \<Rightarrow> string \<Rightarrow> string list" where
  "directory_entries f p = filter (\<lambda>q. q \<noteq> p \<and> parent_path q = p) (map fst f)"

subsection \<open>Creating directories only adds directories\<close>

definition only_adds_dirs :: "fs \<Rightarrow> fs \<Rightarrow> bool" where
  "only_adds_dirs f f' \<longleftrightarrow>
     (\<forall>p. map_of f' p = map_of f p \<or> map_of f p = None \<and> map_of f' p = Some Dir)"

lemma only_adds_dirs_refl [simp]: "only_adds_dirs f f"
  by (simp add: only_adds_dirs_def)

lemma only_adds_dirs_trans [trans]:
  "only_adds_dirs f g \<Longrightarrow> only_adds_dirs g h \<Longrightarrow> only_adds_dirs f h"
  unfolding only_adds_dirs_def by metis

lemma only_adds_dirs_keeps: "only_adds_dirs f f' \<Longrightarrow> map_of f p = Some n \<Longrightarrow> map_of f' p = Some n"
  unfolding only_adds_dirs_def by (metis option.distinct(1))

lemma only_adds_dirs_reg: "only_adds_dirs f f' \<Longrightarrow> map_of f' p = Some (Reg c) \<longleftrightarrow> map_of f p = Some (Reg c)"
  unfolding only_adds_dirs_def by (metis node.distinct(1) option.distinct(1) option.inject)

lemma mkdirs_only_adds: "mkdirs ps f = Inr f' \<Longrightarrow> only_adds_dirs f f'"
proof (induction ps arbitrary: f)
  case (Cons p ps)
  show ?case
  proof (cases "map_of f p")
    case None
    then have "only_adds_dirs f (emplace p Dir f)" by (simp add: only_adds_dirs_def umap_simps)
    with Cons None show ?thesis by (auto intro: only_adds_dirs_trans)
  next
    case (Some n)
    with Cons show ?thesis by (cases n) auto
  qed
qed simp

lemma mkdirs_dirs: "mkdirs ps f = Inr f' \<Longrightarrow> p \<in> set ps \<Longrightarrow> map_of f' p = Some Dir"
proof (induction ps arbitrary: f)
  case (Cons q ps)
  then obtain f1 where f1: "mkdirs ps f1 = Inr f'" "map_of f1 q = Some Dir"
    by (auto simp: umap_simps split: option.splits node.splits)
  show ?case
  proof (cases "p \<in> set ps")
    case True
    with Cons.IH f1(1) show ?thesis by blast
  next
    case False
    with Cons.prems(2) have "p = q" by simp
    with f1 mkdirs_only_adds[OF f1(1)] show ?thesis by (metis only_adds_dirs_keeps)
  qed
qed simp

lemma mkdirs_same: "\<forall>p \<in> set ps. map_of f p = Some Dir \<Longrightarrow> mkdirs ps f = Inr f"
  by (induction ps) auto

lemma mkdirs_new: "mkdirs ps f = Inr f' \<Longrightarrow> map_of f' p \<noteq> map_of f p \<Longrightarrow> p \<in> set ps"
proof (induction ps arbitrary: f)
  case (Cons q ps)
  then show ?case
    by (cases "p = q") (auto simp: umap_simps split: option.splits node.splits)
qed simp

lemma mkdirs_wf: "mkdirs ps f = Inr f' \<Longrightarrow> umap_wf f \<Longrightarrow> umap_wf f'"
  by (induction ps arbitrary: f) (auto split: option.splits node.splits)

lemma mkdirs_error: "mkdirs ps f = Inl e \<Longrightarrow> e = FilesystemError"
  by (induction ps arbitrary: f) (auto split: option.splits node.splits)

lemma create_directories_only_adds: "create_directories p f = Inr f' \<Longrightarrow> only_adds_dirs f f'"
  by (auto simp: create_directories_def mkdirs_only_adds split: if_splits)

lemma create_directories_again: "create_directories p f = Inr f' \<Longrightarrow> create_directories p f' = Inr f'"
  by (auto simp: create_directories_def mkdirs_dirs intro!: mkdirs_same split: if_splits)

lemma create_directories_wf: "create_directories p f = Inr f' \<Longrightarrow> umap_wf f \<Longrightarrow> umap_wf f'"
  by (auto simp: create_directories_def mkdirs_wf split: if_splits)

lemma create_directories_error: "create_directories p f = Inl e \<Longrightarrow> e = FilesystemError"
  by (auto simp: create_directories_def dest: mkdirs_error split: if_splits)

lemma only_adds_dirs_size:
  "only_adds_dirs f f' \<Longrightarrow> map_of f p = Some n \<Longrightarrow>
     get_file_size_if_exists f' p = get_file_size_if_exists f p"
  by (frule only_adds_dirs_keeps) (auto simp: get_file_size_if_exists_def)

end
