(* ===== verification/FileManager.thy ===== *)
theory FileManager
  imports CLEngine FileSys
begin

text \<open>
  \<open>CapioFileManager\<close> of \<open>src/server/file-manager\<close>: the token files that record commits, the test
  whether a path is committed, and the two tables of threads that wait for a file to be created or
  for its data. The state of the server is one record; every method that writes takes and returns
  it. The mutexes around the tables make each method one atomic step.
\<close>

record file_manager =
  thread_awaiting_file_creation :: "(string, tid list) umap"
  thread_awaiting_data :: "(string, (tid, u64) umap) umap"

record server =
  srv_engine :: engine
  srv_clients :: client_manager
  srv_fm :: file_manager
  srv_fs :: fs

text \<open>The constants of a run: \<open>get_capio_dir ()\<close>, \<open>get_capio_metadata_path ()\<close>, and how deep the
  recursion of \<open>isCommitted\<close> can go before the stack is exhausted.\<close>

record env =
  capio_dir :: string
  capio_metadata_path :: string
  stack_depth :: nat

subsection \<open>Token files\<close>

text \<open>\<open>path.find (dir) + 1\<close> is zero when \<open>find\<close> returns \<open>npos\<close>.\<close>

definition metadata_path :: "env \<Rightarrow> string \<Rightarrow> string" where
  "metadata_path env path =
     path_append (capio_metadata_path env)
       (drop (case find_sub path (capio_dir env) of None \<Rightarrow> 0 | Some i \<Rightarrow> i + 1) path @ ''.capio'')"

definition getAndCreateMetadataPath :: "env \<Rightarrow> string \<Rightarrow> fs \<Rightarrow> (string \<times> fs) res" where
  "getAndCreateMetadataPath env path f =
     (let result = metadata_path env path
      in rbind (create_directories (parent_path result) f) (\<lambda>f'. Inr (result, f')))"

subsection \<open>Committed files\<close>

text \<open>
  \<open>isCommitted\<close>, with the depth the stack still allows. The second function is the loop over the
  dependencies, whose conjunction stops calling at the first one that is not committed.
\<close>

fun is_committed :: "nat \<Rightarrow> env \<Rightarrow> engine \<Rightarrow> string \<Rightarrow> fs \<Rightarrow> (bool \<times> fs) res"
  and deps_committed :: "nat \<Rightarrow> env \<Rightarrow> engine \<Rightarrow> string list \<Rightarrow> bool \<Rightarrow> fs \<Rightarrow> (bool \<times> fs) res" where
  "is_committed 0 env eng path f = Inl StackExhausted"
| "is_committed (Suc d) env eng path f =
     (if fs_is_directory f path then
        let count = length (filter (\<lambda>q. extension q \<noteq> ''.capio'') (directory_entries f path))
        in Inr (getDirectoryFileCount eng path \<le> int count, f)
      else
        rbind (getAndCreateMetadataPath env path f) (\<lambda>(metadata_computed_path, f1).
          let commit_rule = getCommitRule eng path;
              metadata_token_exists = fs_exists f1 metadata_computed_path
          in if commit_rule = CAPIO_FILE_COMMITTED_ON_FILE then
               deps_committed d env eng (get_file_deps eng path) True f1
             else if commit_rule = CAPIO_FILE_COMMITTED_ON_CLOSE then
               (if metadata_token_exists then
                  let commit_count = getCommitCloseCount eng path
                  in if commit_count \<noteq> -1
                     then Inr (commit_count \<le> read_long f1 metadata_computed_path, f1)
                     else Inr (True, f1)
                else Inr (False, f1))
             else Inr (metadata_token_exists, f1)))"
| "deps_committed d env eng [] commit_computed f = Inr (commit_computed, f)"
| "deps_committed d env eng (file # files) commit_computed f =
     (if commit_computed
      then rbind (is_committed d env eng file f) (\<lambda>(b, f'). deps_committed d env eng files b f')
      else deps_committed d env eng files False f)"

definition isCommitted :: "env \<Rightarrow> string \<Rightarrow> server \<Rightarrow> (bool \<times> server) res" where
  "isCommitted env path s =
     rbind (is_committed (stack_depth env) env (srv_engine s) path (srv_fs s))
       (\<lambda>(b, f). Inr (b, s\<lparr>srv_fs := f\<rparr>))"

subsection \<open>Threads that wait for a file to be created\<close>

definition addThreadAwaitingCreation :: "string \<Rightarrow> tid \<Rightarrow> server \<Rightarrow> server" where
  "addThreadAwaitingCreation path t s =
     (let m = emplace path [] (thread_awaiting_file_creation (srv_fm s))
      in s\<lparr>srv_fm := (srv_fm s)\<lparr>thread_awaiting_file_creation :=
           (case map_of m path of Some ts \<Rightarrow> AList.update path (ts @ [t]) m | None \<Rightarrow> m)\<rparr>\<rparr>)"

fun reply_all :: "tid list \<Rightarrow> u64 \<Rightarrow> client_manager \<Rightarrow> client_manager res" where
  "reply_all [] v cm = Inr cm"
| "reply_all (t # ts) v cm = rbind (reply_to_client t v cm) (reply_all ts v)"

definition deleteFileAwaitingCreation :: "string \<Rightarrow> server \<Rightarrow> server" where
  "deleteFileAwaitingCreation path s =
     s\<lparr>srv_fm := (srv_fm s)\<lparr>thread_awaiting_file_creation :=
       AList.delete path (thread_awaiting_file_creation (srv_fm s))\<rparr>\<rparr>"

definition unlockThreadAwaitingCreation :: "string \<Rightarrow> server \<Rightarrow> server res" where
  "unlockThreadAwaitingCreation path s =
     rbind (case map_of (thread_awaiting_file_creation (srv_fm s)) path of
              Some th \<Rightarrow> reply_all th 1 (srv_clients s) | None \<Rightarrow> Inr (srv_clients s))
       (\<lambda>cm. Inr (deleteFileAwaitingCreation path (s\<lparr>srv_clients := cm\<rparr>)))"

definition getFileAwaitingCreation :: "server \<Rightarrow> string list" where
  "getFileAwaitingCreation s = map fst (thread_awaiting_file_creation (srv_fm s))"

subsection \<open>Threads that wait for data\<close>

definition addThreadAwaitingData :: "string \<Rightarrow> tid \<Rightarrow> u64 \<Rightarrow> server \<Rightarrow> server" where
  "addThreadAwaitingData path t expected_size s =
     (let m = emplace path [] (thread_awaiting_data (srv_fm s))
      in s\<lparr>srv_fm := (srv_fm s)\<lparr>thread_awaiting_data :=
           (case map_of m path of
              Some th \<Rightarrow> AList.update path (emplace t expected_size th) m | None \<Rightarrow> m)\<rparr>\<rparr>)"

text \<open>\<open>-1\<close> as \<open>uintmax_t\<close> for a directory.\<close>

definition filesize_of :: "fs \<Rightarrow> string \<Rightarrow> u64 res" where
  "filesize_of f path = (if fs_is_directory f path then Inr ULLONG_MAX else get_file_size_if_exists f path)"

text \<open>
  The loop over the threads of one path. \<open>file_size_check\<close> compares the thread id, \<open>item->first\<close>,
  with the size, as the source does. Returned are the threads that stay.
\<close>

fun unlock_loop :: "env \<Rightarrow> string \<Rightarrow> (tid, u64) umap \<Rightarrow> server \<Rightarrow> ((tid, u64) umap \<times> server) res" where
  "unlock_loop env path [] s = Inr ([], s)"
| "unlock_loop env path ((t, expected) # items) s =
     rbind (filesize_of (srv_fs s) path) (\<lambda>filesize.
     rbind (isCommitted env path s) (\<lambda>(committed, s1).
       let file_size_check = filesize \<le> word_of_int t;
           is_fnu = (getFireRule (srv_engine s1) path = CAPIO_FILE_MODE_NO_UPDATE)
       in rbind (isProducer (srv_clients s1) (srv_engine s1) path t) (\<lambda>is_producer.
          if committed \<or> is_producer \<or> (file_size_check \<and> is_fnu) then
            rbind (filesize_of (srv_fs s1) path) (\<lambda>v.
            rbind (reply_to_client t v (srv_clients s1)) (\<lambda>cm.
              unlock_loop env path items (s1\<lparr>srv_clients := cm\<rparr>)))
          else
            rbind (unlock_loop env path items s1) (\<lambda>(kept, s2). Inr ((t, expected) # kept, s2)))))"

definition checkAndUnlockThreadAwaitingData :: "env \<Rightarrow> string \<Rightarrow> server \<Rightarrow> server res" where
  "checkAndUnlockThreadAwaitingData env path s =
     (case map_of (thread_awaiting_data (srv_fm s)) path of
        None \<Rightarrow> Inr s
      | Some threads \<Rightarrow>
          rbind (unlock_loop env path threads s) (\<lambda>(kept, s').
            Inr (s'\<lparr>srv_fm := (srv_fm s')\<lparr>thread_awaiting_data :=
              (if kept = [] then AList.delete path (thread_awaiting_data (srv_fm s'))
               else AList.update path kept (thread_awaiting_data (srv_fm s')))\<rparr>\<rparr>)))"

definition getFileAwaitingData :: "server \<Rightarrow> string list" where
  "getFileAwaitingData s = map fst (thread_awaiting_data (srv_fm s))"

subsection \<open>Committing\<close>

definition setCommitted :: "env \<Rightarrow> string \<Rightarrow> server \<Rightarrow> server res" where
  "setCommitted env path s =
     rbind (getAndCreateMetadataPath env path (srv_fs s)) (\<lambda>(metadata_path, f).
     rbind (checkAndUnlockThreadAwaitingData env path (s\<lparr>srv_fs := touch metadata_path f\<rparr>)) (\<lambda>s1.
       unlockThreadAwaitingCreation path s1))"

fun setCommitted_all :: "env \<Rightarrow> string list \<Rightarrow> server \<Rightarrow> server res" where
  "setCommitted_all env [] s = Inr s"
| "setCommitted_all env (file # files) s = rbind (setCommitted env file s) (setCommitted_all env files)"

definition setCommitted_tid :: "env \<Rightarrow> tid \<Rightarrow> server \<Rightarrow> server res" where
  "setCommitted_tid env t s =
     rbind (get_produced_files t (srv_clients s)) (\<lambda>files. setCommitted_all env files s)"

definition close_count_text :: "int \<Rightarrow> string" where
  \<comment> \<open>\<open>" %llu \n"\<close> of a \<open>long long\<close>\<close>
  "close_count_text n = '' '' @ show_u64 (word_of_int n) @ '' '' @ [CHR 0x0A]"

text \<open>
  Under the lock file (\<open>DistributedSemaphore\<close>), created and removed within the call; while another
  server holds it the call spins. A file that does not exist or cannot be read counts as zero.
\<close>

definition increaseCloseCount :: "env \<Rightarrow> string \<Rightarrow> server \<Rightarrow> server res" where
  "increaseCloseCount env path s =
     rbind (getAndCreateMetadataPath env path (srv_fs s)) (\<lambda>(metadata_path, f).
       if fs_exists f (metadata_path @ ''.lock'') then Inl Blocked
       else if fs_is_directory f metadata_path then Inl Undefined
       else let close_count = read_long f metadata_path + 1
            in Inr (s\<lparr>srv_fs := write_text metadata_path (close_count_text close_count) f\<rparr>))"

end
