(* ===== verification/Committing.thy ===== *)
theory Committing
  imports FileManager
begin

text \<open>
  When a path counts as committed. The inductive predicate \<open>committed\<close> is the rule the CAPIO-CL
  commit semantics state; \<open>is_committed\<close>, the code's recursion, is shown to compute it wherever the
  dependencies are well founded and the directories of the tokens exist, to need no more stack than
  the longest chain of dependencies, and to exhaust any stack on a cycle. Then: what a commit and
  a counted close change, and that no other path is touched.
\<close>

definition entry_count :: "fs \<Rightarrow> string \<Rightarrow> nat" where
  "entry_count f p = length (filter (\<lambda>q. extension q \<noteq> ''.capio'') (directory_entries f p))"

inductive committed :: "env \<Rightarrow> engine \<Rightarrow> fs \<Rightarrow> string \<Rightarrow> bool"
  for env :: env and eng :: engine and f :: fs where
  directory: "fs_is_directory f p \<Longrightarrow> getDirectoryFileCount eng p \<le> int (entry_count f p) \<Longrightarrow>
     committed env eng f p"
| on_file: "\<not> fs_is_directory f p \<Longrightarrow> getCommitRule eng p = CAPIO_FILE_COMMITTED_ON_FILE \<Longrightarrow>
     \<forall>q \<in> set (get_file_deps eng p). committed env eng f q \<Longrightarrow> committed env eng f p"
| on_close: "\<not> fs_is_directory f p \<Longrightarrow> getCommitRule eng p = CAPIO_FILE_COMMITTED_ON_CLOSE \<Longrightarrow>
     fs_exists f (metadata_path env p) \<Longrightarrow>
     getCommitCloseCount eng p = -1 \<or> getCommitCloseCount eng p \<le> read_long f (metadata_path env p) \<Longrightarrow>
     committed env eng f p"
| on_token: "\<not> fs_is_directory f p \<Longrightarrow> getCommitRule eng p \<noteq> CAPIO_FILE_COMMITTED_ON_FILE \<Longrightarrow>
     getCommitRule eng p \<noteq> CAPIO_FILE_COMMITTED_ON_CLOSE \<Longrightarrow>
     fs_exists f (metadata_path env p) \<Longrightarrow> committed env eng f p"

inductive_simps committed_iff: "committed env eng f p"

definition warm :: "env \<Rightarrow> fs \<Rightarrow> string \<Rightarrow> bool" where
  "warm env f p \<longleftrightarrow> create_directories (parent_path (metadata_path env p)) f = Inr f"

lemma warm_metadata: "warm env f p \<Longrightarrow> getAndCreateMetadataPath env p f = Inr (metadata_path env p, f)"
  by (simp add: warm_def getAndCreateMetadataPath_def)

lemma metadata_Inr:
  "getAndCreateMetadataPath env p f = Inr (m, f') \<longleftrightarrow> m = metadata_path env p \<and>
     create_directories (parent_path (metadata_path env p)) f = Inr f'"
  by (auto simp: getAndCreateMetadataPath_def res_simps Let_def)

lemma metadata_warm: "getAndCreateMetadataPath env p f = Inr (m, f') \<Longrightarrow> warm env f' p"
  by (auto simp: metadata_Inr warm_def create_directories_again)

text \<open>A file system that keeps the directories of a warm one is warm.\<close>

lemma create_directories_same:
  "create_directories p f = Inr f \<longleftrightarrow> p \<noteq> [] \<and> (\<forall>q \<in> set (ancestors p). map_of f q = Some Dir)"
  by (auto simp: create_directories_def mkdirs_same dest: mkdirs_dirs)

lemma warm_mono:
  "warm env f p \<Longrightarrow> (\<And>q. map_of f q = Some Dir \<Longrightarrow> map_of f' q = Some Dir) \<Longrightarrow> warm env f' p"
  by (auto simp: warm_def create_directories_same)

lemma rules_distinct [simp]:
  "CAPIO_FILE_COMMITTED_ON_FILE \<noteq> CAPIO_FILE_COMMITTED_ON_CLOSE"
  "CAPIO_FILE_COMMITTED_ON_CLOSE \<noteq> CAPIO_FILE_COMMITTED_ON_FILE"
  "CAPIO_FILE_COMMITTED_ON_TERMINATION \<noteq> CAPIO_FILE_COMMITTED_ON_FILE"
  "CAPIO_FILE_COMMITTED_ON_TERMINATION \<noteq> CAPIO_FILE_COMMITTED_ON_CLOSE"
  by (simp_all add: CAPIO_FILE_COMMITTED_ON_FILE_def CAPIO_FILE_COMMITTED_ON_CLOSE_def
      CAPIO_FILE_COMMITTED_ON_TERMINATION_def)

subsection \<open>The recursion computes the rule\<close>

lemma deps_committed_all:
  "(\<And>q. q \<in> set ds \<Longrightarrow> is_committed d env eng q f = Inr (C q, f)) \<Longrightarrow>
     deps_committed d env eng ds b f = Inr (b \<and> (\<forall>q \<in> set ds. C q), f)"
  by (induction ds arbitrary: b) auto

definition deps_below :: "engine \<Rightarrow> string set \<Rightarrow> (string \<Rightarrow> nat) \<Rightarrow> bool" where
  "deps_below eng S rank \<longleftrightarrow>
     (\<forall>p \<in> S. \<forall>q \<in> set (get_file_deps eng p). q \<in> S \<and> rank q < rank p)"

lemma is_committed_refines:
  assumes below: "deps_below eng S rank" and warm: "\<forall>p \<in> S. warm env f p"
  shows "p \<in> S \<Longrightarrow> rank p < d \<Longrightarrow> is_committed d env eng p f = Inr (committed env eng f p, f)"
proof (induction d arbitrary: p)
  case 0
  then show ?case by simp
next
  case (Suc d)
  have "deps_committed d env eng (get_file_deps eng p) True f =
      Inr (\<forall>q \<in> set (get_file_deps eng p). committed env eng f q, f)"
    using Suc below unfolding deps_below_def
    by (subst deps_committed_all[where C = "committed env eng f"]) fastforce+
  moreover have "getAndCreateMetadataPath env p f = Inr (metadata_path env p, f)"
    using Suc.prems(1) warm warm_metadata by blast
  ultimately show ?case
    by (subst committed_iff) (auto simp: entry_count_def Let_def)
qed

lemma is_committed_fuel:
  "is_committed d env eng p f \<noteq> Inl StackExhausted \<Longrightarrow> d \<le> d' \<Longrightarrow>
     is_committed d' env eng p f = is_committed d env eng p f"
  "deps_committed d env eng ds b f \<noteq> Inl StackExhausted \<Longrightarrow> d \<le> d' \<Longrightarrow>
     deps_committed d' env eng ds b f = deps_committed d env eng ds b f"
proof (induction d env eng p f and d env eng ds b f arbitrary: d' and d'
    rule: is_committed_deps_committed.induct)
  case (2 d env eng path f)
  from 2(3) obtain k where k: "d' = Suc k" "d \<le> k" by (cases d') auto
  show ?case
  proof (cases "fs_is_directory f path")
    case False
    show ?thesis
    proof (cases "getAndCreateMetadataPath env path f")
      case (Inr mf)
      obtain m f1 where mf: "mf = (m, f1)" by (cases mf)
      show ?thesis
      proof (cases "getCommitRule eng path = CAPIO_FILE_COMMITTED_ON_FILE")
        case True
        have "is_committed (Suc d) env eng path f =
            deps_committed d env eng (get_file_deps eng path) True f1"
          using False Inr mf True by simp
        with 2(1)[OF False Inr mf[symmetric] refl refl True, of k] 2(2) k False Inr mf True
        show ?thesis by simp
      qed (simp add: k False Inr mf Let_def)
    qed (simp add: k False)
  qed (simp add: k)
next
  case (4 d env eng fl fls commit_computed f)
  show ?case
  proof (cases commit_computed)
    case True
    show ?thesis
    proof (cases "is_committed d env eng fl f")
      case (Inl e)
      with 4(1)[OF True, of d'] 4(4,5) True show ?thesis by simp
    next
      case (Inr bf)
      obtain b f1 where bf: "bf = (b, f1)" by (cases bf)
      with 4(1)[OF True, of d'] 4(2)[OF True Inr bf[symmetric], of d'] 4(4,5) True Inr show ?thesis by simp
    qed
  next
    case False
    with 4(3)[OF False, of d'] 4(4,5) show ?thesis by simp
  qed
qed simp_all

text \<open>
  The conjunction over the dependencies stops at the first that is not committed, so a cycle is
  followed only behind dependencies that are.
\<close>

definition closes_cycle :: "env \<Rightarrow> engine \<Rightarrow> fs \<Rightarrow> string set \<Rightarrow> string \<Rightarrow> bool" where
  "closes_cycle env eng f C p \<longleftrightarrow> (\<exists>pre q post. get_file_deps eng p = pre @ q # post \<and> q \<in> C \<and>
     (\<forall>r \<in> set pre. \<exists>d. is_committed d env eng r f = Inr (True, f)))"

lemma deps_committed_prefix:
  assumes "\<forall>r \<in> set pre. \<exists>d. is_committed d env eng r f = Inr (True, f)"
    and "is_committed d env eng q f = Inl StackExhausted"
  shows "deps_committed d env eng (pre @ q # post) True f = Inl StackExhausted"
  using assms(1)
proof (induction pre)
  case (Cons r pre)
  then obtain k where k: "is_committed k env eng r f = Inr (True, f)" by auto
  show ?case
  proof (cases "is_committed d env eng r f = Inl StackExhausted")
    case False
    have "is_committed d env eng r f = Inr (True, f)"
      using is_committed_fuel(1)[of d env eng r f k] is_committed_fuel(1)[of k env eng r f d] k False
      by (cases "d \<le> k") auto
    with Cons show ?thesis by simp
  qed simp
qed (simp add: assms(2))

lemma is_committed_cycle:
  assumes "\<forall>p \<in> C. warm env f p \<and> \<not> fs_is_directory f p \<and>
      getCommitRule eng p = CAPIO_FILE_COMMITTED_ON_FILE \<and> closes_cycle env eng f C p"
  shows "p \<in> C \<Longrightarrow> is_committed d env eng p f = Inl StackExhausted"
proof (induction d arbitrary: p)
  case (Suc d)
  with assms obtain pre q post where q: "get_file_deps eng p = pre @ q # post" "q \<in> C"
      "\<forall>r \<in> set pre. \<exists>d. is_committed d env eng r f = Inr (True, f)" unfolding closes_cycle_def by blast
  with Suc.IH have "is_committed d env eng q f = Inl StackExhausted" by blast
  from deps_committed_prefix[OF q(3) this] assms Suc.prems q(1) show ?case by (auto simp: warm_metadata)
qed simp

lemma committed_not_cycle:
  assumes "\<forall>p \<in> C. \<not> fs_is_directory f p \<and>
      getCommitRule eng p = CAPIO_FILE_COMMITTED_ON_FILE \<and> set (get_file_deps eng p) \<inter> C \<noteq> {}"
  shows "committed env eng f p \<Longrightarrow> p \<notin> C"
proof (induction rule: committed.induct)
  case (on_file p)
  then show ?case using assms by blast
qed (use assms in auto)

subsection \<open>Asking creates directories and nothing else\<close>

lemma is_committed_only_adds:
  "is_committed d env eng p f = Inr (b, f') \<Longrightarrow> only_adds_dirs f f'"
  "deps_committed d env eng ds c f = Inr (b, f') \<Longrightarrow> only_adds_dirs f f'"
proof (induction d env eng p f and d env eng ds c f arbitrary: b f' and b f'
    rule: is_committed_deps_committed.induct)
  case (2 d env eng path f)
  show ?case
  proof (cases "fs_is_directory f path")
    case False
    with 2(2) obtain m f1 where m: "getAndCreateMetadataPath env path f = Inr (m, f1)"
      by (auto simp: res_simps)
    then have f1: "only_adds_dirs f f1" by (auto simp: metadata_Inr create_directories_only_adds)
    show ?thesis
    proof (cases "getCommitRule eng path = CAPIO_FILE_COMMITTED_ON_FILE")
      case True
      with 2(2) False m have "deps_committed d env eng (get_file_deps eng path) True f1 = Inr (b, f')"
        by simp
      with 2(1)[OF False m refl refl refl True] f1 show ?thesis by (blast intro: only_adds_dirs_trans)
    qed (use 2(2) False m f1 in \<open>auto simp: Let_def split: if_splits\<close>)
  qed (use 2(2) in \<open>auto simp: Let_def\<close>)
next
  case (4 d env eng fl fls commit_computed f)
  show ?case
  proof (cases commit_computed)
    case True
    with 4(4) obtain c f1 where "is_committed d env eng fl f = Inr (c, f1)"
        "deps_committed d env eng fls c f1 = Inr (b, f')"
      by (auto simp: res_simps)
    with 4(1)[OF True] 4(2)[OF True _ refl] show ?thesis by (blast intro: only_adds_dirs_trans)
  qed (use 4(3,4) in auto)
qed auto

lemma isCommitted_Inr:
  "isCommitted env p s = Inr (b, s') \<longleftrightarrow> (\<exists>f. s' = s\<lparr>srv_fs := f\<rparr> \<and>
     is_committed (stack_depth env) env (srv_engine s) p (srv_fs s) = Inr (b, f))"
  by (auto simp: isCommitted_def res_simps)

text \<open>
  What a call may do to the state besides answering and changing the waiting lists: it adds
  directories to the file system, and leaves the rules and the names of the applications alone.
\<close>

definition answers_grow :: "(tid \<rightharpoonup> u64 list) \<Rightarrow> (tid \<rightharpoonup> u64 list) \<Rightarrow> bool" where
  "answers_grow B B' \<longleftrightarrow> dom B' = dom B \<and>
     (\<forall>t b. B t = Some b \<longrightarrow> (\<exists>vs. B' t = Some (b @ vs)))"

lemma answers_grow_refl [simp]: "answers_grow B B"
  by (simp add: answers_grow_def)

lemma answers_grow_trans: "answers_grow B C \<Longrightarrow> answers_grow C D \<Longrightarrow> answers_grow B D"
  unfolding answers_grow_def by (metis append.assoc)

definition same_but_answers :: "server \<Rightarrow> server \<Rightarrow> bool" where
  "same_but_answers s s' \<longleftrightarrow> srv_engine s' = srv_engine s \<and>
     only_adds_dirs (srv_fs s) (srv_fs s') \<and>
     app_names (srv_clients s') = app_names (srv_clients s) \<and>
     files_to_be_committed_by_tid (srv_clients s') = files_to_be_committed_by_tid (srv_clients s) \<and>
     answers_grow (bufs_response (srv_clients s)) (bufs_response (srv_clients s'))"

lemma same_but_answers_refl [simp]: "same_but_answers s s"
  by (simp add: same_but_answers_def)

lemma same_but_answers_trans [trans]:
  "same_but_answers s t \<Longrightarrow> same_but_answers t u \<Longrightarrow> same_but_answers s u"
  by (auto simp: same_but_answers_def intro: only_adds_dirs_trans answers_grow_trans)

lemma same_isCommitted: "isCommitted env p s = Inr (b, s') \<Longrightarrow> same_but_answers s s'"
  by (auto simp: isCommitted_Inr same_but_answers_def dest: is_committed_only_adds)

lemma same_reply:
  "reply_to_client t v (srv_clients s) = Inr cm \<Longrightarrow> same_but_answers s (s\<lparr>srv_clients := cm\<rparr>)"
  by (auto simp: reply_Inr same_but_answers_def answers_grow_def split: if_splits)

lemma same_fm [simp]: "same_but_answers s (s'\<lparr>srv_fm := m\<rparr>) = same_but_answers s s'"
  by (simp add: same_but_answers_def)

lemma same_reply_all:
  "reply_all ts v (srv_clients s) = Inr cm \<Longrightarrow> same_but_answers s (s\<lparr>srv_clients := cm\<rparr>)"
proof (induction ts arbitrary: s)
  case (Cons t ts)
  then obtain cm1 where 1: "reply_to_client t v (srv_clients s) = Inr cm1" "reply_all ts v cm1 = Inr cm"
    by (auto simp: res_simps)
  from same_reply[OF 1(1)] Cons.IH[of "s\<lparr>srv_clients := cm1\<rparr>"] 1(2) show ?case
    by (auto intro: same_but_answers_trans)
qed (auto)

lemma same_unlockCreation:
  "unlockThreadAwaitingCreation p s = Inr s' \<Longrightarrow> same_but_answers s s'"
  by (auto simp: unlockThreadAwaitingCreation_def res_simps deleteFileAwaitingCreation_def
      dest: same_reply_all split: option.splits)

lemma same_unlock_loop:
  "unlock_loop env p items s = Inr (kept, s') \<Longrightarrow> same_but_answers s s'"
proof (induction env p items s arbitrary: kept s' rule: unlock_loop.induct)
  case (2 env path t expected items s)
  from 2(3) obtain filesize committed s1 is_producer where
    c: "filesize_of (srv_fs s) path = Inr filesize" "isCommitted env path s = Inr (committed, s1)"
      "isProducer (srv_clients s1) (srv_engine s1) path t = Inr is_producer"
    by (auto simp: res_simps Let_def)
  let ?cond = "committed \<or> is_producer \<or> filesize \<le> word_of_int t \<and>
      getFireRule (srv_engine s1) path = CAPIO_FILE_MODE_NO_UPDATE"
  show ?case
  proof (cases ?cond)
    case True
    with 2(3) c obtain v cm where v: "filesize_of (srv_fs s1) path = Inr v"
        "reply_to_client t v (srv_clients s1) = Inr cm"
        "unlock_loop env path items (s1\<lparr>srv_clients := cm\<rparr>) = Inr (kept, s')"
      by (auto simp: res_simps)
    from 2(1)[OF c(1,2) refl refl refl c(3) True v(1,2,3)] same_reply[OF v(2)] same_isCommitted[OF c(2)]
    show ?thesis by (blast intro: same_but_answers_trans)
  next
    case False
    with 2(3) c obtain k where k: "unlock_loop env path items s1 = Inr (k, s')"
      by (auto simp: res_simps)
    from 2(2)[OF c(1,2) refl refl refl c(3) False k] same_isCommitted[OF c(2)]
    show ?thesis by (blast intro: same_but_answers_trans)
  qed
qed simp

lemma same_checkAndUnlock:
  "checkAndUnlockThreadAwaitingData env p s = Inr s' \<Longrightarrow> same_but_answers s s'"
  by (auto simp: checkAndUnlockThreadAwaitingData_def res_simps dest: same_unlock_loop
      split: option.splits)

subsection \<open>A commit\<close>

lemma touch_exists: "fs_exists (touch p f) p"
  by (simp add: touch_def fs_exists_def umap_simps)

lemma touch_keeps: "map_of f q = Some n \<Longrightarrow> map_of (touch p f) q = Some n"
  by (simp add: touch_def umap_simps)

lemma only_adds_exists: "only_adds_dirs f f' \<Longrightarrow> fs_exists f p \<Longrightarrow> fs_exists f' p"
  by (auto simp: fs_exists_def dest: only_adds_dirs_keeps)

lemma setCommitted_Inr:
  "setCommitted env p s = Inr s' \<longleftrightarrow> (\<exists>f s1.
     create_directories (parent_path (metadata_path env p)) (srv_fs s) = Inr f \<and>
     checkAndUnlockThreadAwaitingData env p (s\<lparr>srv_fs := touch (metadata_path env p) f\<rparr>) = Inr s1 \<and>
     unlockThreadAwaitingCreation p s1 = Inr s')"
  by (auto simp: setCommitted_def getAndCreateMetadataPath_def Let_def res_simps)

text \<open>After it the token is there, its directories too, and asking changes nothing.\<close>

lemma setCommitted_token:
  assumes "setCommitted env p s = Inr s'"
  shows "fs_exists (srv_fs s') (metadata_path env p)" and "warm env (srv_fs s') p"
    and "srv_engine s' = srv_engine s" and "app_names (srv_clients s') = app_names (srv_clients s)"
    and "answers_grow (bufs_response (srv_clients s)) (bufs_response (srv_clients s'))"
    and "map_of (srv_fs s) q = Some n \<Longrightarrow> map_of (srv_fs s') q = Some n"
    and "files_to_be_committed_by_tid (srv_clients s') = files_to_be_committed_by_tid (srv_clients s)"
proof -
  from assms obtain f s1 where f: "create_directories (parent_path (metadata_path env p)) (srv_fs s) = Inr f"
    and s1: "checkAndUnlockThreadAwaitingData env p (s\<lparr>srv_fs := touch (metadata_path env p) f\<rparr>) = Inr s1"
    and s': "unlockThreadAwaitingCreation p s1 = Inr s'"
    by (auto simp: setCommitted_Inr)
  from same_but_answers_trans[OF same_checkAndUnlock[OF s1] same_unlockCreation[OF s']]
  have same: "same_but_answers (s\<lparr>srv_fs := touch (metadata_path env p) f\<rparr>) s'" .
  then have fs: "only_adds_dirs (touch (metadata_path env p) f) (srv_fs s')"
    by (simp add: same_but_answers_def)
  with touch_exists show "fs_exists (srv_fs s') (metadata_path env p)" by (rule only_adds_exists[rotated])
  have "warm env f p" using f by (simp add: warm_def create_directories_again)
  then show "warm env (srv_fs s') p"
    by (rule warm_mono) (intro only_adds_dirs_keeps[OF fs] touch_keeps)
  show "srv_engine s' = srv_engine s" "app_names (srv_clients s') = app_names (srv_clients s)"
    "answers_grow (bufs_response (srv_clients s)) (bufs_response (srv_clients s'))"
    "files_to_be_committed_by_tid (srv_clients s') = files_to_be_committed_by_tid (srv_clients s)"
    using same by (simp_all add: same_but_answers_def)
  show "map_of (srv_fs s') q = Some n" if "map_of (srv_fs s) q = Some n"
    using that by (intro only_adds_dirs_keeps[OF fs] touch_keeps
        only_adds_dirs_keeps[OF create_directories_only_adds[OF f]])
qed

lemma isCommitted_warm:
  assumes "warm env (srv_fs s) p" and "\<not> fs_is_directory (srv_fs s) p"
    and "getCommitRule (srv_engine s) p \<noteq> CAPIO_FILE_COMMITTED_ON_FILE" and "0 < stack_depth env"
  shows "isCommitted env p s = Inr (committed env (srv_engine s) (srv_fs s) p, s)"
proof -
  from assms(4) obtain d where d: "stack_depth env = Suc d" by (cases "stack_depth env") auto
  have "is_committed (Suc d) env (srv_engine s) p (srv_fs s) =
      Inr (committed env (srv_engine s) (srv_fs s) p, srv_fs s)"
    using assms(1-3) by (subst committed_iff) (auto simp: warm_metadata Let_def)
  then show ?thesis by (simp add: isCommitted_def d)
qed

lemma setCommitted_commits:
  assumes "setCommitted env p s = Inr s'" and "\<not> fs_is_directory (srv_fs s') p"
    and "getCommitRule (srv_engine s) p \<noteq> CAPIO_FILE_COMMITTED_ON_FILE"
    and "getCommitRule (srv_engine s) p = CAPIO_FILE_COMMITTED_ON_CLOSE \<Longrightarrow>
         getCommitCloseCount (srv_engine s) p = -1"
    and "0 < stack_depth env"
  shows "isCommitted env p s' = Inr (True, s')"
proof -
  note token = setCommitted_token(1-3)[OF assms(1)]
  have "committed env (srv_engine s') (srv_fs s') p"
    by (subst committed_iff) (use assms(2-4) token in auto)
  then show ?thesis
    using assms(2,3,5) token by (subst isCommitted_warm) simp_all
qed

subsection \<open>Counting closes\<close>

definition close_count :: "env \<Rightarrow> string \<Rightarrow> server \<Rightarrow> int" where
  "close_count env p s = read_long (srv_fs s) (metadata_path env p)"

text \<open>A state in which the token of a path can be rewritten: nobody holds its lock.\<close>

definition can_count :: "env \<Rightarrow> string \<Rightarrow> server \<Rightarrow> bool" where
  "can_count env p s \<longleftrightarrow> warm env (srv_fs s) p \<and>
     \<not> fs_exists (srv_fs s) (metadata_path env p @ ''.lock'') \<and>
     \<not> fs_is_directory (srv_fs s) (metadata_path env p)"

lemma read_written_count:
  assumes "0 \<le> n" and "n \<le> LONG_MAX"
  shows "read_long (write_text p (close_count_text n) f) p = n"
proof -
  have n: "n < 2 ^ 64" using assms(2) by (simp add: LONG_MAX_def)
  have "int (unat (word_of_int n :: u64)) = n"
    unfolding uint_nat[symmetric]
    using assms(1) n by (simp add: uint_word_of_int)
  moreover have "scan_int (close_count_text n) = Some (int (unat (word_of_int n :: u64)), [CHR '' '', CHR 0x0A])"
  proof -
    have "show_u64 w = show_int (int (unat w))" for w by (simp add: show_u64_def show_int_def)
    then show ?thesis
      by (simp add: close_count_text_def scan_int_space scan_int_show_int)
  qed
  ultimately show ?thesis using assms
    by (simp add: read_long_def write_text_def umap_simps LONG_MAX_def)
qed

lemma increaseCloseCount_step:
  assumes "can_count env p s" and "0 \<le> close_count env p s" and "close_count env p s < LONG_MAX"
  shows "\<exists>s'. increaseCloseCount env p s = Inr s' \<and> can_count env p s' \<and>
     close_count env p s' = close_count env p s + 1 \<and>
     fs_exists (srv_fs s') (metadata_path env p) \<and>
     (\<forall>q. q \<noteq> metadata_path env p \<longrightarrow> map_of (srv_fs s') q = map_of (srv_fs s) q) \<and>
     srv_engine s' = srv_engine s \<and> srv_clients s' = srv_clients s \<and> srv_fm s' = srv_fm s"
proof -
  let ?m = "metadata_path env p"
  let ?f = "write_text ?m (close_count_text (close_count env p s + 1)) (srv_fs s)"
  have step: "increaseCloseCount env p s = Inr (s\<lparr>srv_fs := ?f\<rparr>)"
    using assms(1) by (simp add: can_count_def increaseCloseCount_def warm_metadata close_count_def Let_def)
  have look: "map_of ?f q = (if q = ?m then Some (Reg (close_count_text (close_count env p s + 1)))
      else map_of (srv_fs s) q)" for q
    by (simp add: write_text_def umap_simps)
  have "warm env ?f p"
    using assms(1) by - (rule warm_mono[of env "srv_fs s"], auto simp: can_count_def look fs_is_directory_def)
  then have "can_count env p (s\<lparr>srv_fs := ?f\<rparr>)"
    using assms(1) by (simp add: can_count_def fs_exists_def fs_is_directory_def look)
  moreover have "close_count env p (s\<lparr>srv_fs := ?f\<rparr>) = close_count env p s + 1"
    using read_written_count[of "close_count env p s + 1"] assms(2,3) by (simp add: close_count_def)
  ultimately show ?thesis
    by (intro exI[of _ "s\<lparr>srv_fs := ?f\<rparr>"]) (simp add: step look fs_exists_def)
qed

fun count_closes :: "nat \<Rightarrow> env \<Rightarrow> string \<Rightarrow> server \<Rightarrow> server res" where
  "count_closes 0 env p s = Inr s"
| "count_closes (Suc n) env p s = rbind (increaseCloseCount env p s) (count_closes n env p)"

lemma count_closes_adds:
  "can_count env p s \<Longrightarrow> 0 \<le> close_count env p s \<Longrightarrow> close_count env p s + int n \<le> LONG_MAX \<Longrightarrow>
   \<exists>s'. count_closes n env p s = Inr s' \<and> can_count env p s' \<and>
     close_count env p s' = close_count env p s + int n \<and>
     (0 < n \<longrightarrow> fs_exists (srv_fs s') (metadata_path env p)) \<and>
     (\<forall>q. q \<noteq> metadata_path env p \<longrightarrow> map_of (srv_fs s') q = map_of (srv_fs s) q) \<and>
     srv_engine s' = srv_engine s"
proof (induction n arbitrary: s)
  case (Suc n)
  from increaseCloseCount_step[OF Suc.prems(1,2)] Suc.prems(3) obtain s1 where
    s1: "increaseCloseCount env p s = Inr s1" "can_count env p s1"
      "close_count env p s1 = close_count env p s + 1" "fs_exists (srv_fs s1) (metadata_path env p)"
      "\<forall>q. q \<noteq> metadata_path env p \<longrightarrow> map_of (srv_fs s1) q = map_of (srv_fs s) q"
      "srv_engine s1 = srv_engine s"
    by auto
  from Suc.IH[OF s1(2)] s1(3) Suc.prems(2,3) obtain s' where
    s': "count_closes n env p s1 = Inr s'" "can_count env p s'"
      "close_count env p s' = close_count env p s1 + int n"
      "0 < n \<longrightarrow> fs_exists (srv_fs s') (metadata_path env p)"
      "\<forall>q. q \<noteq> metadata_path env p \<longrightarrow> map_of (srv_fs s') q = map_of (srv_fs s1) q"
      "srv_engine s' = srv_engine s1"
    by auto
  from s1 s' have "fs_exists (srv_fs s') (metadata_path env p)" by (cases n) auto
  with s1 s' show ?case by (intro exI[of _ s']) simp
qed simp

lemma count_closes_commits:
  assumes "can_count env p s" and "close_count env p s = 0" and "0 < n" and "int n \<le> LONG_MAX"
    and "getCommitRule (srv_engine s) p = CAPIO_FILE_COMMITTED_ON_CLOSE"
    and "getCommitCloseCount (srv_engine s) p \<noteq> -1"
    and "\<not> fs_is_directory (srv_fs s) p" and "0 < stack_depth env"
  shows "\<exists>s'. count_closes n env p s = Inr s' \<and>
    isCommitted env p s' = Inr (getCommitCloseCount (srv_engine s) p \<le> int n, s')"
proof -
  from count_closes_adds[OF assms(1), of n] assms(2-4) obtain s' where
    s': "count_closes n env p s = Inr s'" "can_count env p s'" "close_count env p s' = int n"
      "fs_exists (srv_fs s') (metadata_path env p)"
      "\<forall>q. q \<noteq> metadata_path env p \<longrightarrow> map_of (srv_fs s') q = map_of (srv_fs s) q"
      "srv_engine s' = srv_engine s"
    by auto
  have "\<not> fs_is_directory (srv_fs s') p"
    using assms(7) s'(2,5) unfolding can_count_def fs_is_directory_def by metis
  then have "isCommitted env p s' = Inr (committed env (srv_engine s') (srv_fs s') p, s')"
    using s'(2,6) assms(5,8) by (intro isCommitted_warm) (auto simp: can_count_def)
  moreover have "committed env (srv_engine s') (srv_fs s') p \<longleftrightarrow> getCommitCloseCount (srv_engine s) p \<le> int n"
    using \<open>\<not> fs_is_directory (srv_fs s') p\<close> s'(3,4,6) assms(5,6)
    by (subst committed_iff) (auto simp: close_count_def)
  ultimately show ?thesis using s'(1) by simp
qed

subsection \<open>Properties\<close>

text \<open>A configuration for the examples: \<open>/d/f\<close> is committed once \<open>/d/g\<close> and \<open>/d/h\<close> are, \<open>/d/g\<close> after
  two closes, \<open>/d/h\<close> by a token alone; \<open>/d/c\<close> waits for itself.\<close>

definition sample_env :: env where
  "sample_env = \<lparr>capio_dir = ''/d'', capio_metadata_path = ''/m'', stack_depth = 8\<rparr>"

definition sample_engine :: engine where
  "sample_engine =
     [(''/d/f'', (new_entry CAPIO_FILE_COMMITTED_ON_FILE CAPIO_FILE_MODE_UPDATE)
        \<lparr>e_deps := [''/d/g'', ''/d/h'']\<rparr>),
      (''/d/g'', (new_entry CAPIO_FILE_COMMITTED_ON_CLOSE CAPIO_FILE_MODE_UPDATE)
        \<lparr>e_commit_on_close := 2\<rparr>),
      (''/d/e'', (new_entry CAPIO_FILE_COMMITTED_ON_FILE CAPIO_FILE_MODE_UPDATE)\<lparr>e_deps := [''/d/h'', ''/d/e'']\<rparr>)]"

definition sample_fs :: fs where
  "sample_fs = [(''/'', Dir), (''/d'', Dir), (''/m'', Dir), (''/m/d'', Dir), (''/d/f'', Reg ''xy''),
     (''/m/d/g.capio'', Reg '' 2 ''), (''/m/d/h.capio'', Reg '''')]"

definition sample_server :: server where
  "sample_server = \<lparr>srv_engine = sample_engine, srv_clients = client_manager_init,
     srv_fm = \<lparr>thread_awaiting_file_creation = [], thread_awaiting_data = []\<rparr>, srv_fs = sample_fs\<rparr>"

lemma sample_warm: "p \<in> {''/d/f'', ''/d/g'', ''/d/h'', ''/d/e''} \<Longrightarrow> warm sample_env sample_fs p"
proof -
  have "\<forall>p \<in> set [''/d/f'', ''/d/g'', ''/d/h'', ''/d/e''].
      create_directories (parent_path (metadata_path sample_env p)) sample_fs = Inr sample_fs"
    by code_simp
  then show "p \<in> {''/d/f'', ''/d/g'', ''/d/h'', ''/d/e''} \<Longrightarrow> warm sample_env sample_fs p"
    by (auto simp: warm_def)
qed

text \<open>C2: Where the dependencies of a path are well founded, asking whether it is committed needs no
  more depth of recursion than the rank of the path and gives exactly what the commit rules say (a
  directory with enough entries; a file whose dependencies are all committed; a token, with its
  count of closes where one is asked for), without changing a file system that has the directories
  of the tokens.\<close>

theorem commit_rules_computed:
  assumes "deps_below eng S rank" and "\<forall>p \<in> S. warm env f p" and "p \<in> S" and "rank p < d"
  shows "is_committed d env eng p f = Inr (committed env eng f p, f)"
  using assms by (rule is_committed_refines)

lemma commit_rules_computed_witness:
  "is_committed 2 sample_env sample_engine ''/d/f'' sample_fs =
     Inr (committed sample_env sample_engine sample_fs ''/d/f'', sample_fs) \<and>
   committed sample_env sample_engine sample_fs ''/d/f''"
proof -
  let ?S = "{''/d/f'', ''/d/g'', ''/d/h''}"
  let ?rank = "\<lambda>p :: string. if p = ''/d/f'' then 1 else (0 :: nat)"
  have "get_file_deps sample_engine ''/d/f'' = [''/d/g'', ''/d/h'']"
    "get_file_deps sample_engine ''/d/g'' = []" "get_file_deps sample_engine ''/d/h'' = []"
    by code_simp+
  then have below: "deps_below sample_engine ?S ?rank" by (auto simp: deps_below_def)
  have "\<forall>p \<in> ?S. warm sample_env sample_fs p" using sample_warm by auto
  with below have "is_committed 2 sample_env sample_engine ''/d/f'' sample_fs =
     Inr (committed sample_env sample_engine sample_fs ''/d/f'', sample_fs)"
    by (rule commit_rules_computed) simp_all
  moreover have "is_committed 2 sample_env sample_engine ''/d/f'' sample_fs = Inr (True, sample_fs)"
    by code_simp
  ultimately show ?thesis by simp
qed

text \<open>A dependency that is not committed and comes first ends the question before the cycle is followed.\<close>

lemma uncommitted_before_cycle:
  assumes "warm env f p" and "\<not> fs_is_directory f p" and "getCommitRule eng p = CAPIO_FILE_COMMITTED_ON_FILE"
    and "get_file_deps eng p = g # qs" and "is_committed d env eng g f = Inr (False, f)"
  shows "is_committed (Suc d) env eng p f = Inr (False, f)"
proof -
  have "deps_committed d env eng qs False f = Inr (False, f)" by (induction qs) simp_all
  with assms show ?thesis by (auto simp: warm_metadata)
qed

text \<open>C35: A cycle of \<open>on_file\<close> dependencies exhausts the stack, however deep it is. Where each member of the
  cycle depends on another one, and the dependencies it lists before that one are all found committed (so
  that the conjunction does not stop at them), no member of the cycle can be asked about, while by the rules
  none of them is ever committed.\<close>

theorem cyclic_deps_exhaust_stack:
  assumes "\<forall>p \<in> C. warm env f p \<and> \<not> fs_is_directory f p \<and>
      getCommitRule eng p = CAPIO_FILE_COMMITTED_ON_FILE \<and>
      (\<exists>pre q post. get_file_deps eng p = pre @ q # post \<and> q \<in> C \<and>
        (\<forall>r \<in> set pre. \<exists>d. is_committed d env eng r f = Inr (True, f)))"
    and "p \<in> C"
  shows "is_committed d env eng p f = Inl StackExhausted \<and> \<not> committed env eng f p"
proof -
  have "\<forall>p \<in> C. \<not> fs_is_directory f p \<and> getCommitRule eng p = CAPIO_FILE_COMMITTED_ON_FILE \<and>
      set (get_file_deps eng p) \<inter> C \<noteq> {}"
    using assms(1) by force
  then show ?thesis
    using is_committed_cycle[OF assms(1)[folded closes_cycle_def] assms(2)] committed_not_cycle assms(2) by blast
qed

text \<open>The file \<open>/d/e\<close> depends on \<open>/d/h\<close>, which is committed, and then on itself.\<close>

lemma cyclic_deps_exhaust_stack_witness:
  "is_committed 1000 sample_env sample_engine ''/d/e'' sample_fs = Inl StackExhausted \<and>
   \<not> committed sample_env sample_engine sample_fs ''/d/e''"
proof (rule cyclic_deps_exhaust_stack)
  have "get_file_deps sample_engine ''/d/e'' = [''/d/h''] @ ''/d/e'' # []"
    "getCommitRule sample_engine ''/d/e'' = CAPIO_FILE_COMMITTED_ON_FILE"
    "\<not> fs_is_directory sample_fs ''/d/e''"
    "is_committed 1 sample_env sample_engine ''/d/h'' sample_fs = Inr (True, sample_fs)"
    by code_simp+
  moreover have
    "\<exists>d. is_committed d sample_env sample_engine r sample_fs = Inr (True, sample_fs)" if "r \<in> set [''/d/h'']" for r
  proof -
    from that have "r = ''/d/h''" by simp
    with calculation(4) show ?thesis by blast
  qed
  ultimately have "\<exists>pre q post. get_file_deps sample_engine ''/d/e'' = pre @ q # post \<and> q \<in> {''/d/e''} \<and>
      (\<forall>r \<in> set pre. \<exists>d. is_committed d sample_env sample_engine r sample_fs = Inr (True, sample_fs))"
    by blast
  moreover have "warm sample_env sample_fs ''/d/e''" by (rule sample_warm) simp
  ultimately show "\<forall>p \<in> {''/d/e''}. warm sample_env sample_fs p \<and> \<not> fs_is_directory sample_fs p \<and>
      getCommitRule sample_engine p = CAPIO_FILE_COMMITTED_ON_FILE \<and>
      (\<exists>pre q post. get_file_deps sample_engine p = pre @ q # post \<and> q \<in> {''/d/e''} \<and>
        (\<forall>r \<in> set pre. \<exists>d. is_committed d sample_env sample_engine r sample_fs = Inr (True, sample_fs)))"
    using \<open>getCommitRule sample_engine ''/d/e'' = CAPIO_FILE_COMMITTED_ON_FILE\<close>
      \<open>\<not> fs_is_directory sample_fs ''/d/e''\<close> by (simp only: ball_simps simp_thms)
qed simp

text \<open>C19: A file with the rule \<open>on_close:k\<close> whose token is not there or counts nothing is committed after
  \<open>n > 0\<close> counted closes exactly when \<open>k \<le> n\<close>, and all \<open>n\<close> calls succeed: on one server that is alone with the
  token (its directory is there, nobody holds the lock file), and for counts that fit a \<open>long\<close>.\<close>

theorem commit_on_kth_close:
  assumes "can_count env p s" and "close_count env p s = 0" and "0 < n" and "int n \<le> LONG_MAX"
    and "getCommitRule (srv_engine s) p = CAPIO_FILE_COMMITTED_ON_CLOSE"
    and "getCommitCloseCount (srv_engine s) p \<noteq> -1"
    and "\<not> fs_is_directory (srv_fs s) p" and "0 < stack_depth env"
  shows "\<exists>s'. count_closes n env p s = Inr s' \<and>
    isCommitted env p s' = Inr (getCommitCloseCount (srv_engine s) p \<le> int n, s')"
  using assms by (rule count_closes_commits)

definition uncounted_server :: server where
  "uncounted_server = sample_server\<lparr>srv_fs := unlink_file ''/m/d/g.capio'' sample_fs\<rparr>"

lemma uncounted_ready:
  "can_count sample_env ''/d/g'' uncounted_server \<and> close_count sample_env ''/d/g'' uncounted_server = 0 \<and>
   getCommitRule (srv_engine uncounted_server) ''/d/g'' = CAPIO_FILE_COMMITTED_ON_CLOSE \<and>
   getCommitCloseCount (srv_engine uncounted_server) ''/d/g'' = 2 \<and>
   \<not> fs_is_directory (srv_fs uncounted_server) ''/d/g''"
proof -
  have "create_directories (parent_path (metadata_path sample_env ''/d/g'')) (srv_fs uncounted_server) =
      Inr (srv_fs uncounted_server)"
    by code_simp
  moreover have "\<not> fs_exists (srv_fs uncounted_server) (metadata_path sample_env ''/d/g'' @ ''.lock'')"
    "\<not> fs_is_directory (srv_fs uncounted_server) (metadata_path sample_env ''/d/g'')"
    "close_count sample_env ''/d/g'' uncounted_server = 0"
    "getCommitRule (srv_engine uncounted_server) ''/d/g'' = CAPIO_FILE_COMMITTED_ON_CLOSE"
    "getCommitCloseCount (srv_engine uncounted_server) ''/d/g'' = 2"
    "\<not> fs_is_directory (srv_fs uncounted_server) ''/d/g''"
    by code_simp+
  ultimately show ?thesis by (simp add: can_count_def warm_def)
qed

lemma commit_on_kth_close_witness:
  "(\<exists>s'. count_closes 1 sample_env ''/d/g'' uncounted_server = Inr s' \<and>
      isCommitted sample_env ''/d/g'' s' = Inr (False, s')) \<and>
   (\<exists>s'. count_closes 2 sample_env ''/d/g'' uncounted_server = Inr s' \<and>
      isCommitted sample_env ''/d/g'' s' = Inr (True, s'))"
proof -
  note r = uncounted_ready
  have d: "0 < stack_depth sample_env" by (simp add: sample_env_def)
  show ?thesis
    using commit_on_kth_close[of sample_env "''/d/g''" uncounted_server 1]
      commit_on_kth_close[of sample_env "''/d/g''" uncounted_server 2] r d
    by (simp add: LONG_MAX_def)
qed

text \<open>Once \<open>setCommitted\<close> has returned, the file is committed, for every rule that does not look at
  other files or at a count of closes; nothing that was in the file system has changed.\<close>

theorem set_committed_commits:
  assumes "setCommitted env p s = Inr s'" and "\<not> fs_is_directory (srv_fs s') p"
    and "getCommitRule (srv_engine s) p \<noteq> CAPIO_FILE_COMMITTED_ON_FILE"
    and "getCommitRule (srv_engine s) p = CAPIO_FILE_COMMITTED_ON_CLOSE \<longrightarrow>
         getCommitCloseCount (srv_engine s) p = -1"
    and "0 < stack_depth env"
  shows "isCommitted env p s' = Inr (True, s') \<and>
    (\<forall>q n. map_of (srv_fs s) q = Some n \<longrightarrow> map_of (srv_fs s') q = Some n)"
  using setCommitted_commits[OF assms(1-3)] assms(4,5) setCommitted_token(6)[OF assms(1)] by blast

lemma set_committed_commits_witness:
  "\<exists>s'. setCommitted sample_env ''/d/n'' sample_server = Inr s' \<and>
     isCommitted sample_env ''/d/n'' s' = Inr (True, s')"
proof -
  have "case setCommitted sample_env ''/d/n'' sample_server of Inl _ \<Rightarrow> False
      | Inr s' \<Rightarrow> \<not> fs_is_directory (srv_fs s') ''/d/n''"
    by code_simp
  then obtain s' where s': "setCommitted sample_env ''/d/n'' sample_server = Inr s'"
      "\<not> fs_is_directory (srv_fs s') ''/d/n''"
    by (auto split: sum.splits)
  have "getCommitRule (srv_engine sample_server) ''/d/n'' = CAPIO_FILE_COMMITTED_ON_TERMINATION"
    by code_simp
  then have "isCommitted sample_env ''/d/n'' s' = Inr (True, s') \<and>
    (\<forall>q n. map_of (srv_fs sample_server) q = Some n \<longrightarrow> map_of (srv_fs s') q = Some n)"
    by (intro set_committed_commits[OF s']) (simp_all add: sample_env_def)
  with s'(1) show ?thesis by blast
qed

text \<open>Asking never changes or removes a file: whatever \<open>isCommitted\<close> finds, an entry of the file
  system is the same afterwards, and what is new is a directory.\<close>

theorem asking_only_adds_directories:
  assumes "isCommitted env p s = Inr (b, s')"
  shows "\<forall>q. map_of (srv_fs s') q = map_of (srv_fs s) q \<or>
    map_of (srv_fs s) q = None \<and> map_of (srv_fs s') q = Some Dir"
proof -
  from assms obtain f where "s' = s\<lparr>srv_fs := f\<rparr>"
    "is_committed (stack_depth env) env (srv_engine s) p (srv_fs s) = Inr (b, f)"
    by (auto simp: isCommitted_Inr)
  with is_committed_only_adds(1)[OF this(2)] show ?thesis by (simp add: only_adds_dirs_def)
qed

lemma asking_only_adds_directories_witness:
  "\<exists>b s'. isCommitted sample_env ''/d/x/y'' sample_server = Inr (b, s') \<and>
    (\<forall>q. map_of (srv_fs s') q = map_of sample_fs q \<or> map_of sample_fs q = None \<and> map_of (srv_fs s') q = Some Dir)"
proof -
  have "case isCommitted sample_env ''/d/x/y'' sample_server of Inl _ \<Rightarrow> False | Inr _ \<Rightarrow> True"
    by code_simp
  then obtain b s' where "isCommitted sample_env ''/d/x/y'' sample_server = Inr (b, s')"
    by (auto split: sum.splits)
  with asking_only_adds_directories[OF this] show ?thesis by (auto simp: sample_server_def)
qed

text \<open>The directory that is made for the token of a path below \<open>x.capio\<close> is the token of \<open>x\<close>: a
  question about one file can commit another.\<close>

theorem token_directory_collision:
  "\<exists>b f'. is_committed 8 sample_env sample_engine ''/d/x'' sample_fs = Inr (False, sample_fs) \<and>
     is_committed 8 sample_env sample_engine ''/d/x.capio/y'' sample_fs = Inr (b, f') \<and>
     is_committed 8 sample_env sample_engine ''/d/x'' f' = Inr (True, f')"
proof -
  have 1: "is_committed 8 sample_env sample_engine ''/d/x'' sample_fs = Inr (False, sample_fs)"
    by code_simp
  have "case is_committed 8 sample_env sample_engine ''/d/x.capio/y'' sample_fs of Inl _ \<Rightarrow> False
      | Inr (b, f') \<Rightarrow> is_committed 8 sample_env sample_engine ''/d/x'' f' = Inr (True, f')"
    by code_simp
  with 1 show ?thesis by (auto split: sum.splits)
qed

end
