(* ===== verification/DistSem.thy ===== *)
theory DistSem
  imports Committing
begin

text \<open>
  \<open>DistributedSemaphore\<close> of \<open>src/server/utils/distributed_semaphore.hpp\<close> and the section of
  \<open>increaseCloseCount\<close> it guards, for any number of servers that share a file system: a lock file
  created with \<open>O_EXCL\<close>, spun on, and unlinked. \<open>FileManager.increaseCloseCount\<close> is this protocol
  run by one server at a time; here its system calls interleave with those of the other servers.
\<close>

text \<open>Where a server is in \<open>increaseCloseCount\<close>; a number is the value of \<open>close_count\<close>.\<close>

datatype pc =
    Idle
  | Spinning          \<comment> \<open>in the loop of \<open>lock\<close>, \<open>fp == -1\<close>\<close>
  | Opened            \<comment> \<open>the lock file is created, its holder not yet written\<close>
  | Holding
  | Counted int       \<comment> \<open>\<open>close_count\<close> read and incremented\<close>
  | Emptied int       \<comment> \<open>the token is opened for writing and so truncated\<close>
  | Stored

record world =
  w_fs :: fs
  w_pc :: "nat \<Rightarrow> pc"
  w_done :: nat       \<comment> \<open>ghost: closes counted so far\<close>

definition goto :: "nat \<Rightarrow> pc \<Rightarrow> fs \<Rightarrow> world \<Rightarrow> world" where
  "goto i c f w = w\<lparr>w_fs := f, w_pc := (w_pc w)(i := c)\<rparr>"

definition lock_name :: "string \<Rightarrow> string" where
  "lock_name token = token @ ''.lock''"

inductive lock_step :: "string \<Rightarrow> (nat \<Rightarrow> string) \<Rightarrow> world \<Rightarrow> world \<Rightarrow> bool"
  for token :: string and node_name :: "nat \<Rightarrow> string" where
  enter: "w_pc w i = Idle \<Longrightarrow> lock_step token node_name w (goto i Spinning (w_fs w) w)"
| spin: "w_pc w i = Spinning \<Longrightarrow> fs_exists (w_fs w) (lock_name token) \<Longrightarrow> lock_step token node_name w w"
| acquire: "w_pc w i = Spinning \<Longrightarrow> \<not> fs_exists (w_fs w) (lock_name token) \<Longrightarrow>
     lock_step token node_name w (goto i Opened (touch (lock_name token) (w_fs w)) w)"
| sign: "w_pc w i = Opened \<Longrightarrow>
     lock_step token node_name w
       (goto i Holding (write_text (lock_name token) (node_name i) (w_fs w)) w)"
| count: "w_pc w i = Holding \<Longrightarrow>
     lock_step token node_name w (goto i (Counted (read_long (w_fs w) token + 1)) (w_fs w) w)"
| truncate: "w_pc w i = Counted n \<Longrightarrow>
     lock_step token node_name w (goto i (Emptied n) (write_text token [] (w_fs w)) w)"
| store: "w_pc w i = Emptied n \<Longrightarrow>
     lock_step token node_name w
       ((goto i Stored (write_text token (close_count_text n) (w_fs w)) w)\<lparr>w_done := Suc (w_done w)\<rparr>)"
| release: "w_pc w i = Stored \<Longrightarrow>
     lock_step token node_name w (goto i Idle (unlink_file (lock_name token) (w_fs w)) w)"

inductive lock_runs :: "string \<Rightarrow> (nat \<Rightarrow> string) \<Rightarrow> fs \<Rightarrow> world \<Rightarrow> bool"
  for token :: string and node_name :: "nat \<Rightarrow> string" and f :: fs where
  init: "lock_runs token node_name f \<lparr>w_fs = f, w_pc = \<lambda>_. Idle, w_done = 0\<rparr>"
| run: "lock_runs token node_name f w \<Longrightarrow> lock_step token node_name w w' \<Longrightarrow>
     lock_runs token node_name f w'"

definition inside :: "pc \<Rightarrow> bool" where
  "inside c \<longleftrightarrow> c \<notin> {Idle, Spinning}"

lemma inside_simps [simp]:
  "\<not> inside Idle" "\<not> inside Spinning" "inside Opened" "inside Holding" "inside (Counted n)"
  "inside (Emptied n)" "inside Stored"
  by (simp_all add: inside_def)

subsection \<open>Mutual exclusion\<close>

definition exclusive :: "string \<Rightarrow> world \<Rightarrow> bool" where
  "exclusive token w \<longleftrightarrow> (\<forall>i j. inside (w_pc w i) \<and> inside (w_pc w j) \<longrightarrow> i = j) \<and>
     (fs_exists (w_fs w) (lock_name token) \<longleftrightarrow> (\<exists>i. inside (w_pc w i)))"

lemma lock_name_neq [simp]: "lock_name token \<noteq> token" "token \<noteq> lock_name token"
  by (simp_all add: lock_name_def)

lemma fs_exists_simps [simp]:
  "fs_exists (touch p f) q \<longleftrightarrow> q = p \<or> fs_exists f q"
  "fs_exists (write_text p c f) q \<longleftrightarrow> q = p \<or> fs_exists f q"
  "fs_exists (unlink_file p f) q \<longleftrightarrow> q \<noteq> p \<and> fs_exists f q"
  by (auto simp: fs_exists_def touch_def write_text_def unlink_file_def umap_simps)

lemma goto_simps [simp]:
  "w_fs (goto i c f w) = f" "w_pc (goto i c f w) = (w_pc w)(i := c)" "w_done (goto i c f w) = w_done w"
  by (simp_all add: goto_def)

lemma exclusive_done [simp]: "exclusive token (w\<lparr>w_done := n\<rparr>) = exclusive token w"
  by (simp add: exclusive_def)

lemma exclusive_alone:
  "exclusive token w \<Longrightarrow> inside (w_pc w i) \<Longrightarrow> j \<noteq> i \<Longrightarrow>
     w_pc w j \<noteq> Counted n \<and> w_pc w j \<noteq> Emptied n"
  unfolding exclusive_def by (metis inside_simps(5,6))

lemma exclusive_goto:
  assumes "exclusive token w" and "inside (w_pc w i)" and "inside c"
    and "fs_exists f (lock_name token)"
  shows "exclusive token (goto i c f w)"
  using assms by (auto simp: exclusive_def split: if_splits)

lemma inside_locked: "exclusive token w \<Longrightarrow> inside (w_pc w i) \<Longrightarrow> fs_exists (w_fs w) (lock_name token)"
  by (auto simp: exclusive_def)

lemma exclusive_step:
  assumes "lock_step token node_name w w'" and "exclusive token w"
  shows "exclusive token w'"
  using assms
proof (induction rule: lock_step.induct)
  case (enter w i)
  then have "inside (w_pc (goto i Spinning (w_fs w) w) j) = inside (w_pc w j)" for j by simp
  with enter show ?case by (simp add: exclusive_def)
next
  case (acquire w i)
  then have "\<not> inside (w_pc w j)" for j by (auto simp: exclusive_def)
  then show ?case by (auto simp: exclusive_def)
next
  case (sign w i)
  then show ?case by (intro exclusive_goto) simp_all
next
  case (count w i)
  then have "fs_exists (w_fs w) (lock_name token)" using inside_locked[of token w i] by simp
  with count show ?case by (intro exclusive_goto) simp_all
next
  case (truncate w i n)
  then have "fs_exists (w_fs w) (lock_name token)" using inside_locked[of token w i] by simp
  with truncate show ?case by (intro exclusive_goto) simp_all
next
  case (store w i n)
  then have "fs_exists (w_fs w) (lock_name token)" using inside_locked[of token w i] by simp
  then have "exclusive token (goto i Stored (write_text token (close_count_text n) (w_fs w)) w)"
    using store(1) by (intro exclusive_goto[OF store(2)]) simp_all
  then show ?case by simp
next
  case (release w i)
  then have "inside (w_pc w j) \<longrightarrow> j = i" for j by (auto simp: exclusive_def)
  then show ?case by (auto simp: exclusive_def)
qed

lemma lock_runs_exclusive:
  assumes "lock_runs token node_name f w" and "\<not> fs_exists f (lock_name token)"
  shows "exclusive token w"
  using assms(1)
  by induction (use assms(2) in \<open>auto simp: exclusive_def[of _ "\<lparr>w_fs = f, w_pc = _, w_done = _\<rparr>"] intro: exclusive_step\<close>)

subsection \<open>No close is lost\<close>

text \<open>
  The count in the token, for the server inside the section and for everybody else when there is
  none, as long as it does not overflow a \<open>long\<close>.
\<close>

definition count_ok :: "string \<Rightarrow> int \<Rightarrow> world \<Rightarrow> bool" where
  "count_ok token base w \<longleftrightarrow>
     (\<forall>i n. w_pc w i = Counted n \<or> w_pc w i = Emptied n \<longrightarrow> n = base + int (w_done w) + 1) \<and>
     ((\<forall>i n. w_pc w i \<noteq> Emptied n) \<longrightarrow> read_long (w_fs w) token = base + int (w_done w))"

lemma read_long_other [simp]:
  "q \<noteq> p \<Longrightarrow> read_long (touch p f) q = read_long f q"
  "q \<noteq> p \<Longrightarrow> read_long (write_text p c f) q = read_long f q"
  "q \<noteq> p \<Longrightarrow> read_long (unlink_file p f) q = read_long f q"
  by (simp_all add: read_long_def touch_def write_text_def unlink_file_def umap_simps)

lemma count_ok_goto:
  "count_ok token base w \<Longrightarrow> (\<And>n. c \<noteq> Counted n \<and> c \<noteq> Emptied n) \<Longrightarrow> (\<And>n. w_pc w i \<noteq> Emptied n) \<Longrightarrow>
     read_long f token = read_long (w_fs w) token \<Longrightarrow> count_ok token base (goto i c f w)"
  unfolding count_ok_def by (simp; metis)

lemma count_ok_step:
  assumes "lock_step token node_name w w'" and "exclusive token w" and "count_ok token base w"
    and "0 \<le> base" and "base + int (w_done w') \<le> LONG_MAX"
  shows "count_ok token base w'"
  using assms
proof (induction rule: lock_step.induct)
  case (count w i)
  then have none: "w_pc w j \<noteq> Counted n \<and> w_pc w j \<noteq> Emptied n" for j n
    using exclusive_alone[OF count(2), of i j n] by (cases "j = i") simp_all
  with count(3) have "read_long (w_fs w) token = base + int (w_done w)" by (simp add: count_ok_def)
  with none show ?case by (auto simp: count_ok_def)
next
  case (truncate w i n)
  then have none: "j \<noteq> i \<Longrightarrow> w_pc w j \<noteq> Counted m \<and> w_pc w j \<noteq> Emptied m" for j m
    using exclusive_alone[OF truncate(2), of i j m] by simp
  from truncate have "n = base + int (w_done w) + 1" by (auto simp: count_ok_def)
  with none show ?case by (auto simp: count_ok_def)
next
  case (store w i n)
  then have none: "j \<noteq> i \<Longrightarrow> w_pc w j \<noteq> Counted m \<and> w_pc w j \<noteq> Emptied m" for j m
    using exclusive_alone[OF store(2), of i j m] by simp
  from store have n: "n = base + int (w_done w) + 1" by (auto simp: count_ok_def)
  moreover have "read_long (write_text token (close_count_text n) (w_fs w)) token = n"
    using n store by (intro read_written_count) simp_all
  ultimately show ?case using none by (auto simp: count_ok_def)
qed (auto intro!: count_ok_goto)

lemma done_mono: "lock_step token node_name w w' \<Longrightarrow> w_done w \<le> w_done w'"
  by (induction rule: lock_step.induct) simp_all

lemma lock_runs_count:
  assumes "lock_runs token node_name f w" and "\<not> fs_exists f (lock_name token)"
    and "read_long f token = base" and "0 \<le> base"
  shows "base + int (w_done w) \<le> LONG_MAX \<Longrightarrow> count_ok token base w"
  using assms(1)
proof induction
  case init
  then show ?case using assms(3) by (simp add: count_ok_def)
next
  case (run w w')
  have "count_ok token base w" using run done_mono[OF run.hyps(2)] by simp
  with run show ?case
    using count_ok_step[OF run.hyps(2) lock_runs_exclusive[OF run.hyps(1) assms(2)]] assms(4) by simp
qed

lemma no_lost_close:
  assumes "lock_runs token node_name f w" and "\<not> fs_exists f (lock_name token)"
    and "0 \<le> read_long f token" and "read_long f token + int (w_done w) \<le> LONG_MAX"
    and "\<forall>i. \<not> inside (w_pc w i)"
  shows "read_long (w_fs w) token = read_long f token + int (w_done w)"
proof -
  have "w_pc w i \<noteq> Emptied n" for i n using assms(5) inside_simps(6) by metis
  with lock_runs_count[OF assms(1,2) refl assms(3,4)] show ?thesis by (simp add: count_ok_def)
qed

subsection \<open>A lock file nobody removes\<close>

text \<open>The lock file of a server that died in the section is never removed: everybody else spins.\<close>

lemma stale_lock_blocks:
  assumes "lock_runs token node_name f w" and "fs_exists f (lock_name token)"
  shows "fs_exists (w_fs w) (lock_name token) \<and> (\<forall>i. \<not> inside (w_pc w i)) \<and> w_done w = 0"
  using assms(1)
proof induction
  case init
  then show ?case using assms(2) by simp
next
  case (run w w')
  from run.IH have "\<not> inside (w_pc w i)" for i by blast
  then have "w_pc w i \<noteq> Opened" "w_pc w i \<noteq> Holding" "w_pc w i \<noteq> Counted n" "w_pc w i \<noteq> Emptied n"
    "w_pc w i \<noteq> Stored" for i n
    by (metis inside_simps(3-7))+
  with run.hyps(2) run.IH show ?case by (cases rule: lock_step.cases) auto
qed

subsection \<open>Properties\<close>

text \<open>One server alone in the section does what \<open>increaseCloseCount\<close> says in one step.\<close>

lemma solo_run:
  assumes "lock_runs token node_name f w" and "w_pc w i = Idle"
    and "\<not> fs_exists (w_fs w) (lock_name token)"
  shows "\<exists>w'. lock_runs token node_name f w' \<and> w_pc w' = w_pc w \<and> w_done w' = Suc (w_done w) \<and>
    (\<forall>q. map_of (w_fs w') q =
      (if q = token then Some (Reg (close_count_text (read_long (w_fs w) token + 1)))
       else map_of (w_fs w) q))"
proof -
  let ?n = "read_long (w_fs w) token + 1" and ?l = "lock_name token"
  let ?f1 = "touch ?l (w_fs w)"
  let ?f2 = "write_text ?l (node_name i) ?f1"
  let ?f3 = "write_text token [] ?f2"
  let ?f4 = "write_text token (close_count_text ?n) ?f3"
  let ?f5 = "unlink_file ?l ?f4"
  define w1 where "w1 = goto i Spinning (w_fs w) w"
  define w2 where "w2 = goto i Opened ?f1 w1"
  define w3 where "w3 = goto i Holding ?f2 w2"
  define w4 where "w4 = goto i (Counted ?n) ?f2 w3"
  define w5 where "w5 = goto i (Emptied ?n) ?f3 w4"
  define w6 where "w6 = (goto i Stored ?f4 w5)\<lparr>w_done := Suc (w_done w5)\<rparr>"
  define w7 where "w7 = goto i Idle ?f5 w6"
  note d = w1_def w2_def w3_def w4_def w5_def w6_def w7_def
  have n: "read_long ?f2 token + 1 = ?n" by simp
  have "lock_runs token node_name f w1" unfolding w1_def
    by (rule lock_runs.run[OF assms(1)], rule lock_step.enter) (rule assms(2))
  then have "lock_runs token node_name f w2" unfolding w2_def
    by (rule lock_runs.run) (use lock_step.acquire[of w1 i token node_name] assms(3) in \<open>simp add: w1_def\<close>)
  then have "lock_runs token node_name f w3" unfolding w3_def
    by (rule lock_runs.run) (use lock_step.sign[of w2 i token node_name] in \<open>simp add: w2_def\<close>)
  then have "lock_runs token node_name f w4" unfolding w4_def
    by (rule lock_runs.run) (use lock_step.count[of w3 i token node_name] n in \<open>simp add: w3_def\<close>)
  then have "lock_runs token node_name f w5" unfolding w5_def
    by (rule lock_runs.run) (use lock_step.truncate[of w4 i ?n token node_name] in \<open>simp add: w4_def\<close>)
  then have "lock_runs token node_name f w6" unfolding w6_def
    by (rule lock_runs.run) (use lock_step.store[of w5 i ?n token node_name] in \<open>simp add: w5_def\<close>)
  then have "lock_runs token node_name f w7" unfolding w7_def
    by (rule lock_runs.run) (use lock_step.release[of w6 i token node_name] in \<open>simp add: w6_def\<close>)
  moreover have "w_pc w7 = w_pc w" using assms(2) by (simp add: d fun_eq_iff)
  moreover have "w_done w7 = Suc (w_done w)" by (simp add: d)
  moreover have "map_of (w_fs w7) q =
      (if q = token then Some (Reg (close_count_text ?n)) else map_of (w_fs w) q)" for q
    using assms(3)
    by (auto simp: d unlink_file_def write_text_def touch_def umap_simps fs_exists_def)
  ultimately show ?thesis by blast
qed

lemma solo_run_start:
  assumes "\<not> fs_exists f (lock_name token)"
  shows "\<exists>w. lock_runs token node_name f w \<and> w_pc w = (\<lambda>_. Idle) \<and> w_done w = 1 \<and>
    (\<forall>q. map_of (w_fs w) q =
      (if q = token then Some (Reg (close_count_text (read_long f token + 1))) else map_of f q))"
  using solo_run[OF lock_runs.init, where f = f and i = 0 and token = token and node_name = node_name] assms
  by (simp cong: if_cong)

text \<open>C17: However the system calls of any number of servers interleave, at most one of them is between
  creating the lock file and removing it, and the lock file exists exactly while one is.\<close>

theorem lock_file_excludes:
  assumes "lock_runs token node_name f w" and "\<not> fs_exists f (lock_name token)"
  shows "(inside (w_pc w i) \<and> inside (w_pc w j) \<longrightarrow> i = j) \<and>
    (fs_exists (w_fs w) (lock_name token) \<longleftrightarrow> (\<exists>i. inside (w_pc w i)))"
  using lock_runs_exclusive[OF assms] by (auto simp: exclusive_def)

definition two_spinning :: world where
  "two_spinning = goto 2 Spinning [] (goto 1 Spinning [] \<lparr>w_fs = [], w_pc = \<lambda>_. Idle, w_done = 0\<rparr>)"

lemma two_spinning_runs: "lock_runs ''t'' node_name [] two_spinning"
proof -
  let ?w = "\<lparr>w_fs = [], w_pc = \<lambda>_. Idle, w_done = 0\<rparr>"
  have "lock_runs ''t'' node_name [] (goto 1 Spinning [] ?w)"
    by (rule lock_runs.run[OF lock_runs.init]) (use lock_step.enter[of ?w 1] in simp)
  then show ?thesis unfolding two_spinning_def
    by (rule lock_runs.run) (use lock_step.enter[of "goto 1 Spinning [] ?w" 2] in simp)
qed

lemma lock_file_excludes_witness:
  "\<exists>w. lock_runs ''t'' (\<lambda>_. []) [] w \<and> inside (w_pc w 1) \<and> w_pc w 2 = Spinning \<and>
     (\<forall>j. inside (w_pc w j) \<longrightarrow> j = 1)"
proof -
  let ?w = "goto 1 Opened (touch (lock_name ''t'') []) two_spinning"
  have "lock_step ''t'' (\<lambda>_. []) two_spinning ?w"
    using lock_step.acquire[of two_spinning 1 "''t''"] by (simp add: two_spinning_def fs_exists_def)
  then have r: "lock_runs ''t'' (\<lambda>_. []) [] ?w" by (rule lock_runs.run[OF two_spinning_runs])
  moreover have "\<not> fs_exists [] (lock_name ''t'')" by (simp add: fs_exists_def)
  moreover have "inside (w_pc ?w 1)" "w_pc ?w 2 = Spinning" by (simp_all add: two_spinning_def)
  ultimately show ?thesis using lock_file_excludes[OF r] by blast
qed

text \<open>C16: No close is lost: whenever nobody is in the section, the count in the token is the count at the
  start plus the number of closes counted by all servers together.\<close>

theorem no_close_lost:
  assumes "lock_runs token node_name f w" and "\<not> fs_exists f (lock_name token)"
    and "0 \<le> read_long f token" and "read_long f token + int (w_done w) \<le> LONG_MAX"
    and "\<forall>i. \<not> inside (w_pc w i)"
  shows "read_long (w_fs w) token = read_long f token + int (w_done w)"
  using assms by (rule no_lost_close)

lemma no_close_lost_witness:
  "\<exists>w. lock_runs ''t'' (\<lambda>_. []) [] w \<and> w_done w = 2 \<and> read_long (w_fs w) ''t'' = 2"
proof -
  have n: "\<not> fs_exists [] (lock_name ''t'')" by (simp add: fs_exists_def)
  from solo_run_start[OF n, of "\<lambda>_. []"] obtain w1 where
    w1: "lock_runs ''t'' (\<lambda>_. []) [] w1" "w_pc w1 = (\<lambda>_. Idle)" "w_done w1 = 1"
      "\<forall>q. q \<noteq> ''t'' \<longrightarrow> map_of (w_fs w1) q = None"
    by auto
  have "lock_name ''t'' \<noteq> ''t''" by (simp add: lock_name_def)
  with w1(4) have "\<not> fs_exists (w_fs w1) (lock_name ''t'')" by (simp add: fs_exists_def)
  from solo_run[OF w1(1) _ this, of 2] w1(2,3) obtain w2 where
    w2: "lock_runs ''t'' (\<lambda>_. []) [] w2" "w_pc w2 = (\<lambda>_. Idle)" "w_done w2 = 2" by auto
  have "read_long [] ''t'' = 0" by (simp add: read_long_def)
  with no_close_lost[OF w2(1) n] w2 show ?thesis by (auto simp: LONG_MAX_def)
qed

text \<open>A lock file left behind by a server that died is never removed: no server enters the section
  again, and no close is counted any more.\<close>

theorem stale_lock_file_blocks:
  assumes "lock_runs token node_name f w" and "fs_exists f (lock_name token)"
  shows "\<not> inside (w_pc w i) \<and> w_done w = 0 \<and> fs_exists (w_fs w) (lock_name token)"
  using stale_lock_blocks[OF assms] by blast

lemma stale_lock_file_blocks_witness:
  "\<exists>w. lock_runs ''t'' (\<lambda>_. []) [(''t.lock'', Reg [])] w \<and> w_pc w 1 = Spinning \<and> \<not> inside (w_pc w 1) \<and>
     w_done w = 0"
proof -
  let ?f = "[(''t.lock'', Reg [])]"
  let ?w = "\<lparr>w_fs = ?f, w_pc = \<lambda>_. Idle, w_done = 0\<rparr>"
  have r: "lock_runs ''t'' (\<lambda>_. []) ?f (goto 1 Spinning ?f ?w)"
    by (rule lock_runs.run[OF lock_runs.init]) (use lock_step.enter[of ?w 1] in simp)
  moreover have "fs_exists ?f (lock_name ''t'')" by (simp add: fs_exists_def lock_name_def)
  ultimately have "\<not> inside (w_pc (goto 1 Spinning ?f ?w) 1) \<and> w_done (goto 1 Spinning ?f ?w) = 0 \<and>
      fs_exists (w_fs (goto 1 Spinning ?f ?w)) (lock_name ''t'')"
    by (rule stale_lock_file_blocks)
  with r show ?thesis by (intro exI[of _ "goto 1 Spinning ?f ?w"]) simp
qed

text \<open>A server that runs the protocol without another in between leaves the file system as
  \<open>increaseCloseCount\<close> does in one step: the token rewritten with the next count, the lock file
  gone, nothing else touched.\<close>

theorem increase_is_solo_run:
  assumes "can_count env p s" and "increaseCloseCount env p s = Inr s'"
  shows "\<exists>w. lock_runs (metadata_path env p) node_name (srv_fs s) w \<and> w_done w = 1 \<and>
    (\<forall>i. \<not> inside (w_pc w i)) \<and> (\<forall>q. map_of (w_fs w) q = map_of (srv_fs s') q)"
proof -
  let ?m = "metadata_path env p"
  have c: "getAndCreateMetadataPath env p (srv_fs s) = Inr (?m, srv_fs s)"
    "\<not> fs_exists (srv_fs s) (?m @ ''.lock'')"
    using assms(1) by (simp_all add: can_count_def warm_metadata)
  with assms have s': "s' = s\<lparr>srv_fs := write_text ?m (close_count_text (read_long (srv_fs s) ?m + 1)) (srv_fs s)\<rparr>"
    by (auto simp: increaseCloseCount_def can_count_def Let_def)
  from c(2) have "\<not> fs_exists (srv_fs s) (lock_name ?m)" by (simp add: lock_name_def)
  from solo_run_start[OF this, of node_name] obtain w where
    w: "lock_runs ?m node_name (srv_fs s) w" "w_pc w = (\<lambda>_. Idle)" "w_done w = 1"
      "\<forall>q. map_of (w_fs w) q = (if q = ?m then Some (Reg (close_count_text (read_long (srv_fs s) ?m + 1)))
         else map_of (srv_fs s) q)"
    by auto
  then show ?thesis by (intro exI[of _ w]) (simp add: s' write_text_def umap_simps)
qed

lemma increase_is_solo_run_witness:
  "\<exists>s' w. increaseCloseCount sample_env ''/d/g'' uncounted_server = Inr s' \<and>
    lock_runs (metadata_path sample_env ''/d/g'') (\<lambda>_. ''node'') (srv_fs uncounted_server) w \<and> w_done w = 1 \<and>
    (\<forall>q. map_of (w_fs w) q = map_of (srv_fs s') q)"
proof -
  have "case increaseCloseCount sample_env ''/d/g'' uncounted_server of Inl _ \<Rightarrow> False | Inr _ \<Rightarrow> True"
    by code_simp
  then obtain s' where s': "increaseCloseCount sample_env ''/d/g'' uncounted_server = Inr s'"
    by (auto split: sum.splits)
  with increase_is_solo_run[OF _ s', of "\<lambda>_. ''node''"] uncounted_ready show ?thesis by blast
qed

end
