(* ===== verification/Fifo.thy ===== *)
theory Fifo
  imports CapioPrelude
begin

text \<open>
  The contract of a bounded first-in first-out queue as the two sides of CAPIO use the shared
  memory queues: \<open>put\<close> blocks (\<open>None\<close>) exactly on a full queue, \<open>get\<close> exactly on an empty one,
  and what is got is what was put, in that order. The locale's lemmas are about every sequence of
  operations on such a queue; \<open>RingQueue\<close> interprets it on the ring buffer of
  \<open>src/common/capio/queue.hpp\<close>.
\<close>

datatype 'e queue_op = Put 'e | Get

fun puts_of :: "'e queue_op list \<Rightarrow> 'e list" where
  "puts_of [] = []"
| "puts_of (Put e # ops) = e # puts_of ops"
| "puts_of (Get # ops) = puts_of ops"

text \<open>Running operations until one blocks; the elements read on the way are collected.\<close>

fun run_ops :: "('q \<Rightarrow> 'e \<Rightarrow> 'q option) \<Rightarrow> ('q \<Rightarrow> ('e \<times> 'q) option) \<Rightarrow>
    'q \<Rightarrow> 'e queue_op list \<Rightarrow> ('e list \<times> 'q) option" where
  "run_ops put get q [] = Some ([], q)"
| "run_ops put get q (Put e # ops) =
     (case put q e of None \<Rightarrow> None | Some q' \<Rightarrow> run_ops put get q' ops)"
| "run_ops put get q (Get # ops) =
     (case get q of None \<Rightarrow> None
      | Some (e, q') \<Rightarrow> map_option (\<lambda>(es, q''). (e # es, q'')) (run_ops put get q' ops))"

locale fifo =
  fixes put :: "'q \<Rightarrow> 'e \<Rightarrow> 'q option"
    and get :: "'q \<Rightarrow> ('e \<times> 'q) option"
    and contents :: "'q \<Rightarrow> 'e list"
    and cap :: "'q \<Rightarrow> nat"
    and ok :: "'q \<Rightarrow> bool"
    and elem_ok :: "'q \<Rightarrow> 'e \<Rightarrow> bool"
  assumes put_None: "ok q \<Longrightarrow> put q e = None \<longleftrightarrow> length (contents q) = cap q"
    and put_Some: "ok q \<Longrightarrow> elem_ok q e \<Longrightarrow> put q e = Some q' \<Longrightarrow>
      ok q' \<and> contents q' = contents q @ [e] \<and> cap q' = cap q \<and> elem_ok q' = elem_ok q"
    and get_None: "ok q \<Longrightarrow> get q = None \<longleftrightarrow> contents q = []"
    and get_Some: "ok q \<Longrightarrow> get q = Some (e, q') \<Longrightarrow>
      ok q' \<and> contents q = e # contents q' \<and> cap q' = cap q \<and> elem_ok q' = elem_ok q"
    and bounded: "ok q \<Longrightarrow> length (contents q) \<le> cap q"
begin

lemma put_room: "ok q \<Longrightarrow> length (contents q) < cap q \<Longrightarrow> \<exists>q'. put q e = Some q'"
  using put_None[of q e] by (cases "put q e") auto

lemma get_nonempty: "ok q \<Longrightarrow> contents q \<noteq> [] \<Longrightarrow> \<exists>e q'. get q = Some (e, q')"
  using get_None[of q] by (cases "get q") auto

text \<open>Nothing is lost, invented or reordered by any run.\<close>

lemma run_order:
  "ok q \<Longrightarrow> \<forall>e \<in> set (puts_of ops). elem_ok q e \<Longrightarrow> run_ops put get q ops = Some (es, q') \<Longrightarrow>
     ok q' \<and> es @ contents q' = contents q @ puts_of ops \<and> cap q' = cap q"
proof (induction ops arbitrary: q es)
  case Nil
  then show ?case by simp
next
  case (Cons op ops)
  show ?case
  proof (cases op)
    case (Put e)
    with Cons.prems obtain q1 where q1: "put q e = Some q1" "run_ops put get q1 ops = Some (es, q')"
      by (auto split: option.splits)
    with put_Some[OF Cons.prems(1), of e q1] Cons.prems(2) Put
    have "ok q1" "contents q1 = contents q @ [e]" "cap q1 = cap q" "elem_ok q1 = elem_ok q" by auto
    with Cons.IH[of q1 es] q1(2) Cons.prems(2) Put show ?thesis by simp
  next
    case Get
    with Cons.prems obtain e q1 es1 where
      q1: "get q = Some (e, q1)" "run_ops put get q1 ops = Some (es1, q')" "es = e # es1"
      by (auto split: option.splits)
    with get_Some[OF Cons.prems(1) q1(1)] Cons.IH[of q1 es1] Cons.prems(2) Get
    show ?thesis by auto
  qed
qed

text \<open>A batch that fits is accepted whole, and can then be read back whole.\<close>

lemma run_puts:
  "ok q \<Longrightarrow> \<forall>e \<in> set es. elem_ok q e \<Longrightarrow> length (contents q) + length es \<le> cap q \<Longrightarrow>
     \<exists>q'. run_ops put get q (map Put es) = Some ([], q')"
proof (induction es arbitrary: q)
  case Nil
  then show ?case by simp
next
  case (Cons e es)
  then obtain q1 where q1: "put q e = Some q1" using put_room[of q e] by auto
  with put_Some[OF Cons.prems(1), of e q1] Cons.prems(2)
  have "ok q1" "contents q1 = contents q @ [e]" "cap q1 = cap q" "elem_ok q1 = elem_ok q" by auto
  with Cons.IH[of q1] Cons.prems(2,3) q1 show ?case by simp
qed

lemma run_gets:
  "ok q \<Longrightarrow> contents q = es @ rest \<Longrightarrow>
     \<exists>q'. run_ops put get q (replicate (length es) Get) = Some (es, q') \<and> contents q' = rest"
proof (induction es arbitrary: q)
  case Nil
  then show ?case by simp
next
  case (Cons e es)
  then obtain e1 q1 where q1: "get q = Some (e1, q1)" using get_nonempty[of q] by auto
  with get_Some[OF Cons.prems(1) q1] Cons.prems(2)
  have "ok q1" "e1 = e" "contents q1 = es @ rest" by auto
  with Cons.IH[of q1] q1 show ?case by auto
qed

end

text \<open>
  A channel puts a message format on top of a queue: what \<open>decode\<close> gives for the bytes of an
  element is the message \<open>encode\<close> wrote.
\<close>

locale channel = fifo put get contents cap ok elem_ok
  for put :: "'q \<Rightarrow> 'e \<Rightarrow> 'q option" and get :: "'q \<Rightarrow> ('e \<times> 'q) option"
    and contents :: "'q \<Rightarrow> 'e list" and cap :: "'q \<Rightarrow> nat" and ok :: "'q \<Rightarrow> bool"
    and elem_ok :: "'q \<Rightarrow> 'e \<Rightarrow> bool" +
  fixes encode :: "'m \<Rightarrow> 'e"
    and decode :: "'e \<Rightarrow> 'm option"
    and msg_ok :: "'m \<Rightarrow> bool"
    and fits :: "'q \<Rightarrow> bool"
  assumes decode_encode: "msg_ok m \<Longrightarrow> decode (encode m) = Some m"
    and encode_ok: "msg_ok m \<Longrightarrow> fits q \<Longrightarrow> elem_ok q (encode m)"
begin

text \<open>Messages sent into an empty channel are received, in order and unchanged.\<close>

lemma send_receive:
  assumes "ok q" and "fits q" and "contents q = []" and "\<forall>m \<in> set ms. msg_ok m"
    and "length ms \<le> cap q"
  shows "\<exists>q1 q2 es. run_ops put get q (map Put (map encode ms)) = Some ([], q1) \<and>
    run_ops put get q1 (replicate (length ms) Get) = Some (es, q2) \<and>
    map decode es = map Some ms \<and> contents q2 = []"
proof -
  have el: "\<forall>e \<in> set (map encode ms). elem_ok q e" using assms(2,4) encode_ok by auto
  obtain q1 where q1: "run_ops put get q (map Put (map encode ms)) = Some ([], q1)"
    using run_puts[OF assms(1) el] assms(3,5) by auto
  have po: "puts_of (map Put xs) = xs" for xs :: "'e list" by (induction xs) auto
  from run_order[OF assms(1) _ q1] el po[of "map encode ms"] assms(3)
  have "ok q1" "contents q1 = map encode ms @ []" by auto
  from run_gets[OF this] obtain q2 where
    "run_ops put get q1 (replicate (length ms) Get) = Some (map encode ms, q2)" "contents q2 = []"
    by auto
  moreover have "map decode (map encode ms) = map Some ms" using assms(4) decode_encode by simp
  ultimately show ?thesis using q1 by blast
qed

end

end
