(* ===== verification/RingQueue.thy ===== *)
theory RingQueue
  imports Fifo
begin

text \<open>
  \<open>Queue<T, Mutex>\<close> of \<open>src/common/capio/queue.hpp\<close> with \<open>T = char\<close>: the ring buffer in shared
  memory through which clients send their requests. The state is the shared memory itself, byte by
  byte, the two offsets and the values of the two counting semaphores; a \<open>None\<close> result is a call
  that blocks on its semaphore. The ring refines the bounded queue of \<open>Fifo\<close>.
\<close>

record ring =
  shm :: string              \<comment> \<open>\<open>_shm\<close>\<close>
  first_elem :: nat          \<comment> \<open>\<open>*_first_elem\<close>, a byte offset\<close>
  last_elem :: nat           \<comment> \<open>\<open>*_last_elem\<close>\<close>
  sem_num_elems :: nat       \<comment> \<open>value of \<open>_sem_num_elems\<close>\<close>
  sem_num_empty :: nat       \<comment> \<open>value of \<open>_sem_num_empty\<close>\<close>
  max_num_elems :: nat
  elem_size :: nat

definition buff_size :: "ring \<Rightarrow> nat" where
  "buff_size r = max_num_elems r * elem_size r"

text \<open>The constructor on a name for which no shared memory exists yet (it is zero-filled).\<close>

definition queue_init :: "nat \<Rightarrow> nat \<Rightarrow> ring" where
  "queue_init max_num es = \<lparr>shm = replicate (max_num * es) CHR 0x00, first_elem = 0, last_elem = 0,
     sem_num_elems = 0, sem_num_empty = max_num, max_num_elems = max_num, elem_size = es\<rparr>"

definition memcpy :: "string \<Rightarrow> nat \<Rightarrow> string \<Rightarrow> string" where
  "memcpy mem off d = take off mem @ d @ drop (off + length d) mem"

definition read1 :: "ring \<Rightarrow> nat \<Rightarrow> (string \<times> ring) option" where
  \<comment> \<open>\<open>_read (buff_recv, num_bytes)\<close>: the bytes received, and the ring\<close>
  "read1 r num_bytes =
     (if sem_num_elems r = 0 then None
      else Some (take num_bytes (drop (first_elem r) (shm r)),
        r\<lparr>sem_num_elems := sem_num_elems r - 1,
          first_elem := (first_elem r + elem_size r) mod buff_size r,
          sem_num_empty := sem_num_empty r + 1\<rparr>))"

definition write1 :: "ring \<Rightarrow> string \<Rightarrow> nat \<Rightarrow> ring option" where
  \<comment> \<open>\<open>_write (data, num_bytes)\<close>\<close>
  "write1 r data num_bytes =
     (if sem_num_empty r = 0 then None
      else Some (r\<lparr>sem_num_empty := sem_num_empty r - 1,
        shm := memcpy (shm r) (last_elem r) (take num_bytes data),
        last_elem := (last_elem r + elem_size r) mod buff_size r,
        sem_num_elems := sem_num_elems r + 1\<rparr>))"

text \<open>The loops of \<open>read\<close> and \<open>write\<close> over whole elements, then the rest.\<close>

fun read_loop :: "ring \<Rightarrow> nat \<Rightarrow> (string \<times> ring) option" where
  "read_loop r 0 = Some ([], r)"
| "read_loop r (Suc n) =
     (case read1 r (elem_size r) of None \<Rightarrow> None
      | Some (d, r') \<Rightarrow> map_option (\<lambda>(ds, r''). (d @ ds, r'')) (read_loop r' n))"

definition queue_read :: "ring \<Rightarrow> nat \<Rightarrow> (string \<times> ring) option" where
  "queue_read r num_bytes =
     (case read_loop r (num_bytes div elem_size r) of None \<Rightarrow> None
      | Some (ds, r') \<Rightarrow>
          if num_bytes mod elem_size r = 0 then Some (ds, r')
          else map_option (\<lambda>(d, r''). (ds @ d, r'')) (read1 r' (num_bytes mod elem_size r)))"

definition queue_read_elem :: "ring \<Rightarrow> (string \<times> ring) option" where
  "queue_read_elem r = queue_read r (elem_size r)"

fun write_loop :: "ring \<Rightarrow> string \<Rightarrow> nat \<Rightarrow> ring option" where
  "write_loop r data 0 = Some r"
| "write_loop r data (Suc n) =
     (case write1 r data (elem_size r) of None \<Rightarrow> None
      | Some r' \<Rightarrow> write_loop r' (drop (elem_size r) data) n)"

definition queue_write :: "ring \<Rightarrow> string \<Rightarrow> nat \<Rightarrow> ring option" where
  "queue_write r data num_bytes =
     (let n_writes = num_bytes div elem_size r; rest = num_bytes mod elem_size r
      in case write_loop r data n_writes of None \<Rightarrow> None
         | Some r' \<Rightarrow> if rest = 0 then Some r'
                     else write1 r' (drop (n_writes * elem_size r) data) rest)"

definition queue_write_elem :: "ring \<Rightarrow> string \<Rightarrow> ring option" where
  "queue_write_elem r data = queue_write r data (elem_size r)"

text \<open>
  \<open>fetch\<close> and \<open>reserve\<close> hand out the offset of a segment instead of copying; both post their
  semaphore before the caller has used the segment.
\<close>

definition queue_fetch :: "ring \<Rightarrow> (nat \<times> ring) option" where
  "queue_fetch r =
     (if sem_num_elems r = 0 then None
      else Some (first_elem r,
        r\<lparr>sem_num_elems := sem_num_elems r - 1,
          first_elem := (first_elem r + elem_size r) mod buff_size r,
          sem_num_empty := sem_num_empty r + 1\<rparr>))"

definition queue_reserve :: "ring \<Rightarrow> (nat \<times> ring) option" where
  "queue_reserve r =
     (if sem_num_empty r = 0 then None
      else Some (last_elem r,
        r\<lparr>sem_num_empty := sem_num_empty r - 1,
          last_elem := (last_elem r + elem_size r) mod buff_size r,
          sem_num_elems := sem_num_elems r + 1\<rparr>))"

subsection \<open>The abstraction and the invariant\<close>

definition slot :: "ring \<Rightarrow> nat \<Rightarrow> string" where
  "slot r i = take (elem_size r) (drop (i * elem_size r) (shm r))"

definition ring_contents :: "ring \<Rightarrow> string list" where
  "ring_contents r =
     map (\<lambda>k. slot r ((first_elem r div elem_size r + k) mod max_num_elems r)) [0..<sem_num_elems r]"

definition ring_ok :: "ring \<Rightarrow> bool" where
  "ring_ok r \<longleftrightarrow> 0 < elem_size r \<and> 0 < max_num_elems r \<and> length (shm r) = buff_size r \<and>
     first_elem r mod elem_size r = 0 \<and> first_elem r < buff_size r \<and>
     last_elem r = (first_elem r div elem_size r + sem_num_elems r) mod max_num_elems r * elem_size r \<and>
     sem_num_elems r + sem_num_empty r = max_num_elems r"

definition elem_fits :: "ring \<Rightarrow> string \<Rightarrow> bool" where
  "elem_fits r e \<longleftrightarrow> length e = elem_size r"

lemma queue_init_ok: "0 < n \<Longrightarrow> 0 < es \<Longrightarrow> ring_ok (queue_init n es)"
  by (simp add: ring_ok_def queue_init_def buff_size_def)

lemma queue_init_sizes [simp]: "max_num_elems (queue_init n es) = n" "elem_size (queue_init n es) = es"
  by (simp_all add: queue_init_def)

lemma queue_init_empty: "ring_contents (queue_init n es) = []"
  by (simp add: ring_contents_def queue_init_def)

lemma length_memcpy: "off + length d \<le> length mem \<Longrightarrow> length (memcpy mem off d) = length mem"
  by (simp add: memcpy_def)

lemma slot_end: "i < n \<Longrightarrow> i * es + es \<le> n * (es::nat)"
  by (metis Suc_leI add.commute mult_Suc mult_le_mono1)

lemma take_drop_below: "a + n \<le> b \<Longrightarrow> b \<le> length m \<Longrightarrow> take n (drop a (take b m @ x)) = take n (drop a m)"
proof -
  assume a: "a + n \<le> b" "b \<le> length m"
  then have "drop a (take b m @ x) = take (b - a) (drop a m) @ x" by (simp add: drop_take)
  with a show ?thesis by (simp add: min_absorb1)
qed

lemma memcpy_slot:
  assumes "length mem = n * es" and "i < n" and "j < n" and "length d = es"
  shows "take es (drop (i * es) (memcpy mem (j * es) d)) =
    (if i = j then d else take es (drop (i * es) mem))"
proof -
  have jn: "j * es + es \<le> n * es" using assms(3) by (rule slot_end)
  consider "i = j" | "i < j" | "j < i" by linarith
  then show ?thesis
  proof cases
    case 1
    have "min (n * es) (j * es) = j * es" using jn by linarith
    with 1 show ?thesis using assms(1,4) by (simp add: memcpy_def)
  next
    case 2
    then have "i * es + es \<le> j * es" by (rule slot_end)
    then have "take es (drop (i * es) (take (j * es) mem @ d @ drop (j * es + length d) mem)) =
        take es (drop (i * es) mem)"
      using assms(1) jn by (intro take_drop_below) linarith+
    moreover from 2 have "i \<noteq> j" by simp
    ultimately show ?thesis by (simp only: memcpy_def if_False)
  next
    case 3
    then have "j * es + es \<le> i * es" by (rule slot_end)
    moreover have "min (n * es) (j * es) = j * es" using jn by linarith
    ultimately have "drop (i * es) (memcpy mem (j * es) d) = drop (i * es) mem"
      using assms(1,4) jn less_imp_le[OF 3] by (simp add: memcpy_def)
    with 3 show ?thesis by simp
  qed
qed

lemma ring_step_index:
  fixes f es n :: nat
  assumes "0 < es" and "f mod es = 0"
  shows "(f + es) mod (n * es) = ((f div es + 1) mod n) * es"
proof -
  obtain q where f: "f = q * es" using assms(2) by (metis dvd_def mod_0_imp_dvd mult.commute)
  have "(q * es + es) mod (n * es) = (es * Suc q) mod (es * n)" by (simp add: algebra_simps)
  also have "\<dots> = es * (Suc q mod n)" by (rule mult_mod_right[symmetric])
  finally show ?thesis using f assms(1) by (simp add: mult.commute)
qed

lemma mod_index_distinct:
  fixes f k m n :: nat
  assumes "k < n" and "n < m"
  shows "(f + k) mod m \<noteq> (f + n) mod m"
proof
  assume "(f + k) mod m = (f + n) mod m"
  then have "m dvd (f + n) - (f + k)"
    using assms(1) mod_eq_dvd_iff_nat[of "f + k" "f + n" m] by simp
  then have "m dvd n - k" by simp
  with assms show False by (simp add: nat_dvd_not_less)
qed

lemma mod_Suc_pred: "0 < k \<Longrightarrow> (q + k) mod n = (Suc q mod n + k - Suc 0) mod (n::nat)"
  by (cases k) (simp_all add: mod_add_left_eq)

subsection \<open>The ring is a bounded queue\<close>

lemma write1_refines:
  assumes "ring_ok r" and "elem_fits r e" and "write1 r e (elem_size r) = Some r'"
  shows "ring_ok r' \<and> ring_contents r' = ring_contents r @ [e] \<and>
    max_num_elems r' = max_num_elems r \<and> elem_size r' = elem_size r"
proof -
  let ?n = "max_num_elems r" and ?es = "elem_size r" and ?q = "first_elem r div elem_size r"
  let ?k = "sem_num_elems r"
  let ?j = "(?q + ?k) mod ?n"
  from assms(1) have ok: "0 < ?es" "0 < ?n" "length (shm r) = ?n * ?es"
      "last_elem r = ?j * ?es" "?k + sem_num_empty r = ?n"
    by (auto simp: ring_ok_def buff_size_def)
  from assms(3) have free: "sem_num_empty r \<noteq> 0" and r': "r' = r\<lparr>sem_num_empty := sem_num_empty r - 1,
      shm := memcpy (shm r) (?j * ?es) e,
      last_elem := (?j * ?es + ?es) mod (?n * ?es), sem_num_elems := ?k + 1\<rparr>"
    using assms(2) by (auto simp: write1_def elem_fits_def ok buff_size_def split: if_splits)
  have j: "?j < ?n" using ok(2) by simp
  have len: "length (shm r') = ?n * ?es"
    using assms(2) ok(3) slot_end[OF j, of ?es] by (simp add: r' length_memcpy elem_fits_def)
  have slots: "slot r' i = (if i = ?j then e else slot r i)" if "i < ?n" for i
    using memcpy_slot[OF ok(3) that j] assms(2) by (simp add: slot_def r' elem_fits_def)
  have "ring_contents r' = map (\<lambda>k. slot r' ((?q + k) mod ?n)) ([0..<?k] @ [?k])"
    by (simp add: ring_contents_def r')
  also have "\<dots> = map (\<lambda>k. slot r ((?q + k) mod ?n)) [0..<?k] @ [e]"
    using ok(2,5) free mod_index_distinct[of _ ?k ?n ?q] by (auto simp: slots)
  finally have "ring_contents r' = ring_contents r @ [e]" by (simp add: ring_contents_def)
  moreover have "ring_ok r'"
    using assms(1) ok free len ring_step_index[of ?es "?j * ?es" ?n]
    by (simp add: ring_ok_def r' buff_size_def mod_Suc_eq)
  ultimately show ?thesis by (simp add: r')
qed

lemma read1_refines:
  assumes "ring_ok r" and "read1 r (elem_size r) = Some (e, r')"
  shows "ring_ok r' \<and> ring_contents r = e # ring_contents r' \<and>
    max_num_elems r' = max_num_elems r \<and> elem_size r' = elem_size r"
proof -
  let ?n = "max_num_elems r" and ?es = "elem_size r" and ?q = "first_elem r div elem_size r"
  let ?k = "sem_num_elems r"
  from assms(1) have ok: "0 < ?es" "0 < ?n" "length (shm r) = ?n * ?es"
      "first_elem r = ?q * ?es" "?q < ?n"
      "last_elem r = (?q + ?k) mod ?n * ?es" "?k + sem_num_empty r = ?n"
    by (auto simp: ring_ok_def buff_size_def less_mult_imp_div_less)
  have step: "(?q * ?es + ?es) mod (?n * ?es) = (Suc ?q mod ?n) * ?es"
    using ring_step_index[of ?es "?q * ?es" ?n] ok(1) by simp
  from assms(2) have k: "?k \<noteq> 0" and e: "e = take ?es (drop (?q * ?es) (shm r))" and
    r': "r' = r\<lparr>sem_num_elems := ?k - 1, first_elem := (Suc ?q mod ?n) * ?es,
      sem_num_empty := sem_num_empty r + 1\<rparr>"
    using ok(4) step by (auto simp: read1_def buff_size_def split: if_splits)
  have sl: "slot r' = slot r" by (simp add: fun_eq_iff slot_def r')
  have "ring_contents r = map (\<lambda>k. slot r ((?q + k) mod ?n)) (0 # map Suc [0..<?k - 1])"
    using k by (simp add: ring_contents_def map_Suc_upt upt_rec[of 0 ?k])
  also have "\<dots> = e # ring_contents r'"
    using ok(1,5) by (simp add: ring_contents_def sl) (simp add: r' e slot_def mod_add_left_eq)
  finally have "ring_contents r = e # ring_contents r'" .
  moreover have "ring_ok r'"
    using assms(1) ok k by (auto simp: ring_ok_def r' buff_size_def intro: mod_Suc_pred)
  ultimately show ?thesis by (simp add: r')
qed

lemma length_ring_contents: "length (ring_contents r) = sem_num_elems r"
  by (simp add: ring_contents_def)

lemma queue_read_elem_eq: "ring_ok r \<Longrightarrow> queue_read_elem r = read1 r (elem_size r)"
  by (auto simp: queue_read_elem_def queue_read_def ring_ok_def split: option.splits)

lemma queue_write_elem_eq: "ring_ok r \<Longrightarrow> queue_write_elem r d = write1 r d (elem_size r)"
  by (auto simp: queue_write_elem_def queue_write_def ring_ok_def Let_def split: option.splits)

interpretation rq: fifo queue_write_elem queue_read_elem ring_contents max_num_elems ring_ok elem_fits
proof unfold_locales
  fix q q' :: ring and e :: string
  assume ok: "ring_ok q"
  then have sem: "sem_num_elems q + sem_num_empty q = max_num_elems q" by (simp add: ring_ok_def)
  show "queue_write_elem q e = None \<longleftrightarrow> length (ring_contents q) = max_num_elems q"
    using sem by (auto simp: queue_write_elem_eq[OF ok] write1_def length_ring_contents)
  show "queue_read_elem q = None \<longleftrightarrow> ring_contents q = []"
    by (auto simp: queue_read_elem_eq[OF ok] read1_def ring_contents_def)
  show "length (ring_contents q) \<le> max_num_elems q"
    using sem by (simp add: length_ring_contents)
  show "ring_ok q' \<and> ring_contents q' = ring_contents q @ [e] \<and>
      max_num_elems q' = max_num_elems q \<and> elem_fits q' = elem_fits q"
    if "elem_fits q e" "queue_write_elem q e = Some q'"
    using write1_refines[OF ok that(1), of q'] that(2)
    by (simp add: queue_write_elem_eq[OF ok] elem_fits_def fun_eq_iff)
  show "ring_ok q' \<and> ring_contents q = e # ring_contents q' \<and>
      max_num_elems q' = max_num_elems q \<and> elem_fits q' = elem_fits q"
    if "queue_read_elem q = Some (e, q')"
    using read1_refines[OF ok, of e q'] that
    by (simp add: queue_read_elem_eq[OF ok] elem_fits_def fun_eq_iff)
qed

subsection \<open>Transfers that are not one element long\<close>

text \<open>A short write leaves the rest of its slot as it was: it is a full write of a padded element.\<close>

definition pad :: "ring \<Rightarrow> string \<Rightarrow> string" where
  "pad r d = d @ take (elem_size r - length d) (drop (last_elem r + length d) (shm r))"

lemma take_drop_length_take: "take k X @ drop (length (take k X)) X = X"
  by (cases "k \<le> length X") simp_all

lemma memcpy_pad: "memcpy mem off (d @ take k (drop (off + length d) mem)) = memcpy mem off d"
proof -
  let ?X = "drop (off + length d) mem"
  have "drop (off + length (d @ take k ?X)) mem = drop (length (take k ?X)) ?X"
    by (simp add: add.assoc add.commute)
  then show ?thesis
    using take_drop_length_take[of k ?X] unfolding memcpy_def by (metis append.assoc)
qed

lemma last_slot_room:
  assumes "ring_ok r"
  shows "last_elem r + elem_size r \<le> length (shm r)"
proof -
  let ?j = "(first_elem r div elem_size r + sem_num_elems r) mod max_num_elems r"
  from assms have "?j < max_num_elems r" by (simp add: ring_ok_def)
  then have "?j * elem_size r + elem_size r \<le> max_num_elems r * elem_size r" by (rule slot_end)
  with assms show ?thesis by (simp add: ring_ok_def buff_size_def)
qed

lemma length_pad: "ring_ok r \<Longrightarrow> length d \<le> elem_size r \<Longrightarrow> length (pad r d) = elem_size r"
  using last_slot_room[of r] by (simp add: pad_def min_absorb2)

lemma write1_pad:
  assumes "ring_ok r" and "length d \<le> elem_size r"
  shows "write1 r d (length d) = write1 r (pad r d) (elem_size r)"
proof -
  have "take (elem_size r) (pad r d) = pad r d" using length_pad[OF assms] by simp
  then show ?thesis by (simp add: write1_def) (simp add: pad_def memcpy_pad)
qed

lemma write1_short:
  assumes "ring_ok r" and "length d \<le> elem_size r" and "write1 r d (length d) = Some r'"
  shows "ring_ok r' \<and> (\<exists>t. ring_contents r' = ring_contents r @ [d @ t]) \<and>
    max_num_elems r' = max_num_elems r \<and> elem_size r' = elem_size r"
  using write1_refines[OF assms(1), of "pad r d" r'] length_pad[OF assms(1,2)] assms(3)
  unfolding write1_pad[OF assms(1,2)] by (auto simp: elem_fits_def pad_def)

lemma read1_short:
  assumes "read1 r (elem_size r) = Some (e, r')" and "k \<le> elem_size r"
  shows "read1 r k = Some (take k e, r')"
  using assms by (auto simp: read1_def min_def split: if_splits)

lemma write1_room: "ring_ok r \<Longrightarrow> sem_num_elems r < max_num_elems r \<Longrightarrow> \<exists>r'. write1 r d n = Some r'"
  by (auto simp: write1_def ring_ok_def)

lemma write1_take: "write1 r (take n d) n = write1 r d n"
  by (simp add: write1_def)

lemma write_loop_fits:
  "ring_ok r \<Longrightarrow> length d = n * elem_size r \<Longrightarrow> sem_num_elems r + n \<le> max_num_elems r \<Longrightarrow>
     \<exists>r' es. write_loop r (d @ x) n = Some r' \<and> ring_ok r' \<and>
       ring_contents r' = ring_contents r @ es \<and> concat es = d \<and> length es = n \<and>
       max_num_elems r' = max_num_elems r \<and> elem_size r' = elem_size r"
proof (induction n arbitrary: r d)
  case 0
  then show ?case by simp
next
  case (Suc n)
  let ?e = "take (elem_size r) d" and ?d = "drop (elem_size r) d"
  from Suc.prems(2) have len: "length ?e = elem_size r" "length ?d = n * elem_size r" by simp_all
  obtain r1 where r1: "write1 r ?e (elem_size r) = Some r1"
    using write1_room[OF Suc.prems(1), of ?e] Suc.prems(3) by auto
  from write1_refines[OF Suc.prems(1) _ r1] len(1) have
    ok1: "ring_ok r1" "ring_contents r1 = ring_contents r @ [?e]"
      "max_num_elems r1 = max_num_elems r" "elem_size r1 = elem_size r"
    by (auto simp: elem_fits_def)
  from ok1(2) have sem: "sem_num_elems r1 = Suc (sem_num_elems r)"
    using length_ring_contents[of r1] length_ring_contents[of r] by simp
  obtain r' es where r': "write_loop r1 (?d @ x) n = Some r'" "ring_ok r'"
      "ring_contents r' = ring_contents r1 @ es" "concat es = ?d" "length es = n"
      "max_num_elems r' = max_num_elems r1" "elem_size r' = elem_size r1"
    using Suc.IH[of r1 ?d] ok1 sem len(2) Suc.prems(3) by auto
  have "write1 r (d @ x) (elem_size r) = Some r1"
    using r1 len(1) write1_take[of r "elem_size r" "d @ x"] Suc.prems(2) by simp
  moreover have "drop (elem_size r) (d @ x) = ?d @ x" using Suc.prems(2) by simp
  ultimately show ?case
    using r' ok1 by (intro exI[of _ r'] exI[of _ "?e # es"]) simp
qed

lemma read_loop_contents:
  "ring_ok r \<Longrightarrow> ring_contents r = es @ rest \<Longrightarrow>
     \<exists>r'. read_loop r (length es) = Some (concat es, r') \<and> ring_ok r' \<and> ring_contents r' = rest \<and>
       elem_size r' = elem_size r"
proof (induction es arbitrary: r)
  case Nil
  then show ?case by simp
next
  case (Cons e es)
  obtain e1 r1 where r1: "read1 r (elem_size r) = Some (e1, r1)"
    using rq.get_nonempty[OF Cons.prems(1)] Cons.prems queue_read_elem_eq[OF Cons.prems(1)] by auto
  from read1_refines[OF Cons.prems(1) r1] Cons.prems(2)
  have "ring_ok r1" "e1 = e" "ring_contents r1 = es @ rest" "elem_size r1 = elem_size r" by auto
  with Cons.IH[of r1] r1 show ?case by auto
qed

text \<open>What the reader gets for a transfer of any length is what the writer passed.\<close>

lemma transfer_roundtrip:
  assumes ok: "ring_ok r" and empty: "ring_contents r = []"
    and fits: "length d \<le> max_num_elems r * elem_size r"
  shows "\<exists>r1 r2. queue_write r d (length d) = Some r1 \<and> queue_read r1 (length d) = Some (d, r2) \<and>
    ring_contents r2 = []"
proof -
  define n m where "n = length d div elem_size r" and "m = length d mod elem_size r"
  let ?es = "elem_size r"
  have es: "0 < ?es" using ok by (simp add: ring_ok_def)
  have n: "n \<le> max_num_elems r" unfolding n_def using fits es by (metis div_le_mono div_mult_self_is_m)
  have k0: "sem_num_elems r = 0" using empty length_ring_contents[of r] by simp
  define d1 d2 where "d1 = take (n * ?es) d" and "d2 = drop (n * ?es) d"
  have d: "d = d1 @ d2" "length d1 = n * ?es" "length d2 = m"
    by (auto simp: d1_def d2_def min_absorb2 n_def m_def minus_div_mult_eq_mod)
  obtain r1 xs where r1: "write_loop r d n = Some r1" "ring_ok r1"
      "ring_contents r1 = xs" "concat xs = d1" "length xs = n"
      "max_num_elems r1 = max_num_elems r" "elem_size r1 = ?es"
    using write_loop_fits[OF ok d(2), of d2] n k0 d(1) empty by auto
  have W: "queue_write r d (length d) = (case write_loop r d n of None \<Rightarrow> None
      | Some r' \<Rightarrow> if m = 0 then Some r' else write1 r' (drop (n * ?es) d) m)"
    by (simp only: queue_write_def n_def m_def Let_def)
  have R: "queue_read q (length d) = (case read_loop q n of None \<Rightarrow> None
      | Some (ds, r') \<Rightarrow> if m = 0 then Some (ds, r')
          else map_option (\<lambda>(d, r''). (ds @ d, r'')) (read1 r' m))" if "elem_size q = ?es" for q
    by (simp only: queue_read_def n_def m_def that)
  show ?thesis
  proof (cases "m = 0")
    case True
    then have "d = d1" using d(1,3) by simp
    moreover obtain r2 where "read_loop r1 (length xs) = Some (concat xs, r2)" "ring_contents r2 = []"
      using read_loop_contents[OF r1(2), of xs "[]"] r1(3) by auto
    ultimately have "queue_write r d (length d) = Some r1" "queue_read r1 (length d) = Some (d, r2)"
      unfolding W R[OF r1(7)] using True r1(1,4,5) by simp_all
    with \<open>ring_contents r2 = []\<close> show ?thesis by blast
  next
    case False
    have "n < max_num_elems r"
    proof (rule ccontr)
      assume "\<not> n < max_num_elems r"
      with n have "n = max_num_elems r" by simp
      moreover have "length d = n * ?es + m" by (simp only: n_def m_def div_mult_mod_eq)
      ultimately have "length d = max_num_elems r * ?es + m" by simp
      with fits False show False by linarith
    qed
    moreover have "sem_num_elems r1 = n" using length_ring_contents[of r1] r1(3,5) by simp
    ultimately obtain r2 where r2: "write1 r1 d2 m = Some r2"
      using write1_room[OF r1(2), of d2 m] r1(6) by auto
    have m: "m \<le> elem_size r1" using es r1(7) by (simp add: m_def less_imp_le)
    from write1_short[OF r1(2), of d2 r2] r2 d(3) m obtain t where
      t: "ring_ok r2" "ring_contents r2 = xs @ [d2 @ t]" "elem_size r2 = ?es"
      using r1(3,7) by auto
    obtain r3 where r3: "read_loop r2 n = Some (d1, r3)" "ring_ok r3" "ring_contents r3 = [d2 @ t]"
        "elem_size r3 = ?es"
      using read_loop_contents[OF t(1,2)] r1(4,5) t(3) by auto
    obtain e r4 where r4: "read1 r3 (elem_size r3) = Some (e, r4)"
      using rq.get_nonempty[OF r3(2)] r3(3) queue_read_elem_eq[OF r3(2)] by auto
    from read1_refines[OF r3(2) r4] r3(3) have "e = d2 @ t" "ring_contents r4 = []" by auto
    moreover have "read1 r3 m = Some (take m e, r4)"
      using read1_short[OF r4, of m] m r1(7) r3(4) by simp
    moreover have "drop (n * ?es) d = d2" by (simp add: d2_def)
    ultimately have "queue_write r d (length d) = Some r2"
        "queue_read r2 (length d) = Some (d1 @ d2, r4)" "ring_contents r4 = []"
      using False r1(1) r2 r3(1) t(3) d(3) by (simp_all add: W R)
    with d(1) show ?thesis by metis
  qed
qed

text \<open>\<open>reserve\<close> makes the slot readable before anything was written to it.\<close>

lemma reserve_exposes:
  assumes "ring_ok r" and "queue_reserve r = Some (off, r')"
  shows "ring_contents r' = ring_contents r @ [take (elem_size r) (drop off (shm r))]"
proof -
  from assms(2) have r': "off = last_elem r" "r' = r\<lparr>sem_num_empty := sem_num_empty r - 1,
      last_elem := (last_elem r + elem_size r) mod buff_size r, sem_num_elems := sem_num_elems r + 1\<rparr>"
    by (auto simp: queue_reserve_def split: if_splits)
  have "slot r' = slot r" by (simp add: fun_eq_iff slot_def r')
  with assms(1) show ?thesis
    by (simp add: ring_contents_def r' ring_ok_def) (simp add: slot_def)
qed

subsection \<open>Properties\<close>

text \<open>C3: The ring buffer in shared memory is a bounded first-in first-out queue: for every sequence
  of element writes and reads that does not block, what the reads returned followed by what is still
  in the ring is what was in the ring followed by what was written, and the ring stays well formed.
  Every write copies exactly one element; the offsets wrap around at the size of the buffer.\<close>

theorem ring_is_fifo:
  assumes "ring_ok r" and "\<forall>e \<in> set (puts_of ops). elem_fits r e"
    and "run_ops queue_write_elem queue_read_elem r ops = Some (es, r')"
  shows "ring_ok r' \<and> es @ ring_contents r' = ring_contents r @ puts_of ops"
  using rq.run_order[OF assms] by blast

lemma ring_is_fifo_witness:
  "\<exists>r'. run_ops queue_write_elem queue_read_elem (queue_init 2 2)
       [Put ''ab'', Put ''cd'', Get, Put ''ef'', Get] = Some ([''ab'', ''cd''], r') \<and>
     ring_contents r' = [''ef'']"
proof -
  have "map_option fst (run_ops queue_write_elem queue_read_elem (queue_init 2 2)
       [Put ''ab'', Put ''cd'', Get, Put ''ef'', Get]) = Some [''ab'', ''cd'']"
    by code_simp
  then obtain r' where r': "run_ops queue_write_elem queue_read_elem (queue_init 2 2)
       [Put ''ab'', Put ''cd'', Get, Put ''ef'', Get] = Some ([''ab'', ''cd''], r')"
    by auto
  with ring_is_fifo[OF queue_init_ok _ r'] show ?thesis
    by (simp add: queue_init_empty elem_fits_def)
qed

text \<open>A transfer of any length that fits into an empty ring comes out unchanged: the loop over
  whole elements and the rest of \<open>write\<close> and \<open>read\<close> split it the same way, short last element
  included.\<close>

theorem transfer_of_any_length:
  assumes "ring_ok r" and "ring_contents r = []" and "length d \<le> max_num_elems r * elem_size r"
  shows "\<exists>r1 r2. queue_write r d (length d) = Some r1 \<and> queue_read r1 (length d) = Some (d, r2) \<and>
    ring_contents r2 = []"
  using assms by (rule transfer_roundtrip)

lemma transfer_of_any_length_witness:
  "\<exists>r1 r2. queue_write (queue_init 3 2) ''abcde'' (length ''abcde'') = Some r1 \<and>
    queue_read r1 (length ''abcde'') = Some (''abcde'', r2) \<and> ring_contents r2 = []"
  by (rule transfer_of_any_length) (simp_all add: queue_init_ok queue_init_empty)

text \<open>\<open>reserve\<close> posts the semaphore of the readers before its caller has written the segment: the
  next element a reader gets is whatever the shared memory held there.\<close>

theorem reserve_publishes_old_bytes:
  assumes "ring_ok r" and "queue_reserve r = Some (off, r')"
  shows "ring_contents r' = ring_contents r @ [take (elem_size r) (drop off (shm r))]"
  using assms by (rule reserve_exposes)

lemma reserve_publishes_old_bytes_witness:
  "\<exists>r'. queue_reserve (queue_init 2 2) = Some (0, r') \<and> ring_contents r' = [[CHR 0x00, CHR 0x00]]"
proof -
  obtain r' where r': "queue_reserve (queue_init 2 2) = Some (0, r')"
    by (simp add: queue_reserve_def queue_init_def)
  from reserve_publishes_old_bytes[OF queue_init_ok r'] have
    "ring_contents r' = ring_contents (queue_init 2 2) @ [take 2 (drop 0 (shm (queue_init 2 2)))]"
    by (simp add: queue_init_def)
  moreover have "take 2 (drop 0 (shm (queue_init 2 2))) = [CHR 0x00, CHR 0x00]" by code_simp
  ultimately show ?thesis using r' by (simp add: queue_init_empty)
qed

end
