(* ===== verification/RingSteps.thy ===== *)
theory RingSteps
  imports RingQueue
begin

text \<open>
  \<open>_read\<close> and \<open>_write\<close> of \<open>src/common/capio/queue.hpp\<close> with \<open>Mutex = NamedSemaphore\<close>, run by any
  number of processes and threads at once: one step for each call on a semaphore, for the copy and
  for the move of an offset. \<open>RingQueue\<close> takes such a call for one step; that this is right is
  proved here. The posts come before the mutex is released, as the guard is destroyed last.
\<close>

subsection \<open>The steps of a thread\<close>

text \<open>Where a thread is in a call, with the element it writes or has read.\<close>

datatype ring_pc =
    Outside
  | PutWaits string      \<comment> \<open>before \<open>_sem_num_empty.lock ()\<close>\<close>
  | PutReserved string   \<comment> \<open>before the mutex\<close>
  | PutLocked string     \<comment> \<open>before \<open>memcpy\<close>\<close>
  | PutCopied string     \<comment> \<open>before \<open>*_last_elem = ...\<close>\<close>
  | PutAdvanced          \<comment> \<open>before \<open>_sem_num_elems.unlock ()\<close>\<close>
  | PutPosted            \<comment> \<open>before the guard releases the mutex\<close>
  | GetWaits
  | GetReserved
  | GetLocked
  | GetCopied string
  | GetAdvanced string
  | GetPosted string

text \<open>
  The memory and semaphores the threads share. The two logs are not part of the program: the elements
  in the order their writers move the offset, and those in the order their readers do.
\<close>

record shared_ring =
  sr_ring :: ring
  sr_mutex :: nat
  sr_sent :: "string list"
  sr_got :: "string list"

text \<open>The next step of a thread inside a call; \<open>None\<close> while it has to wait.\<close>

fun thread_step :: "ring_pc \<Rightarrow> shared_ring \<Rightarrow> (ring_pc \<times> shared_ring) option" where
  "thread_step Outside s = None"
| "thread_step (PutWaits d) s =
     (if sem_num_empty (sr_ring s) = 0 then None
      else Some (PutReserved d, s\<lparr>sr_ring := (sr_ring s)\<lparr>sem_num_empty := sem_num_empty (sr_ring s) - 1\<rparr>\<rparr>))"
| "thread_step (PutReserved d) s =
     (if sr_mutex s = 0 then None else Some (PutLocked d, s\<lparr>sr_mutex := sr_mutex s - 1\<rparr>))"
| "thread_step (PutLocked d) s =
     Some (PutCopied d, s\<lparr>sr_ring := (sr_ring s)\<lparr>shm := memcpy (shm (sr_ring s)) (last_elem (sr_ring s)) d\<rparr>\<rparr>)"
| "thread_step (PutCopied d) s =
     Some (PutAdvanced, s\<lparr>sr_ring := (sr_ring s)\<lparr>last_elem :=
       (last_elem (sr_ring s) + elem_size (sr_ring s)) mod buff_size (sr_ring s)\<rparr>, sr_sent := sr_sent s @ [d]\<rparr>)"
| "thread_step PutAdvanced s =
     Some (PutPosted, s\<lparr>sr_ring := (sr_ring s)\<lparr>sem_num_elems := sem_num_elems (sr_ring s) + 1\<rparr>\<rparr>)"
| "thread_step PutPosted s = Some (Outside, s\<lparr>sr_mutex := sr_mutex s + 1\<rparr>)"
| "thread_step GetWaits s =
     (if sem_num_elems (sr_ring s) = 0 then None
      else Some (GetReserved, s\<lparr>sr_ring := (sr_ring s)\<lparr>sem_num_elems := sem_num_elems (sr_ring s) - 1\<rparr>\<rparr>))"
| "thread_step GetReserved s =
     (if sr_mutex s = 0 then None else Some (GetLocked, s\<lparr>sr_mutex := sr_mutex s - 1\<rparr>))"
| "thread_step GetLocked s =
     Some (GetCopied (take (elem_size (sr_ring s)) (drop (first_elem (sr_ring s)) (shm (sr_ring s)))), s)"
| "thread_step (GetCopied d) s =
     Some (GetAdvanced d, s\<lparr>sr_ring := (sr_ring s)\<lparr>first_elem :=
       (first_elem (sr_ring s) + elem_size (sr_ring s)) mod buff_size (sr_ring s)\<rparr>, sr_got := sr_got s @ [d]\<rparr>)"
| "thread_step (GetAdvanced d) s =
     Some (GetPosted d, s\<lparr>sr_ring := (sr_ring s)\<lparr>sem_num_empty := sem_num_empty (sr_ring s) + 1\<rparr>\<rparr>)"
| "thread_step (GetPosted d) s = Some (Outside, s\<lparr>sr_mutex := sr_mutex s + 1\<rparr>)"

text \<open>Any thread may move, and one that is outside may call.\<close>

inductive ring_step :: "ring_pc list \<times> shared_ring \<Rightarrow> ring_pc list \<times> shared_ring \<Rightarrow> bool" where
  move: "i < length ps \<Longrightarrow> thread_step (ps ! i) s = Some (p, s') \<Longrightarrow> ring_step (ps, s) (ps[i := p], s')"
| call_write: "i < length ps \<Longrightarrow> ps ! i = Outside \<Longrightarrow> length d = elem_size (sr_ring s) \<Longrightarrow>
     ring_step (ps, s) (ps[i := PutWaits d], s)"
| call_read: "i < length ps \<Longrightarrow> ps ! i = Outside \<Longrightarrow> ring_step (ps, s) (ps[i := GetWaits], s)"

definition ring_start :: "nat \<Rightarrow> nat \<Rightarrow> nat \<Rightarrow> ring_pc list \<times> shared_ring" where
  "ring_start threads n es = (replicate threads Outside,
     \<lparr>sr_ring = queue_init n es, sr_mutex = 1, sr_sent = [], sr_got = []\<rparr>)"

abbreviation ring_runs :: "ring_pc list \<times> shared_ring \<Rightarrow> ring_pc list \<times> shared_ring \<Rightarrow> bool" where
  "ring_runs \<equiv> ring_step\<^sup>*\<^sup>*"

subsection \<open>The invariant\<close>

fun critical :: "ring_pc \<Rightarrow> bool" where
  "critical (PutLocked d) = True"
| "critical (PutCopied d) = True"
| "critical PutAdvanced = True"
| "critical PutPosted = True"
| "critical GetLocked = True"
| "critical (GetCopied d) = True"
| "critical (GetAdvanced d) = True"
| "critical (GetPosted d) = True"
| "critical _ = False"

text \<open>A writer that holds a free slot, and a reader that holds an element, which they have not used yet.\<close>

fun holds_slot :: "ring_pc \<Rightarrow> bool" where
  "holds_slot (PutReserved d) = True"
| "holds_slot (PutLocked d) = True"
| "holds_slot (PutCopied d) = True"
| "holds_slot _ = False"

fun holds_elem :: "ring_pc \<Rightarrow> bool" where
  "holds_elem GetReserved = True"
| "holds_elem GetLocked = True"
| "holds_elem (GetCopied d) = True"
| "holds_elem _ = False"

text \<open>One that has moved the offset and not posted.\<close>

fun owes_elem :: "ring_pc \<Rightarrow> bool" where
  "owes_elem PutAdvanced = True"
| "owes_elem _ = False"

fun owes_slot :: "ring_pc \<Rightarrow> bool" where
  "owes_slot (GetAdvanced d) = True"
| "owes_slot _ = False"

definition threads_at :: "('p \<Rightarrow> bool) \<Rightarrow> 'p list \<Rightarrow> nat" where
  "threads_at P ps = length (filter P ps)"

text \<open>What a thread knows of the ring.\<close>

fun knows :: "shared_ring \<Rightarrow> ring_pc \<Rightarrow> bool" where
  "knows s (PutWaits d) = (length d = elem_size (sr_ring s))"
| "knows s (PutReserved d) = (length d = elem_size (sr_ring s))"
| "knows s (PutLocked d) = (length d = elem_size (sr_ring s))"
| "knows s (PutCopied d) = (slot (sr_ring s) (length (sr_sent s) mod max_num_elems (sr_ring s)) = d)"
| "knows s (GetCopied d) = (d = sr_sent s ! length (sr_got s))"
| "knows s _ = True"

definition offsets_ok :: "nat \<Rightarrow> nat \<Rightarrow> shared_ring \<Rightarrow> bool" where
  "offsets_ok n es s \<longleftrightarrow> max_num_elems (sr_ring s) = n \<and> elem_size (sr_ring s) = es \<and>
     length (shm (sr_ring s)) = n * es \<and> first_elem (sr_ring s) = length (sr_got s) mod n * es \<and>
     last_elem (sr_ring s) = length (sr_sent s) mod n * es"

definition counts_ok :: "nat \<Rightarrow> ring_pc list \<Rightarrow> shared_ring \<Rightarrow> bool" where
  "counts_ok n ps s \<longleftrightarrow> threads_at critical ps + sr_mutex s = 1 \<and>
     sem_num_elems (sr_ring s) + threads_at holds_elem ps + threads_at owes_elem ps + length (sr_got s) = length (sr_sent s) \<and>
     sem_num_empty (sr_ring s) + threads_at holds_slot ps + threads_at owes_slot ps + length (sr_sent s) = n + length (sr_got s)"

definition logs_ok :: "nat \<Rightarrow> shared_ring \<Rightarrow> bool" where
  "logs_ok n s \<longleftrightarrow> sr_got s = take (length (sr_got s)) (sr_sent s) \<and>
     (\<forall>k. length (sr_got s) \<le> k \<and> k < length (sr_sent s) \<longrightarrow> slot (sr_ring s) (k mod n) = sr_sent s ! k)"

definition ring_inv :: "nat \<Rightarrow> nat \<Rightarrow> ring_pc list \<times> shared_ring \<Rightarrow> bool" where
  "ring_inv n es = (\<lambda>(ps, s). offsets_ok n es s \<and> counts_ok n ps s \<and> logs_ok n s \<and> (\<forall>p \<in> set ps. knows s p))"

lemma threads_at_update:
  "i < length ps \<Longrightarrow> threads_at P (ps[i := p]) + of_bool (P (ps ! i)) = threads_at P ps + of_bool (P p)"
proof (induction ps arbitrary: i)
  case (Cons a ps)
  then show ?case by (cases i) (auto simp: threads_at_def)
qed simp

lemma threads_at_pos: "p \<in> set ps \<Longrightarrow> P p \<Longrightarrow> 0 < threads_at P ps"
  by (auto simp: threads_at_def filter_empty_conv)

text \<open>Whoever is not the thread in the critical section is outside of it.\<close>

lemma only_one_critical:
  assumes "threads_at critical ps \<le> 1" "i < length ps" "critical (ps ! i)" "j < length ps" "j \<noteq> i"
  shows "\<not> critical (ps ! j)"
proof
  assume c: "critical (ps ! j)"
  have "threads_at critical (ps[i := Outside]) + 1 = threads_at critical ps"
    using threads_at_update[OF assms(2), of critical Outside] assms(3) by simp
  moreover have "ps ! j \<in> set (ps[i := Outside])"
    using assms(4,5) by (metis length_list_update nth_list_update_neq nth_mem)
  ultimately show False
    using threads_at_pos[of "ps ! j" "ps[i := Outside]" critical] c assms(1) by simp
qed

subsection \<open>Every step keeps it\<close>

lemma counts_step:
  assumes "counts_ok n ps s" "i < length ps" "thread_step (ps ! i) s = Some (p, s')"
  shows "counts_ok n (ps[i := p]) s'"
  using assms(1,3) threads_at_update[OF assms(2), of critical p] threads_at_update[OF assms(2), of holds_slot p]
    threads_at_update[OF assms(2), of holds_elem p] threads_at_update[OF assms(2), of owes_elem p]
    threads_at_update[OF assms(2), of owes_slot p]
  by (cases "ps ! i") (auto simp: counts_ok_def split: if_splits)

lemma index_step: "0 < es \<Longrightarrow> (k mod n * es + es) mod (n * es) = Suc k mod n * (es::nat)"
  using ring_step_index[of es "k mod n * es" n] by (simp add: mod_Suc_eq)

lemma offsets_step:
  assumes o: "offsets_ok n es s" and "0 < n" "0 < es" "knows s q" "thread_step q s = Some (p, s')"
  shows "offsets_ok n es s'"
proof -
  have "length (sr_sent s) mod n * es + es \<le> n * es"
    using assms(2) by (intro slot_end) simp
  then show ?thesis
    using assms by (cases q) (auto simp: offsets_ok_def length_memcpy buff_size_def index_step split: if_splits)
qed

text \<open>The writer that holds a slot writes behind the elements not yet read, the reader that holds one reads one of them.\<close>

lemma slot_free:
  assumes "counts_ok n ps s" "p \<in> set ps" "holds_slot p"
  shows "length (sr_sent s) < n + length (sr_got s)"
  using assms threads_at_pos[OF assms(2), of holds_slot] by (simp add: counts_ok_def)

lemma elem_there:
  assumes "counts_ok n ps s" "p \<in> set ps" "holds_elem p"
  shows "length (sr_got s) < length (sr_sent s)"
  using assms threads_at_pos[OF assms(2), of holds_elem] by (simp add: counts_ok_def)

lemma sent_bounds: "counts_ok n ps s \<Longrightarrow> length (sr_got s) \<le> length (sr_sent s) \<and> length (sr_sent s) \<le> n + length (sr_got s)"
  by (auto simp: counts_ok_def)

lemma slot_copied:
  assumes "offsets_ok n es s" "0 < n" "knows s (PutLocked d)" "thread_step (PutLocked d) s = Some (p, s')"
  shows "i < n \<Longrightarrow> slot (sr_ring s') i = (if i = length (sr_sent s) mod n then d else slot (sr_ring s) i)"
    and "sr_sent s' = sr_sent s" "sr_got s' = sr_got s" "p = PutCopied d" "max_num_elems (sr_ring s') = n"
  using assms memcpy_slot[of "shm (sr_ring s)" n es i "length (sr_sent s) mod n" d]
  by (auto simp: offsets_ok_def slot_def)

lemma other_slot:
  fixes k w g n :: nat
  assumes "g \<le> k" "k < w" "w < n + g"
  shows "k mod n \<noteq> w mod n"
  using mod_index_distinct[of "k - g" "w - g" n g] assms by simp

lemma logs_step:
  assumes l: "logs_ok n s" and o: "offsets_ok n es s" and "0 < n" and k: "knows s q"
    and c: "counts_ok n ps s" "q \<in> set ps" and t: "thread_step q s = Some (p, s')"
  shows "logs_ok n s'"
proof (cases q)
  case (PutLocked d)
  note e = slot_copied[OF o assms(3) k[unfolded PutLocked] t[unfolded PutLocked]]
  have "k mod n \<noteq> length (sr_sent s) mod n" if "length (sr_got s) \<le> k" "k < length (sr_sent s)" for k
    using other_slot[OF that slot_free[OF c]] PutLocked by simp
  then show ?thesis
    using l e assms(3) by (simp add: logs_ok_def)
next
  case (PutCopied d)
  then show ?thesis
    using l t k o sent_bounds[OF c(1)] by (auto simp: logs_ok_def offsets_ok_def slot_def nth_append less_Suc_eq)
next
  case (GetCopied d)
  then show ?thesis
    using l t k elem_there[OF c] by (auto simp: logs_ok_def take_Suc_conv_app_nth slot_def)
qed (use l t in \<open>auto simp: logs_ok_def slot_def split: if_splits\<close>)

lemma knows_own:
  assumes l: "logs_ok n s" and o: "offsets_ok n es s" and "0 < n" and k: "knows s q"
    and c: "counts_ok n ps s" "q \<in> set ps" and t: "thread_step q s = Some (p, s')"
  shows "knows s' p"
proof (cases q)
  case (PutLocked d)
  note e = slot_copied[OF o assms(3) k[unfolded PutLocked] t[unfolded PutLocked]]
  then show ?thesis
    using assms(3) by simp
next
  case GetLocked
  then have "slot (sr_ring s) (length (sr_got s) mod n) = sr_sent s ! length (sr_got s)"
    using l elem_there[OF c] by (simp add: logs_ok_def)
  then show ?thesis
    using GetLocked t o by (auto simp: offsets_ok_def slot_def)
qed (use k t in \<open>auto split: if_splits\<close>)

lemma knows_other:
  assumes "thread_step q s = Some (p, s')" "\<not> critical q \<or> \<not> critical r" "knows s r"
  shows "knows s' r"
  using assms by (cases q; cases r) (auto simp: slot_def split: if_splits)

lemma counts_call:
  assumes "i < length ps" "ps ! i = Outside" "counts_ok n ps s" "q = PutWaits d \<or> q = GetWaits"
  shows "counts_ok n (ps[i := q]) s"
  using assms(2-4) threads_at_update[OF assms(1), of critical q] threads_at_update[OF assms(1), of holds_slot q]
    threads_at_update[OF assms(1), of holds_elem q] threads_at_update[OF assms(1), of owes_elem q]
    threads_at_update[OF assms(1), of owes_slot q]
  by (auto simp: counts_ok_def)

lemma ring_inv_step:
  assumes "ring_step st st'" "ring_inv n es st" "0 < n" "0 < es"
  shows "ring_inv n es st'"
  using assms(1)
proof cases
  case (move i ps s p s')
  have c: "counts_ok n ps s" and o: "offsets_ok n es s" and l: "logs_ok n s" and k: "\<forall>p \<in> set ps. knows s p"
    using assms(2) move(1) by (simp_all add: ring_inv_def)
  have q: "ps ! i \<in> set ps" "knows s (ps ! i)"
    using move(3) k by simp_all
  have "knows s' r" if r: "r \<in> set (ps[i := p])" for r
  proof -
    obtain j where j: "j < length ps" "r = ps[i := p] ! j"
      using r by (metis in_set_conv_nth length_list_update)
    show ?thesis
    proof (cases "j = i")
      case True
      then show ?thesis using knows_own[OF l o assms(3) q(2) c q(1) move(4)] j move(3) by simp
    next
      case False
      have "threads_at critical ps \<le> 1" using c by (auto simp: counts_ok_def)
      then have "\<not> critical (ps ! i) \<or> \<not> critical (ps ! j)"
        using only_one_critical[of ps i j] move(3) j(1) False by blast
      then show ?thesis using knows_other[OF move(4)] k j False by simp
    qed
  qed
  then show ?thesis
    using counts_step[OF c move(3,4)] offsets_step[OF o assms(3,4) q(2) move(4)]
      logs_step[OF l o assms(3) q(2) c q(1) move(4)] move(2) by (simp add: ring_inv_def)
next
  case (call_write i ps d s)
  then show ?thesis
    using assms(2) counts_call[OF call_write(3,4), of n s "PutWaits d"]
    by (auto simp: ring_inv_def dest!: set_update_subset_insert[THEN subsetD])
next
  case (call_read i ps s)
  then show ?thesis
    using assms(2) counts_call[OF call_read(3,4), of n s GetWaits]
    by (auto simp: ring_inv_def dest!: set_update_subset_insert[THEN subsetD])
qed

lemma ring_inv_start: "0 < n \<Longrightarrow> 0 < es \<Longrightarrow> ring_inv n es (ring_start threads n es)"
  by (auto simp: ring_inv_def ring_start_def offsets_ok_def counts_ok_def logs_ok_def queue_init_def threads_at_def)

lemma ring_runs_inv:
  assumes "ring_runs (ring_start threads n es) st" "0 < n" "0 < es"
  shows "ring_inv n es st"
  using assms(1) by (induction rule: rtranclp_induct) (auto intro: ring_inv_start ring_inv_step assms(2,3))

subsection \<open>Properties\<close>

text \<open>The elements that have been written and not read.\<close>

definition pending :: "shared_ring \<Rightarrow> string list" where
  "pending s = drop (length (sr_got s)) (sr_sent s)"

lemma pending_move:
  assumes i: "ring_inv n es (ps, s)" and "j < length ps" and t: "thread_step (ps ! j) s = Some (p, s')"
  shows "(case ps ! j of
      PutCopied d \<Rightarrow> p = PutAdvanced \<and> pending s' = pending s @ [d] \<and> length (pending s) < n
    | GetCopied d \<Rightarrow> p = GetAdvanced d \<and> pending s = d # pending s'
    | _ \<Rightarrow> pending s' = pending s)"
proof -
  have c: "counts_ok n ps s" and k: "knows s (ps ! j)" and q: "ps ! j \<in> set ps"
    using i assms(2) by (simp_all add: ring_inv_def)
  show ?thesis
  proof (cases "ps ! j")
    case (PutCopied d)
    then show ?thesis
      using t slot_free[OF c q] sent_bounds[OF c] by (auto simp: pending_def)
  next
    case (GetCopied d)
    then show ?thesis
      using t elem_there[OF c q] k by (auto simp: pending_def Cons_nth_drop_Suc)
  qed (use t in \<open>auto simp: pending_def split: if_splits\<close>)
qed

text \<open>When no call is under way the ring is in a state of \<open>RingQueue\<close>, and holds what is pending.\<close>

lemma quiet_ring:
  assumes "ring_inv n es (ps, s)" and "0 < n" and "0 < es" and "\<forall>p \<in> set ps. p = Outside"
  shows "ring_ok (sr_ring s) \<and> ring_contents (sr_ring s) = pending s"
proof -
  have i: "offsets_ok n es s" "counts_ok n ps s" "logs_ok n s"
    using assms(1) by (simp_all add: ring_inv_def)
  let ?g = "length (sr_got s)" and ?w = "length (sr_sent s)"
  have "threads_at P ps = 0" if "\<not> P Outside" for P
    using that assms(4) by (auto simp: threads_at_def filter_empty_conv)
  then have c: "sem_num_elems (sr_ring s) + ?g = ?w" "sem_num_empty (sr_ring s) + ?w = n + ?g"
    using i(2) by (simp_all add: counts_ok_def)
  have o: "ring_ok (sr_ring s)"
    using i(1) c assms(2,3) c(1)[symmetric]
    by (auto simp: ring_ok_def offsets_ok_def buff_size_def mod_add_left_eq mod_add_right_eq add.commute simp del: mod_mult_self1)
  have "ring_contents (sr_ring s) = map (\<lambda>k. slot (sr_ring s) ((?g + k) mod n)) [0 ..< sem_num_elems (sr_ring s)]"
    using i(1) assms(3) by (simp add: ring_contents_def offsets_ok_def mod_add_left_eq)
  also have "\<dots> = pending s"
    using i(3) c by (intro nth_equalityI) (auto simp: logs_ok_def pending_def)
  finally show ?thesis using o by blast
qed
text \<open>C4: Reads and writes of the ring by any number of threads at once are those of a bounded queue. Each
  write takes effect in one step between its call and its return, when it moves the offset: it puts
  its element behind the others, of which there are then less than the size; each read, in the step
  that moves its offset, takes the first of them, and returns it; every other step leaves the queue
  alone. At most one thread is in its critical section; and while no call is under way, the
  memory, the offsets and the counts are those of a ring that holds the queue.\<close>

theorem ring_steps_refine_queue:
  assumes "ring_runs (ring_start threads n es) (ps, s)" and "0 < n" and "0 < es"
    and "j < length ps" and "thread_step (ps ! j) s = Some (p, s')"
  shows "(case ps ! j of
      PutCopied d \<Rightarrow> p = PutAdvanced \<and> pending s' = pending s @ [d] \<and> length (pending s) < n
    | GetCopied d \<Rightarrow> p = GetAdvanced d \<and> pending s = d # pending s'
    | _ \<Rightarrow> pending s' = pending s) \<and>
    threads_at critical (ps[j := p]) \<le> 1 \<and>
    (list_all (\<lambda>q. q = Outside) (ps[j := p]) \<longrightarrow> ring_ok (sr_ring s') \<and> ring_contents (sr_ring s') = pending s')"
proof -
  have i: "ring_inv n es (ps, s)"
    by (rule ring_runs_inv[OF assms(1-3)])
  have "ring_inv n es (ps[j := p], s')"
    using ring_inv_step[OF move[OF assms(4,5)] i assms(2,3)] .
  moreover from this have "threads_at critical (ps[j := p]) \<le> 1"
    by (auto simp: ring_inv_def counts_ok_def)
  ultimately show ?thesis
    using pending_move[OF i assms(4,5)] quiet_ring assms(2,3) by (simp add: list_all_iff)
qed

definition one_put :: "ring_pc list \<times> shared_ring" where
  "one_put = (\<lambda>(p, s). ([p, Outside], s))
     (the (thread_step (PutLocked ''ab'') (snd (the (thread_step (PutReserved ''ab'')
       (snd (the (thread_step (PutWaits ''ab'') (snd (ring_start 2 3 2))))))))))"

lemma one_put_runs: "ring_runs (ring_start 2 3 2) one_put"
proof -
  let ?s0 = "snd (ring_start 2 3 2)"
  let ?s1 = "snd (the (thread_step (PutWaits ''ab'') ?s0))"
  let ?s2 = "snd (the (thread_step (PutReserved ''ab'') ?s1))"
  have "ring_runs (ring_start 2 3 2) ([PutWaits ''ab'', Outside], ?s0)"
    using call_write[of 0 "[Outside, Outside]" "''ab''" ?s0]
    by (intro r_into_rtranclp) (simp add: ring_start_def numeral_2_eq_2)
  also have "ring_step ([PutWaits ''ab'', Outside], ?s0) ([PutReserved ''ab'', Outside], ?s1)"
    using move[of 0 "[PutWaits ''ab'', Outside]" ?s0] by (simp add: ring_start_def queue_init_def)
  also have "ring_step ([PutReserved ''ab'', Outside], ?s1) ([PutLocked ''ab'', Outside], ?s2)"
    using move[of 0 "[PutReserved ''ab'', Outside]" ?s1] by (simp add: ring_start_def queue_init_def)
  also have "ring_step ([PutLocked ''ab'', Outside], ?s2) one_put"
    using move[of 0 "[PutLocked ''ab'', Outside]" ?s2] by (simp add: one_put_def)
  finally show ?thesis by simp
qed

lemma ring_steps_refine_queue_witness:
  "\<exists>s'. thread_step (PutCopied ''ab'') (snd one_put) = Some (PutAdvanced, s') \<and> pending s' = [''ab'']"
proof -
  have p: "fst one_put = [PutCopied ''ab'', Outside]"
    by (simp add: one_put_def)
  obtain s' where t: "thread_step (PutCopied ''ab'') (snd one_put) = Some (PutAdvanced, s')"
    by simp
  have "pending (snd one_put) = []" by code_simp
  moreover have "ring_runs (ring_start 2 3 2) ([PutCopied ''ab'', Outside], snd one_put)"
    using one_put_runs by (simp flip: p)
  ultimately show ?thesis
    using ring_steps_refine_queue[of 2 3 2 "[PutCopied ''ab'', Outside]" "snd one_put" 0 PutAdvanced s'] t by simp
qed

text \<open>C5: Nobody waits without a reason. When no thread inside a call of the ring can move, the mutex is free and
  every thread that has not returned waits on a counting semaphore: the writers for a ring that is
  full, the readers for one that is empty, and so not both.\<close>

theorem ring_never_stuck:
  assumes "ring_runs (ring_start threads n es) (ps, s)" and "0 < n" and "0 < es"
    and "\<forall>i < length ps. thread_step (ps ! i) s = None"
  shows "sr_mutex s = 1 \<and> (\<forall>p \<in> set ps. p = Outside \<or> (\<exists>d. p = PutWaits d \<and> length (pending s) = n) \<or>
      (p = GetWaits \<and> pending s = []))"
proof -
  have c: "counts_ok n ps s"
    using ring_runs_inv[OF assms(1-3)] by (simp add: ring_inv_def)
  have stuck: "thread_step p s = None" if "p \<in> set ps" for p
    using that assms(4) by (auto simp: in_set_conv_nth)
  have none: "threads_at P ps = 0" if "\<And>p. p \<in> set ps \<Longrightarrow> \<not> P p" for P
    using that by (simp add: threads_at_def filter_empty_conv)
  have nc: "\<not> critical p" "\<not> owes_elem p" "\<not> owes_slot p" if "p \<in> set ps" for p
    using stuck[OF that] by (cases p; simp)+
  then have m: "sr_mutex s = 1"
    using c none[of critical] by (simp add: counts_ok_def)
  then have nh: "\<not> holds_slot p" "\<not> holds_elem p" if "p \<in> set ps" for p
    using stuck[OF that] nc(1)[OF that] by (cases p; simp)+
  have l: "sem_num_elems (sr_ring s) = length (pending s)" "sem_num_empty (sr_ring s) + length (pending s) = n"
    using c none[of holds_elem] none[of owes_elem] none[of holds_slot] none[of owes_slot] nc nh
    by (auto simp: counts_ok_def pending_def)
  have "p = Outside \<or> (\<exists>d. p = PutWaits d \<and> length (pending s) = n) \<or> (p = GetWaits \<and> pending s = [])"
    if "p \<in> set ps" for p
    using stuck[OF that] nc[OF that] nh[OF that] l by (cases p) (auto split: if_splits)
  with m show ?thesis by blast
qed

lemma ring_never_stuck_witness:
  "ring_runs (ring_start 2 3 2) ([GetWaits, GetWaits], snd (ring_start 2 3 2)) \<and>
   sr_mutex (snd (ring_start 2 3 2)) = 1 \<and> pending (snd (ring_start 2 3 2)) = []"
proof -
  let ?s = "snd (ring_start 2 3 2)"
  have "ring_runs (ring_start 2 3 2) ([GetWaits, Outside], ?s)"
    using call_read[of 0 "[Outside, Outside]" ?s]
    by (intro r_into_rtranclp) (simp add: ring_start_def numeral_2_eq_2)
  also have "ring_step ([GetWaits, Outside], ?s) ([GetWaits, GetWaits], ?s)"
    using call_read[of 1 "[GetWaits, Outside]" ?s] by simp
  finally have r: "ring_runs (ring_start 2 3 2) ([GetWaits, GetWaits], ?s)" by simp
  have "\<forall>i < length [GetWaits, GetWaits]. thread_step ([GetWaits, GetWaits] ! i) ?s = None"
    by (auto simp: ring_start_def queue_init_def less_Suc_eq)
  from ring_never_stuck[OF r _ _ this] r show ?thesis by simp
qed

end
