(* ===== verification/Waiting.thy ===== *)
theory Waiting
  imports Committing
begin

text \<open>
  The two waiting lists of \<open>CapioFileManager\<close>: which threads a check releases, what they are
  answered, which stay, and that a thread is answered once and then forgotten. The test that
  decides is \<open>released\<close>; it does not mention the size the thread waits for.
\<close>

subsection \<open>Answers\<close>

definition answered :: "tid set \<Rightarrow> u64 \<Rightarrow> (tid \<rightharpoonup> u64 list) \<Rightarrow> (tid \<rightharpoonup> u64 list)" where
  "answered T v B = (\<lambda>t. if t \<in> T then map_option (\<lambda>b. b @ [v]) (B t) else B t)"

lemma answered_empty [simp]: "answered {} v B = B"
  by (simp add: answered_def)

lemma answered_Un: "S \<inter> T = {} \<Longrightarrow> answered S v (answered T v B) = answered (S \<union> T) v B"
  by (auto simp: answered_def fun_eq_iff)

definition has_room :: "client_manager \<Rightarrow> tid \<Rightarrow> bool" where
  "has_room cm t \<longleftrightarrow> (\<exists>b. bufs_response cm t = Some b \<and> length b < CAPIO_REQ_BUFF_CNT)"

lemma reply_answered:
  "reply_to_client t v cm = Inr cm' \<Longrightarrow>
     cm' = cm\<lparr>bufs_response := answered {t} v (bufs_response cm)\<rparr>"
  by (cases cm) (auto simp: reply_Inr answered_def fun_eq_iff)

lemma reply_room: "has_room cm t \<Longrightarrow> \<exists>cm'. reply_to_client t v cm = Inr cm'"
  by (auto simp: has_room_def reply_Inr)

lemma has_room_answered: "t \<notin> T \<Longrightarrow>
    has_room (cm\<lparr>bufs_response := answered T v (bufs_response cm)\<rparr>) t = has_room cm t"
  by (simp add: has_room_def answered_def)

lemma reply_all_answered:
  "reply_all ts v cm = Inr cm' \<Longrightarrow> distinct ts \<Longrightarrow>
     cm' = cm\<lparr>bufs_response := answered (set ts) v (bufs_response cm)\<rparr>"
proof (induction ts arbitrary: cm)
  case (Cons t ts)
  then obtain cm1 where 1: "reply_to_client t v cm = Inr cm1" "reply_all ts v cm1 = Inr cm'"
    by (auto simp: res_simps)
  have "set ts \<inter> {t} = {}" using Cons.prems(2) by simp
  with Cons.IH[OF 1(2)] reply_answered[OF 1(1)] Cons.prems(2) show ?case
    by (simp add: answered_Un)
qed simp

lemma reply_all_room:
  "\<forall>t \<in> set ts. has_room cm t \<Longrightarrow> distinct ts \<Longrightarrow> \<exists>cm'. reply_all ts v cm = Inr cm'"
proof (induction ts arbitrary: cm)
  case (Cons t ts)
  then obtain cm1 where 1: "reply_to_client t v cm = Inr cm1" using reply_room by fastforce
  have "\<forall>u \<in> set ts. has_room cm1 u"
  proof
    fix u assume u: "u \<in> set ts"
    with Cons.prems(2) have "u \<notin> {t}" by auto
    with u Cons.prems(1) show "has_room cm1 u"
      using reply_answered[OF 1] by (simp add: has_room_answered)
  qed
  with Cons 1 show ?case by simp
qed simp

subsection \<open>Waiting for a file to be created\<close>

definition creation_waiters :: "server \<Rightarrow> string \<Rightarrow> tid list" where
  "creation_waiters s p =
     (case map_of (thread_awaiting_file_creation (srv_fm s)) p of None \<Rightarrow> [] | Some ts \<Rightarrow> ts)"

lemma creation_waiters_add:
  "creation_waiters (addThreadAwaitingCreation p t s) q =
     (if q = p then creation_waiters s p @ [t] else creation_waiters s q)"
  by (auto simp: creation_waiters_def addThreadAwaitingCreation_def Let_def umap_simps
      split: option.splits)

lemma unlockThreadAwaitingCreation_Inr:
  "unlockThreadAwaitingCreation p s = Inr s' \<longleftrightarrow>
     (\<exists>cm. reply_all (creation_waiters s p) 1 (srv_clients s) = Inr cm \<and>
        s' = deleteFileAwaitingCreation p (s\<lparr>srv_clients := cm\<rparr>))"
  by (auto simp: unlockThreadAwaitingCreation_def creation_waiters_def res_simps split: option.splits)

lemma creation_waiters_delete:
  "creation_waiters (deleteFileAwaitingCreation p s) q = (if q = p then [] else creation_waiters s q)"
  by (auto simp: creation_waiters_def deleteFileAwaitingCreation_def umap_simps split: option.splits)

lemma unlockThreadAwaitingCreation_answers:
  assumes "distinct (creation_waiters s p)" and "\<forall>t \<in> set (creation_waiters s p). has_room (srv_clients s) t"
  shows "\<exists>s'. unlockThreadAwaitingCreation p s = Inr s' \<and>
     bufs_response (srv_clients s') =
       answered (set (creation_waiters s p)) 1 (bufs_response (srv_clients s)) \<and>
     (\<forall>q. creation_waiters s' q = (if q = p then [] else creation_waiters s q)) \<and>
     srv_fs s' = srv_fs s \<and> srv_engine s' = srv_engine s \<and>
     thread_awaiting_data (srv_fm s') = thread_awaiting_data (srv_fm s)"
proof -
  obtain cm where cm: "reply_all (creation_waiters s p) 1 (srv_clients s) = Inr cm"
    using reply_all_room[OF assms(2,1)] by blast
  define s1 where "s1 = s\<lparr>srv_clients := cm\<rparr>"
  have "unlockThreadAwaitingCreation p s = Inr (deleteFileAwaitingCreation p s1)"
    using cm by (simp add: unlockThreadAwaitingCreation_Inr s1_def)
  moreover have "creation_waiters s1 = creation_waiters s"
    by (simp add: fun_eq_iff creation_waiters_def s1_def)
  moreover have "bufs_response (srv_clients (deleteFileAwaitingCreation p s1)) =
      answered (set (creation_waiters s p)) 1 (bufs_response (srv_clients s))"
    using reply_all_answered[OF cm assms(1)] by (simp add: deleteFileAwaitingCreation_def s1_def)
  moreover have "srv_fs (deleteFileAwaitingCreation p s1) = srv_fs s"
    "srv_engine (deleteFileAwaitingCreation p s1) = srv_engine s"
    "thread_awaiting_data (srv_fm (deleteFileAwaitingCreation p s1)) = thread_awaiting_data (srv_fm s)"
    by (simp_all add: deleteFileAwaitingCreation_def s1_def)
  ultimately show ?thesis by (simp add: creation_waiters_delete)
qed

subsection \<open>Waiting for data\<close>

text \<open>What lets a waiting thread go on: the test of the loop, on a fixed file system.\<close>

definition released :: "server \<Rightarrow> string \<Rightarrow> bool \<Rightarrow> u64 \<Rightarrow> tid \<Rightarrow> bool" where
  "released s path is_comm sz t \<longleftrightarrow> is_comm \<or>
     isProducer (srv_clients s) (srv_engine s) path t = Inr True \<or>
     (sz \<le> word_of_int t \<and> getFireRule (srv_engine s) path = CAPIO_FILE_MODE_NO_UPDATE)"

lemma isProducer_app_names:
  "app_names cm = app_names cm' \<Longrightarrow> isProducer cm eng p t = isProducer cm' eng p t"
  by (simp add: isProducer_def get_app_name_def)

lemma isCommitted_clients:
  "isCommitted env p s = Inr (c, s) \<Longrightarrow>
     isCommitted env p (s\<lparr>srv_clients := cm\<rparr>) = Inr (c, s\<lparr>srv_clients := cm\<rparr>)"
  by (auto simp: isCommitted_Inr) (metis server.surjective server.update_convs(2,4))

lemma released_clients:
  "app_names cm = app_names (srv_clients s) \<Longrightarrow>
     released (s\<lparr>srv_clients := cm\<rparr>) p c v t = released s p c v t"
  using isProducer_app_names[of cm "srv_clients s"] by (simp add: released_def)

lemma unlock_loop_partition:
  "unlock_loop env path items s = Inr (kept, s') \<Longrightarrow> umap_wf items \<Longrightarrow>
   isCommitted env path s = Inr (c, s) \<Longrightarrow> filesize_of (srv_fs s) path = Inr v \<Longrightarrow>
     kept = filter (\<lambda>(t, _). \<not> released s path c v t) items \<and>
     s' = s\<lparr>srv_clients := (srv_clients s)\<lparr>bufs_response :=
       answered {t \<in> fst ` set items. released s path c v t} v (bufs_response (srv_clients s))\<rparr>\<rparr>"
proof (induction items arbitrary: s kept)
  case Nil
  then show ?case by simp
next
  case (Cons it items)
  obtain t e where it: "it = (t, e)" by (cases it)
  from Cons.prems(2) have t: "t \<notin> fst ` set items" and wf: "umap_wf items"
    by (auto simp: it umap_wf_def)
  from Cons.prems(1,3,4) obtain pr where pr: "isProducer (srv_clients s) (srv_engine s) path t = Inr pr"
    by (auto simp: it res_simps)
  let ?cond = "c \<or> pr \<or> v \<le> word_of_int t \<and> getFireRule (srv_engine s) path = CAPIO_FILE_MODE_NO_UPDATE"
  have rel: "released s path c v t \<longleftrightarrow> ?cond" by (auto simp: released_def pr)
  show ?case
  proof (cases ?cond)
    case True
    with Cons.prems(1,3,4) pr obtain cm where cm: "reply_to_client t v (srv_clients s) = Inr cm"
      "unlock_loop env path items (s\<lparr>srv_clients := cm\<rparr>) = Inr (kept, s')"
      by (auto simp: it res_simps)
    note cm1 = reply_answered[OF cm(1)]
    have names: "app_names cm = app_names (srv_clients s)" by (simp add: cm1)
    from Cons.IH[OF cm(2) wf isCommitted_clients[OF Cons.prems(3)]] Cons.prems(4)
    have IH: "kept = filter (\<lambda>(t, _). \<not> released s path c v t) items"
      "s' = s\<lparr>srv_clients := cm\<lparr>bufs_response :=
         answered {t \<in> fst ` set items. released s path c v t} v (bufs_response cm)\<rparr>\<rparr>"
      by (simp_all add: released_clients[OF names])
    have "{u \<in> fst ` set (it # items). released s path c v u} =
        {u \<in> fst ` set items. released s path c v u} \<union> {t}"
      using True rel by (auto simp: it)
    moreover have "{u \<in> fst ` set items. released s path c v u} \<inter> {t} = {}" using t by auto
    ultimately show ?thesis using IH True rel cm1
      by (simp add: it answered_Un)
  next
    case False
    with Cons.prems(1,3,4) pr obtain k where k: "unlock_loop env path items s = Inr (k, s')"
      "kept = (t, e) # k"
      by (auto simp: it res_simps)
    have "{u \<in> fst ` set (it # items). released s path c v u} =
        {u \<in> fst ` set items. released s path c v u}"
      using False rel by (auto simp: it)
    with Cons.IH[OF k(1) wf Cons.prems(3,4)] k(2) False rel show ?thesis by (simp add: it)
  qed
qed

lemma unlock_loop_progress:
  "umap_wf items \<Longrightarrow> isCommitted env path s = Inr (c, s) \<Longrightarrow> filesize_of (srv_fs s) path = Inr v \<Longrightarrow>
   \<forall>(t, e) \<in> set items. has_room (srv_clients s) t \<and>
     (\<exists>b. isProducer (srv_clients s) (srv_engine s) path t = Inr b) \<Longrightarrow>
     \<exists>kept s'. unlock_loop env path items s = Inr (kept, s')"
proof (induction items arbitrary: s)
  case Nil
  then show ?case by simp
next
  case (Cons it items)
  obtain t e where it: "it = (t, e)" by (cases it)
  from Cons.prems(1) have t: "t \<notin> fst ` set items" and wf: "umap_wf items"
    by (auto simp: it umap_wf_def)
  from Cons.prems(4) obtain pr where pr: "isProducer (srv_clients s) (srv_engine s) path t = Inr pr"
    by (auto simp: it)
  from Cons.prems(4) obtain cm where cm: "reply_to_client t v (srv_clients s) = Inr cm"
    using reply_room by (fastforce simp: it)
  note cm1 = reply_answered[OF cm]
  have names: "app_names cm = app_names (srv_clients s)" by (simp add: cm1)
  have "\<forall>(u, e) \<in> set items. has_room cm u \<and> (\<exists>b. isProducer cm (srv_engine s) path u = Inr b)"
  proof clarify
    fix u d assume u: "(u, d) \<in> set items"
    with t have "u \<notin> {t}" by force
    with u Cons.prems(4) show "has_room cm u \<and> (\<exists>b. isProducer cm (srv_engine s) path u = Inr b)"
      using isProducer_app_names[OF names] by (auto simp: cm1 has_room_answered)
  qed
  then have "\<exists>kept s'. unlock_loop env path items (s\<lparr>srv_clients := cm\<rparr>) = Inr (kept, s')"
    using Cons.IH[OF wf isCommitted_clients[OF Cons.prems(2)]] Cons.prems(3) by simp
  moreover have "\<exists>kept s'. unlock_loop env path items s = Inr (kept, s')"
    using Cons.IH[OF wf Cons.prems(2,3)] Cons.prems(4) by auto
  ultimately show ?case using Cons.prems(2,3) pr cm by (auto simp: it)
qed

definition data_waiters :: "server \<Rightarrow> string \<Rightarrow> (tid, u64) umap" where
  "data_waiters s p = (case map_of (thread_awaiting_data (srv_fm s)) p of None \<Rightarrow> [] | Some th \<Rightarrow> th)"

lemma data_waiters_add:
  "data_waiters (addThreadAwaitingData p t n s) q =
     (if q = p then emplace t n (data_waiters s p) else data_waiters s q)"
  by (auto simp: data_waiters_def addThreadAwaitingData_def Let_def umap_simps split: option.splits)

lemma checkAndUnlock_partition:
  assumes "checkAndUnlockThreadAwaitingData env path s = Inr s'" and "umap_wf (data_waiters s path)"
    and "isCommitted env path s = Inr (c, s)" and "filesize_of (srv_fs s) path = Inr v"
  shows "data_waiters s' q = (if q = path
       then filter (\<lambda>(t, _). \<not> released s path c v t) (data_waiters s path) else data_waiters s q)"
    and "bufs_response (srv_clients s') = answered
       {t \<in> fst ` set (data_waiters s path). released s path c v t} v (bufs_response (srv_clients s))"
    and "srv_fs s' = srv_fs s"
proof -
  consider "map_of (thread_awaiting_data (srv_fm s)) path = None" "s' = s"
    | kept s1 where "unlock_loop env path (data_waiters s path) s = Inr (kept, s1)"
      "map_of (thread_awaiting_data (srv_fm s)) path \<noteq> None"
      "s' = s1\<lparr>srv_fm := (srv_fm s1)\<lparr>thread_awaiting_data :=
        (if kept = [] then AList.delete path (thread_awaiting_data (srv_fm s1))
         else AList.update path kept (thread_awaiting_data (srv_fm s1)))\<rparr>\<rparr>"
    using assms(1)
    by (auto simp: checkAndUnlockThreadAwaitingData_def data_waiters_def res_simps split: option.splits)
  then have "data_waiters s' q = (if q = path
       then filter (\<lambda>(t, _). \<not> released s path c v t) (data_waiters s path) else data_waiters s q) \<and>
    bufs_response (srv_clients s') = answered
       {t \<in> fst ` set (data_waiters s path). released s path c v t} v (bufs_response (srv_clients s)) \<and>
    srv_fs s' = srv_fs s"
  proof cases
    case 1
    then show ?thesis by (simp add: data_waiters_def)
  next
    case (2 kept s1)
    from unlock_loop_partition[OF 2(1) assms(2-4)] 2(3) show ?thesis
      by (auto simp: data_waiters_def umap_simps)
  qed
  then show "data_waiters s' q = (if q = path
       then filter (\<lambda>(t, _). \<not> released s path c v t) (data_waiters s path) else data_waiters s q)"
    "bufs_response (srv_clients s') = answered
       {t \<in> fst ` set (data_waiters s path). released s path c v t} v (bufs_response (srv_clients s))"
    "srv_fs s' = srv_fs s" by blast+
qed

subsection \<open>Properties\<close>

lemma isCommitted_same:
  "is_committed (stack_depth env) env (srv_engine s) p (srv_fs s) = Inr (c, srv_fs s) \<Longrightarrow>
     isCommitted env p s = Inr (c, s)"
  by (simp add: isCommitted_Inr)

text \<open>C20: A check of the threads that wait for data of a path answers exactly those the condition of the source
  releases, once each and with the size of the file, drops them from the list, and keeps the others in
  order; no other list changes. A thread is released when the path is committed, when the application of
  the thread produces it, or when the file may be read while it grows and its size does not exceed the
  number of the thread: the source compares the size with the key of the table, the thread id, and not
  with the bound that was asked for. The commit test is taken to succeed without making directories for
  tokens, and the size to be there; then no file changes either.\<close>

theorem data_check_releases:
  assumes "checkAndUnlockThreadAwaitingData env path s = Inr s'" and "umap_wf (data_waiters s path)"
    and "isCommitted env path s = Inr (c, s)" and "filesize_of (srv_fs s) path = Inr v"
  shows "data_waiters s' path = filter (\<lambda>(t, _). \<not> released s path c v t) (data_waiters s path) \<and>
    (\<forall>q. q \<noteq> path \<longrightarrow> data_waiters s' q = data_waiters s q) \<and>
    (\<forall>t. bufs_response (srv_clients s') t =
       (if t \<in> fst ` set (data_waiters s path) \<and> released s path c v t
        then map_option (\<lambda>b. b @ [v]) (bufs_response (srv_clients s) t)
        else bufs_response (srv_clients s) t)) \<and>
    srv_fs s' = srv_fs s"
  using checkAndUnlock_partition[OF assms] by (simp add: answered_def)

definition waiting_server :: server where
  "waiting_server = \<lparr>srv_engine = (''/d/p'', (new_entry CAPIO_FILE_COMMITTED_ON_CLOSE CAPIO_FILE_MODE_UPDATE)
       \<lparr>e_producers := [''a'']\<rparr>) # sample_engine,
     srv_clients = register_new_client 5 ''a'' (register_new_client 6 ''b'' client_manager_init),
     srv_fm = \<lparr>thread_awaiting_file_creation = [(''/d/q'', [6])],
       thread_awaiting_data = [(''/d/p'', [(5, 10), (6, 10)])]\<rparr>,
     srv_fs = sample_fs\<rparr>"

lemma data_check_releases_witness:
  "\<exists>s'. checkAndUnlockThreadAwaitingData sample_env ''/d/p'' waiting_server = Inr s' \<and>
     data_waiters s' ''/d/p'' = [(6, 10)] \<and> bufs_response (srv_clients s') 5 = Some [0] \<and>
     bufs_response (srv_clients s') 6 = Some []"
proof -
  let ?s = waiting_server
  have "case checkAndUnlockThreadAwaitingData sample_env ''/d/p'' ?s of Inl _ \<Rightarrow> False | Inr _ \<Rightarrow> True"
    by code_simp
  then obtain s' where s': "checkAndUnlockThreadAwaitingData sample_env ''/d/p'' ?s = Inr s'"
    by (auto split: sum.splits)
  have "is_committed (stack_depth sample_env) sample_env (srv_engine ?s) ''/d/p'' (srv_fs ?s) =
      Inr (False, srv_fs ?s)"
    by code_simp
  then have c: "isCommitted sample_env ''/d/p'' ?s = Inr (False, ?s)" by (rule isCommitted_same)
  have w: "data_waiters ?s ''/d/p'' = [(5, 10), (6, 10)]" by code_simp
  have v: "filesize_of (srv_fs ?s) ''/d/p'' = Inr 0" by code_simp
  have r: "released ?s ''/d/p'' False 0 5" "\<not> released ?s ''/d/p'' False 0 6"
    "bufs_response (srv_clients ?s) 5 = Some []" "bufs_response (srv_clients ?s) 6 = Some []"
    by code_simp+
  from data_check_releases[OF s' _ c v] s' show ?thesis by (simp add: w r umap_wf_def)
qed

text \<open>The size a thread waits for plays no part: with other sizes in the list the same threads are
  released and answered, because the loop compares the size of the file with the id of the
  thread.\<close>

theorem expected_size_ignored:
  assumes "unlock_loop env path items s = Inr (kept, s')"
  shows "unlock_loop env path (map (\<lambda>(t, e). (t, g t e)) items) s = Inr (map (\<lambda>(t, e). (t, g t e)) kept, s')"
  using assms
proof (induction env path items s arbitrary: kept rule: unlock_loop.induct)
  case (2 env path t expected items s)
  from 2(3) obtain filesize committed s1 is_producer where
    c: "filesize_of (srv_fs s) path = Inr filesize" "isCommitted env path s = Inr (committed, s1)"
      "isProducer (srv_clients s1) (srv_engine s1) path t = Inr is_producer"
    by (auto simp: res_simps Let_def)
  let ?cond = "committed \<or> is_producer \<or> filesize \<le> word_of_int t \<and>
      getFireRule (srv_engine s1) path = CAPIO_FILE_MODE_NO_UPDATE"
  show ?case
  proof (cases ?cond)
    case True
    with 2(3) c obtain v cm where v: "filesize_of (srv_fs s1) path = Inr v"
        "reply_to_client t v (srv_clients s1) = Inr cm"
        "unlock_loop env path items (s1\<lparr>srv_clients := cm\<rparr>) = Inr (kept, s')"
      by (auto simp: res_simps)
    from 2(1)[OF c(1,2) refl refl refl c(3) True v(1,2,3)] True c v show ?thesis by auto
  next
    case False
    with 2(3) c obtain k where k: "unlock_loop env path items s1 = Inr (k, s')" "kept = (t, expected) # k"
      by (auto simp: res_simps)
    from 2(2)[OF c(1,2) refl refl refl c(3) False k(1)] False c k show ?thesis by auto
  qed
qed simp

lemma expected_size_ignored_witness:
  "\<exists>s' k. unlock_loop sample_env ''/d/p'' [(6, 10)] waiting_server = Inr (k, s') \<and>
     unlock_loop sample_env ''/d/p'' [(6, 0)] waiting_server = Inr (map (\<lambda>(t, e). (t, 0)) k, s')"
proof -
  have "case unlock_loop sample_env ''/d/p'' [(6, 10)] waiting_server of Inl _ \<Rightarrow> False | Inr _ \<Rightarrow> True"
    by code_simp
  then obtain k s' where "unlock_loop sample_env ''/d/p'' [(6, 10)] waiting_server = Inr (k, s')"
    by (auto split: sum.splits)
  with expected_size_ignored[OF this, of "\<lambda>_ _. 0"] show ?thesis by auto
qed

text \<open>A thread that asks to be woken when a path appears is woken exactly once: unlocking the path
  answers one to every thread of its list, provided each is registered and has room for an answer,
  and empties the list; the lists of other paths stay.\<close>

theorem creation_unlock_answers:
  assumes "distinct (creation_waiters s p)" and "\<forall>t \<in> set (creation_waiters s p). has_room (srv_clients s) t"
  shows "\<exists>s'. unlockThreadAwaitingCreation p s = Inr s' \<and>
     (\<forall>t. bufs_response (srv_clients s') t =
        (if t \<in> set (creation_waiters s p) then map_option (\<lambda>b. b @ [1]) (bufs_response (srv_clients s) t)
         else bufs_response (srv_clients s) t)) \<and>
     (\<forall>q. creation_waiters s' q = (if q = p then [] else creation_waiters s q)) \<and> srv_fs s' = srv_fs s"
  using unlockThreadAwaitingCreation_answers[OF assms] by (auto simp: answered_def)

lemma creation_unlock_answers_witness:
  "\<exists>s'. unlockThreadAwaitingCreation ''/d/q'' waiting_server = Inr s' \<and>
     bufs_response (srv_clients s') 6 = Some [1] \<and> creation_waiters s' ''/d/q'' = []"
proof -
  have w: "creation_waiters waiting_server ''/d/q'' = [6]"
    "bufs_response (srv_clients waiting_server) 6 = Some []"
    by code_simp+
  then have "\<forall>t \<in> set (creation_waiters waiting_server ''/d/q''). has_room (srv_clients waiting_server) t"
    by (simp add: has_room_def CAPIO_REQ_BUFF_CNT_def)
  with creation_unlock_answers[of waiting_server "''/d/q''"] w show ?thesis by auto
qed

end
