(* ===== verification/Handlers.thy ===== *)
theory Handlers
  imports Waiting
begin

text \<open>
  The request handlers of \<open>src/server/client-manager/handlers\<close>, the table that dispatches to them
  (\<open>request_handler_engine.hpp\<close>) and the loop body of \<open>FileSystemMonitor\<close>. A handler gets the text
  behind the request code. A conversion of \<open>sscanf\<close> that fails leaves its variable uninitialised:
  where the handler goes on to use it, the result is \<open>Undefined\<close>.
\<close>

definition need :: "'a option \<Rightarrow> 'a res" where
  "need x = (case x of None \<Rightarrow> Inl Undefined | Some v \<Rightarrow> Inr v)"

lemma need_Inr [res_simps]: "need x = Inr v \<longleftrightarrow> x = Some v"
  by (cases x) (simp_all add: need_def)

lemma need_Some [simp]: "need (Some v) = Inr v"
  by (simp add: need_def)

definition scan_pid :: "string \<Rightarrow> (int \<times> string) option" where
  \<comment> \<open>\<open>%d\<close> into a 32-bit integer\<close>
  "scan_pid s = map_option (\<lambda>(i, r). (to_int32 i, r)) (scan_int s)"

definition handled :: "env \<Rightarrow> string \<Rightarrow> bool" where
  "handled env path = fileToBeHandled (capio_dir env) path"

definition reply :: "tid \<Rightarrow> u64 \<Rightarrow> server \<Rightarrow> server res" where
  "reply t v s = rbind (reply_to_client t v (srv_clients s)) (\<lambda>cm. Inr (s\<lparr>srv_clients := cm\<rparr>))"

subsection \<open>What the handlers do\<close>

definition do_close :: "env \<Rightarrow> tid \<Rightarrow> string \<Rightarrow> server \<Rightarrow> server res" where
  "do_close env t path s =
     (if \<not> handled env path then Inr s
      else if getCommitRule (srv_engine s) path = CAPIO_FILE_COMMITTED_ON_CLOSE then
        rbind (isProducer (srv_clients s) (srv_engine s) path t) (\<lambda>producer.
          if producer then rbind (setCommitted env path s) (increaseCloseCount env path)
          else Inr s)
      else Inr s)"

definition do_consent :: "env \<Rightarrow> tid \<Rightarrow> string \<Rightarrow> server \<Rightarrow> server res" where
  "do_consent env t path s =
     (if \<not> handled env path then reply t 1 s
      else
        rbind (isProducer (srv_clients s) (srv_engine s) path t) (\<lambda>producer.
          if producer then reply t 1 s
          else
            let exists = fs_exists (srv_fs s) path
            in rbind (isCommitted env path s) (\<lambda>(committed, s1).
                 let firable = (getFireRule (srv_engine s1) path = CAPIO_FILE_MODE_NO_UPDATE)
                 in if exists \<and> (committed \<or> firable) then reply t 1 s1
                    else Inr (addThreadAwaitingData path t 0 s1))))"

definition do_create :: "tid \<Rightarrow> string \<Rightarrow> server \<Rightarrow> server res" where
  "do_create t path s =
     rbind (unlockThreadAwaitingCreation path s) (\<lambda>s1.
     rbind (get_app_name t (srv_clients s1)) (\<lambda>name.
     rbind (addProducer path name (srv_engine s1)) (\<lambda>eng. Inr (s1\<lparr>srv_engine := eng\<rparr>))))"

definition do_exit :: "env \<Rightarrow> tid \<Rightarrow> server \<Rightarrow> server res" where
  "do_exit env t s =
     rbind (setCommitted_tid env t s) (\<lambda>s1.
       Inr (s1\<lparr>srv_clients := remove_client t (srv_clients s1)\<rparr>))"

definition do_handshake :: "tid \<Rightarrow> string \<Rightarrow> server \<Rightarrow> server res" where
  "do_handshake t app_name s =
     Inr (s\<lparr>srv_clients := register_new_client t app_name (srv_clients s)\<rparr>)"

definition do_open :: "tid \<Rightarrow> string \<Rightarrow> server \<Rightarrow> server res" where
  "do_open t path s =
     (if fs_exists (srv_fs s) path then reply t 1 s
      else
        rbind (isProducer (srv_clients s) (srv_engine s) path t) (\<lambda>producer.
          if producer then reply t 1 s else Inr (addThreadAwaitingCreation path t s)))"

text \<open>The offset is not looked at when the path is not handled, so a missing one does no harm then.\<close>

definition do_read :: "env \<Rightarrow> string \<Rightarrow> tid \<Rightarrow> u64 option \<Rightarrow> server \<Rightarrow> server res" where
  "do_read env path t eor s =
     (if \<not> handled env path then reply t 1 s
      else
        rbind (need eor) (\<lambda>end_of_read.
        rbind (isCommitted env path s) (\<lambda>(is_committed, s1).
        rbind (get_file_size_if_exists (srv_fs s1) path) (\<lambda>file_size.
        rbind (if end_of_read \<le> file_size \<or> is_committed then Inr True
               else isProducer (srv_clients s1) (srv_engine s1) path t) (\<lambda>go_on.
          if go_on then reply t (if is_committed then ULLONG_MAX else file_size) s1
          else Inr (addThreadAwaitingData path t end_of_read s1))))))"

definition do_write :: "env \<Rightarrow> string \<Rightarrow> server \<Rightarrow> server res" where
  "do_write env path s =
     (if \<not> handled env path then Inr s else checkAndUnlockThreadAwaitingData env path s)"

lemmas do_defs = do_close_def do_consent_def do_create_def do_exit_def do_handshake_def do_open_def
  do_read_def do_write_def

subsection \<open>The handlers: reading the text of the request\<close>

definition close_handler :: "env \<Rightarrow> string \<Rightarrow> server \<Rightarrow> server res" where
  "close_handler env str s =
     rbind (need (scan_pid str)) (\<lambda>(t, r).
     rbind (need (scan_word r)) (\<lambda>(path, _). do_close env t path s))"

definition consent_to_proceed_handler :: "env \<Rightarrow> string \<Rightarrow> server \<Rightarrow> server res" where
  "consent_to_proceed_handler env str s =
     rbind (need (scan_pid str)) (\<lambda>(t, r).
     rbind (need (scan_word r)) (\<lambda>(path, _). do_consent env t path s))"

definition create_handler :: "env \<Rightarrow> string \<Rightarrow> server \<Rightarrow> server res" where
  "create_handler env str s =
     rbind (need (scan_pid str)) (\<lambda>(t, r).
     rbind (need (scan_pid r)) (\<lambda>(_, r).
     rbind (need (scan_word r)) (\<lambda>(path, _). do_create t path s)))"

definition exit_handler :: "env \<Rightarrow> string \<Rightarrow> server \<Rightarrow> server res" where
  "exit_handler env str s = rbind (need (scan_pid str)) (\<lambda>(t, _). do_exit env t s)"

definition handshake_anonymous_handler :: "env \<Rightarrow> string \<Rightarrow> server \<Rightarrow> server res" where
  "handshake_anonymous_handler env str s =
     rbind (need (scan_pid str)) (\<lambda>(t, _). do_handshake t CAPIO_DEFAULT_APP_NAME s)"

definition handshake_named_handler :: "env \<Rightarrow> string \<Rightarrow> server \<Rightarrow> server res" where
  "handshake_named_handler env str s =
     rbind (need (scan_pid str)) (\<lambda>(t, r).
     rbind (need (scan_pid r)) (\<lambda>(_, r).
     rbind (need (scan_word r)) (\<lambda>(app_name, _). do_handshake t app_name s)))"

definition open_handler :: "env \<Rightarrow> string \<Rightarrow> server \<Rightarrow> server res" where
  "open_handler env str s =
     rbind (need (scan_pid str)) (\<lambda>(t, r).
     rbind (need (scan_pid r)) (\<lambda>(_, r).
     rbind (need (scan_word r)) (\<lambda>(path, _). do_open t path s)))"

definition read_handler :: "env \<Rightarrow> string \<Rightarrow> server \<Rightarrow> server res" where
  "read_handler env str s =
     rbind (need (scan_word str)) (\<lambda>(path, r).
     rbind (need (scan_pid r)) (\<lambda>(t, r).
       do_read env path t
         (case scan_pid r of None \<Rightarrow> None | Some (_, r) \<Rightarrow> map_option fst (scan_u64 r)) s))"

definition rename_handler :: "env \<Rightarrow> string \<Rightarrow> server \<Rightarrow> server res" where
  "rename_handler env str s =
     rbind (need (scan_pid str)) (\<lambda>(_, r).
     rbind (need (scan_word r)) (\<lambda>(_, r).
     rbind (need (scan_word r)) (\<lambda>(new_path, _). unlockThreadAwaitingCreation new_path s)))"

definition write_handler :: "env \<Rightarrow> string \<Rightarrow> server \<Rightarrow> server res" where
  "write_handler env str s =
     rbind (need (scan_pid str)) (\<lambda>(_, r).
     rbind (need (scan_pid r)) (\<lambda>(_, r).
     rbind (need (scan_word r)) (\<lambda>(path, _). do_write env path s)))"

lemmas handler_defs = close_handler_def consent_to_proceed_handler_def create_handler_def
  exit_handler_def handshake_anonymous_handler_def handshake_named_handler_def open_handler_def
  read_handler_def rename_handler_def write_handler_def

subsection \<open>Dispatch\<close>

definition CAPIO_REQUEST_CONSENT :: nat where "CAPIO_REQUEST_CONSENT = 0"
definition CAPIO_REQUEST_CLONE :: nat where "CAPIO_REQUEST_CLONE = 1"
definition CAPIO_REQUEST_CLOSE :: nat where "CAPIO_REQUEST_CLOSE = 2"
definition CAPIO_REQUEST_CREATE :: nat where "CAPIO_REQUEST_CREATE = 3"
definition CAPIO_REQUEST_EXIT_GROUP :: nat where "CAPIO_REQUEST_EXIT_GROUP = 4"
definition CAPIO_REQUEST_HANDSHAKE_NAMED :: nat where "CAPIO_REQUEST_HANDSHAKE_NAMED = 5"
definition CAPIO_REQUEST_HANDSHAKE_ANONYMOUS :: nat where "CAPIO_REQUEST_HANDSHAKE_ANONYMOUS = 6"
definition CAPIO_REQUEST_MKDIR :: nat where "CAPIO_REQUEST_MKDIR = 7"
definition CAPIO_REQUEST_OPEN :: nat where "CAPIO_REQUEST_OPEN = 8"
definition CAPIO_REQUEST_READ :: nat where "CAPIO_REQUEST_READ = 9"
definition CAPIO_REQUEST_RENAME :: nat where "CAPIO_REQUEST_RENAME = 10"
definition CAPIO_REQUEST_WRITE :: nat where "CAPIO_REQUEST_WRITE = 11"
definition CAPIO_NR_REQUESTS :: nat where "CAPIO_NR_REQUESTS = 12"

lemmas request_codes = CAPIO_REQUEST_CONSENT_def CAPIO_REQUEST_CLONE_def CAPIO_REQUEST_CLOSE_def
  CAPIO_REQUEST_CREATE_def CAPIO_REQUEST_EXIT_GROUP_def CAPIO_REQUEST_HANDSHAKE_NAMED_def
  CAPIO_REQUEST_HANDSHAKE_ANONYMOUS_def CAPIO_REQUEST_MKDIR_def CAPIO_REQUEST_OPEN_def
  CAPIO_REQUEST_READ_def CAPIO_REQUEST_RENAME_def CAPIO_REQUEST_WRITE_def CAPIO_NR_REQUESTS_def

type_synonym handler = "env \<Rightarrow> string \<Rightarrow> server \<Rightarrow> server res"

text \<open>The table: \<open>None\<close> is the null pointer an entry starts as.\<close>

definition build_request_handlers_table :: "handler option list" where
  "build_request_handlers_table =
     (replicate CAPIO_NR_REQUESTS None)
       [CAPIO_REQUEST_CONSENT := Some consent_to_proceed_handler,
        CAPIO_REQUEST_CLOSE := Some close_handler,
        CAPIO_REQUEST_CREATE := Some create_handler,
        CAPIO_REQUEST_EXIT_GROUP := Some exit_handler,
        CAPIO_REQUEST_HANDSHAKE_NAMED := Some handshake_named_handler,
        CAPIO_REQUEST_HANDSHAKE_ANONYMOUS := Some handshake_anonymous_handler,
        CAPIO_REQUEST_MKDIR := Some create_handler,
        CAPIO_REQUEST_OPEN := Some open_handler,
        CAPIO_REQUEST_READ := Some read_handler,
        CAPIO_REQUEST_RENAME := Some rename_handler,
        CAPIO_REQUEST_WRITE := Some write_handler]"

definition c_string :: "string \<Rightarrow> string" where
  "c_string bytes = takeWhile (\<lambda>c. c \<noteq> CHR 0x00) bytes"

text \<open>\<open>from_chars\<close>: an optional minus sign and digits, no white space before them.\<close>

definition from_chars :: "string \<Rightarrow> (int \<times> string) option" where
  "from_chars s = (case s of [] \<Rightarrow> None
     | c # cs \<Rightarrow> if c = CHR ''-'' then map_option (\<lambda>(n, r). (- int n, r)) (scan_nat cs)
                  else map_option (\<lambda>(n, r). (int n, r)) (scan_nat (c # cs)))"

text \<open>
  A request slot: the code in the first four bytes, one separator, the text up to the terminator.
  Without one \<open>strcpy\<close> reads beyond the buffer.
\<close>

definition read_next_request :: "string \<Rightarrow> (int \<times> string) res" where
  "read_next_request req =
     (case from_chars (take 4 req) of
        None \<Rightarrow> Inl ErrExit
      | Some (code, rest) \<Rightarrow>
          let str = drop (4 - length rest + 1) req
          in if CHR 0x00 \<in> set str then Inr (code, c_string str) else Inl Undefined)"

text \<open>The body of the loop of \<open>start\<close>: the bound lets \<open>CAPIO_NR_REQUESTS\<close> itself through.\<close>

definition serve :: "env \<Rightarrow> string \<Rightarrow> server \<Rightarrow> server res" where
  "serve env req s =
     rbind (read_next_request req) (\<lambda>(code, str).
       if code < 0 \<or> int CAPIO_NR_REQUESTS < code then Inl ErrExit
       else if nat code < length build_request_handlers_table then
         (case build_request_handlers_table ! nat code of
            None \<Rightarrow> Inl Undefined | Some h \<Rightarrow> h env str s)
       else Inl Undefined)"

subsection \<open>The file system monitor\<close>

fun monitor_creation :: "string list \<Rightarrow> server \<Rightarrow> server res" where
  "monitor_creation [] s = Inr s"
| "monitor_creation (file # files) s =
     (if fs_exists (srv_fs s) file then
        rbind (unlockThreadAwaitingCreation file s) (\<lambda>s1.
          monitor_creation files (deleteFileAwaitingCreation file s1))
      else monitor_creation files s)"

fun monitor_data :: "env \<Rightarrow> string list \<Rightarrow> server \<Rightarrow> server res" where
  "monitor_data env [] s = Inr s"
| "monitor_data env (file # files) s =
     (if fs_exists (srv_fs s) file then
        rbind (checkAndUnlockThreadAwaitingData env file s) (monitor_data env files)
      else monitor_data env files s)"

definition monitor_pass :: "env \<Rightarrow> server \<Rightarrow> server res" where
  "monitor_pass env s =
     rbind (monitor_creation (getFileAwaitingCreation s) s) (\<lambda>s1.
       monitor_data env (getFileAwaitingData s1) s1)"

end
