(* ===== verification/Answers.thy ===== *)
theory Answers
  imports Handlers
begin

text \<open>
  Every request that waits for an answer gets exactly one. \<open>owed t s\<close> counts the answers to thread
  \<open>t\<close> that are in its buffer or that a waiting list still holds; the handlers of the blocking
  requests raise it by one for the thread that asks, everything else leaves it alone. On runs in
  which a thread asks only when nothing is owed to it, a reply never meets a full buffer.
\<close>

subsection \<open>Sums over a table\<close>

definition table_sum :: "('v \<Rightarrow> nat) \<Rightarrow> ('k, 'v) umap \<Rightarrow> nat" where
  "table_sum g m = sum_list (map (\<lambda>(k, v). g v) m)"

lemma table_sum_emplace: "map_of m k = None \<Longrightarrow> table_sum g (emplace k v m) = table_sum g m + g v"
  by (simp add: table_sum_def emplace_def)

lemma table_sum_update_new:
  "map_of m k = None \<Longrightarrow> table_sum g (AList.update k v m) = table_sum g m + g v"
  by (induction m) (auto simp: table_sum_def)

lemma table_sum_update:
  "umap_wf m \<Longrightarrow> map_of m k = Some w \<Longrightarrow> table_sum g (AList.update k v m) + g w = table_sum g m + g v"
proof (induction m)
  case (Cons a m)
  obtain k' v' where a: "a = (k', v')" by (cases a)
  show ?case
  proof (cases "k' = k")
    case True
    with Cons.prems(2) show ?thesis by (simp add: a table_sum_def)
  next
    case False
    with Cons show ?thesis by (auto simp: a table_sum_def umap_wf_def)
  qed
qed simp

lemma delete_absent: "k \<notin> fst ` set m \<Longrightarrow> AList.delete k m = m"
  by (induction m) auto

lemma table_sum_delete:
  "umap_wf m \<Longrightarrow> table_sum g (AList.delete k m) + (case map_of m k of None \<Rightarrow> 0 | Some w \<Rightarrow> g w) = table_sum g m"
proof (induction m)
  case (Cons a m)
  obtain k' v' where a: "a = (k', v')" by (cases a)
  show ?case
  proof (cases "k' = k")
    case True
    with Cons.prems have "k \<notin> fst ` set m" by (auto simp: a umap_wf_def)
    with True show ?thesis by (simp add: a table_sum_def delete_absent)
  next
    case False
    with Cons show ?thesis by (auto simp: a table_sum_def umap_wf_def)
  qed
qed (simp add: table_sum_def)

lemma table_sum_ge: "map_of m k = Some w \<Longrightarrow> g w \<le> table_sum g m"
proof (induction m)
  case (Cons a m)
  then show ?case by (cases a) (auto simp: table_sum_def split: if_splits)
qed simp

lemma table_sum_pos: "0 < table_sum g m \<Longrightarrow> umap_wf m \<Longrightarrow> \<exists>k w. map_of m k = Some w \<and> 0 < g w"
proof (induction m)
  case (Cons a m)
  obtain k v where a: "a = (k, v)" by (cases a)
  show ?case
  proof (cases "0 < g v")
    case True
    then show ?thesis by (intro exI[of _ k] exI[of _ v]) (simp add: a)
  next
    case False
    with Cons.prems have "0 < table_sum g m" "umap_wf m" by (auto simp: a table_sum_def umap_wf_def)
    with Cons.IH obtain k1 w where k: "map_of m k1 = Some w" "0 < g w" by blast
    moreover have "k1 \<noteq> k" using k(1) Cons.prems(2)
      by (auto simp: a umap_wf_def dest: map_of_SomeD[THEN in_set_zipE] map_of_SomeD)
         (metis fst_conv image_eqI map_of_SomeD)
    ultimately show ?thesis by (intro exI[of _ k1] exI[of _ w]) (simp add: a)
  qed
qed (simp add: table_sum_def)

subsection \<open>What is owed to a thread\<close>

definition buffered :: "client_manager \<Rightarrow> tid \<Rightarrow> nat" where
  "buffered cm t = (case bufs_response cm t of None \<Rightarrow> 0 | Some b \<Rightarrow> length b)"

definition in_creation :: "file_manager \<Rightarrow> tid \<Rightarrow> nat" where
  "in_creation fm t = table_sum (\<lambda>ts. count_list ts t) (thread_awaiting_file_creation fm)"

definition in_data :: "file_manager \<Rightarrow> tid \<Rightarrow> nat" where
  "in_data fm t = table_sum (\<lambda>th. count_list (map fst th) t) (thread_awaiting_data fm)"

definition owed :: "server \<Rightarrow> tid \<Rightarrow> nat" where
  "owed s t = buffered (srv_clients s) t + in_creation (srv_fm s) t + in_data (srv_fm s) t"

text \<open>The tables stay maps, and who waits is registered.\<close>

definition waiting_wf :: "server \<Rightarrow> bool" where
  "waiting_wf s \<longleftrightarrow> umap_wf (thread_awaiting_file_creation (srv_fm s)) \<and>
     umap_wf (thread_awaiting_data (srv_fm s)) \<and>
     (\<forall>p th. map_of (thread_awaiting_data (srv_fm s)) p = Some th \<longrightarrow> umap_wf th)"

lemma waiting_wf_cong: "srv_fm s' = srv_fm s \<Longrightarrow> waiting_wf s' = waiting_wf s"
  by (simp add: waiting_wf_def)

lemma buffered_reply:
  "reply_to_client t v cm = Inr cm' \<Longrightarrow> buffered cm' u = buffered cm u + (if u = t then 1 else 0)"
  by (auto simp: reply_Inr buffered_def)

lemma buffered_reply_all:
  "reply_all ts v cm = Inr cm' \<Longrightarrow> buffered cm' u = buffered cm u + count_list ts u"
  by (induction ts arbitrary: cm) (auto simp: res_simps dest!: buffered_reply[where u = u])

lemma owed_reply:
  "reply t v s = Inr s' \<Longrightarrow> owed s' u = owed s u + (if u = t then 1 else 0) \<and>
     (waiting_wf s' = waiting_wf s) \<and> srv_fm s' = srv_fm s"
  by (auto simp: reply_def res_simps owed_def waiting_wf_def dest: buffered_reply[where u = u])

lemma owed_addCreation:
  assumes "waiting_wf s"
  shows "owed (addThreadAwaitingCreation p t s) u = owed s u + (if u = t then 1 else 0)"
    and "waiting_wf (addThreadAwaitingCreation p t s)"
proof -
  let ?T = "thread_awaiting_file_creation (srv_fm s)"
  obtain ts where ts: "map_of (emplace p [] ?T) p = Some ts" using um.look_ins_defined by metis
  have wf: "umap_wf (emplace p [] ?T)" using assms by (simp add: waiting_wf_def)
  have s': "addThreadAwaitingCreation p t s = s\<lparr>srv_fm := (srv_fm s)\<lparr>thread_awaiting_file_creation :=
      AList.update p (ts @ [t]) (emplace p [] ?T)\<rparr>\<rparr>"
    using ts by (simp add: addThreadAwaitingCreation_def Let_def)
  have "table_sum (\<lambda>ts. count_list ts u) (emplace p [] ?T) = table_sum (\<lambda>ts. count_list ts u) ?T"
    by (cases "map_of ?T p") (simp_all add: table_sum_emplace, simp add: emplace_def)
  with table_sum_update[OF wf ts, of "\<lambda>ts. count_list ts u" "ts @ [t]"]
  show "owed (addThreadAwaitingCreation p t s) u = owed s u + (if u = t then 1 else 0)"
    by (simp add: s' owed_def in_creation_def in_data_def split: if_splits)
  show "waiting_wf (addThreadAwaitingCreation p t s)"
    using assms wf by (simp add: s' waiting_wf_def)
qed

lemma count_emplace:
  "count_list (map fst (emplace k v m)) u =
     count_list (map fst m) u + (if u = k \<and> map_of m k = None then 1 else 0)"
  by (simp add: emplace_def)

lemma owed_addData:
  assumes "waiting_wf s" and "map_of (data_waiters s p) t = None"
  shows "owed (addThreadAwaitingData p t n s) u = owed s u + (if u = t then 1 else 0)"
    and "waiting_wf (addThreadAwaitingData p t n s)"
proof -
  let ?T = "thread_awaiting_data (srv_fm s)"
  let ?g = "\<lambda>th :: (tid, u64) umap. count_list (map fst th) u"
  let ?th = "data_waiters s p"
  have th: "map_of (emplace p [] ?T) p = Some ?th"
    by (auto simp: umap_simps data_waiters_def split: option.splits)
  have wf: "umap_wf (emplace p [] ?T)" using assms(1) by (simp add: waiting_wf_def)
  have wth: "umap_wf ?th" using assms(1) by (auto simp: waiting_wf_def data_waiters_def split: option.splits)
  have s': "addThreadAwaitingData p t n s = s\<lparr>srv_fm := (srv_fm s)\<lparr>thread_awaiting_data :=
      AList.update p (emplace t n ?th) (emplace p [] ?T)\<rparr>\<rparr>"
    using th by (simp add: addThreadAwaitingData_def Let_def)
  have "table_sum ?g (emplace p [] ?T) = table_sum ?g ?T"
    by (cases "map_of ?T p") (simp_all add: table_sum_emplace, simp add: emplace_def)
  with table_sum_update[OF wf th, of ?g "emplace t n ?th"] assms(2)
  show "owed (addThreadAwaitingData p t n s) u = owed s u + (if u = t then 1 else 0)"
    by (simp add: s' owed_def in_creation_def in_data_def count_emplace split: if_splits)
  show "waiting_wf (addThreadAwaitingData p t n s)"
    using assms wf wth by (auto simp: s' waiting_wf_def umap_simps split: if_splits)
qed

subsection \<open>Releasing conserves what is owed\<close>

definition conserves :: "server \<Rightarrow> server \<Rightarrow> bool" where
  "conserves s s' \<longleftrightarrow> (\<forall>t. owed s' t = owed s t) \<and> (waiting_wf s \<longrightarrow> waiting_wf s')"

lemma conserves_refl [simp]: "conserves s s"
  by (simp add: conserves_def)

lemma conserves_trans [trans]: "conserves s t \<Longrightarrow> conserves t u \<Longrightarrow> conserves s u"
  by (simp add: conserves_def)

lemma conserves_same:
  "srv_clients s' = srv_clients s \<Longrightarrow> srv_fm s' = srv_fm s \<Longrightarrow> conserves s s'"
  by (simp add: conserves_def owed_def waiting_wf_def)

lemma conserves_isCommitted: "isCommitted env p s = Inr (b, s') \<Longrightarrow> conserves s s'"
  by (auto simp: isCommitted_Inr intro: conserves_same)

lemma unlock_loop_conserves:
  "unlock_loop env path items s = Inr (kept, s') \<Longrightarrow> srv_fm s' = srv_fm s \<and>
     (\<forall>u. buffered (srv_clients s') u + count_list (map fst kept) u =
           buffered (srv_clients s) u + count_list (map fst items) u)"
proof (induction env path items s arbitrary: kept s' rule: unlock_loop.induct)
  case (2 env path t expected items s)
  from 2(3) obtain filesize committed s1 is_producer where
    c: "filesize_of (srv_fs s) path = Inr filesize" "isCommitted env path s = Inr (committed, s1)"
      "isProducer (srv_clients s1) (srv_engine s1) path t = Inr is_producer"
    by (auto simp: res_simps Let_def)
  have s1: "srv_fm s1 = srv_fm s" "srv_clients s1 = srv_clients s" using c(2) by (auto simp: isCommitted_Inr)
  let ?cond = "committed \<or> is_producer \<or> filesize \<le> word_of_int t \<and>
      getFireRule (srv_engine s1) path = CAPIO_FILE_MODE_NO_UPDATE"
  show ?case
  proof (cases ?cond)
    case True
    with 2(3) c obtain v cm where v: "filesize_of (srv_fs s1) path = Inr v"
        "reply_to_client t v (srv_clients s1) = Inr cm"
        "unlock_loop env path items (s1\<lparr>srv_clients := cm\<rparr>) = Inr (kept, s')"
      by (auto simp: res_simps)
    from 2(1)[OF c(1,2) refl refl refl c(3) True v(1,2,3)] buffered_reply[OF v(2)] s1
    show ?thesis by simp
  next
    case False
    with 2(3) c obtain k where k: "unlock_loop env path items s1 = Inr (k, s')" "kept = (t, expected) # k"
      by (auto simp: res_simps)
    from 2(2)[OF c(1,2) refl refl refl c(3) False k(1)] k(2) s1 show ?thesis by simp
  qed
qed simp

lemma unlock_loop_kept_wf:
  "unlock_loop env path items s = Inr (kept, s') \<Longrightarrow> umap_wf items \<Longrightarrow> umap_wf kept"
proof -
  assume a: "unlock_loop env path items s = Inr (kept, s')" and wf: "umap_wf items"
  have "subseq kept items" using a
  proof (induction env path items s arbitrary: kept s' rule: unlock_loop.induct)
    case (2 env path t expected items s)
    from 2(3) obtain filesize committed s1 is_producer where
      c: "filesize_of (srv_fs s) path = Inr filesize" "isCommitted env path s = Inr (committed, s1)"
        "isProducer (srv_clients s1) (srv_engine s1) path t = Inr is_producer"
      by (auto simp: res_simps Let_def)
    let ?cond = "committed \<or> is_producer \<or> filesize \<le> word_of_int t \<and>
        getFireRule (srv_engine s1) path = CAPIO_FILE_MODE_NO_UPDATE"
    show ?case
    proof (cases ?cond)
      case True
      with 2(3) c obtain v cm where v: "filesize_of (srv_fs s1) path = Inr v"
          "reply_to_client t v (srv_clients s1) = Inr cm"
          "unlock_loop env path items (s1\<lparr>srv_clients := cm\<rparr>) = Inr (kept, s')"
        by (auto simp: res_simps)
      from 2(1)[OF c(1,2) refl refl refl c(3) True v(1,2,3)] show ?thesis by (rule list_emb_Cons)
    next
      case False
      with 2(3) c obtain k where k: "unlock_loop env path items s1 = Inr (k, s')" "kept = (t, expected) # k"
        by (auto simp: res_simps)
      from 2(2)[OF c(1,2) refl refl refl c(3) False k(1)] k(2) show ?thesis by simp
    qed
  qed simp
  then show "umap_wf kept"
    using wf unfolding umap_wf_def by (metis distinct_nthsI subseq_conv_nths subseq_map)
qed

lemma checkAndUnlock_conserves:
  assumes "checkAndUnlockThreadAwaitingData env path s = Inr s'" and wf: "waiting_wf s"
  shows "conserves s s'"
proof (cases "map_of (thread_awaiting_data (srv_fm s)) path")
  case None
  with assms(1) show ?thesis by (simp add: checkAndUnlockThreadAwaitingData_def)
next
  case (Some th)
  let ?T = "thread_awaiting_data (srv_fm s)"
  from assms(1) Some obtain kept s1 where l: "unlock_loop env path th s = Inr (kept, s1)"
    and s': "s' = s1\<lparr>srv_fm := (srv_fm s1)\<lparr>thread_awaiting_data :=
        (if kept = [] then AList.delete path (thread_awaiting_data (srv_fm s1))
         else AList.update path kept (thread_awaiting_data (srv_fm s1)))\<rparr>\<rparr>"
    by (auto simp: checkAndUnlockThreadAwaitingData_def res_simps)
  note c = unlock_loop_conserves[OF l]
  have wT: "umap_wf ?T" and wth: "umap_wf th" using wf Some by (auto simp: waiting_wf_def)
  have kept: "umap_wf kept" using unlock_loop_kept_wf[OF l wth] .
  have "owed s' u = owed s u" for u
  proof (cases "kept = []")
    case True
    with c s' table_sum_delete[OF wT, of "\<lambda>th. count_list (map fst th) u" path] Some
    show ?thesis by (simp add: owed_def in_creation_def in_data_def)
  next
    case False
    from c have "buffered (srv_clients s1) u + count_list (map fst kept) u =
        buffered (srv_clients s) u + count_list (map fst th) u" by blast
    with False conjunct1[OF c] s' table_sum_update[OF wT Some, of "\<lambda>th. count_list (map fst th) u" kept]
    show ?thesis by (simp add: owed_def in_creation_def in_data_def)
  qed
  moreover have "waiting_wf s'"
    using wf c kept by (auto simp: s' waiting_wf_def umap_simps split: if_splits)
  ultimately show ?thesis by (simp add: conserves_def)
qed

lemma unlockCreation_conserves:
  assumes "unlockThreadAwaitingCreation path s = Inr s'" and wf: "waiting_wf s"
  shows "conserves s s'"
proof -
  let ?T = "thread_awaiting_file_creation (srv_fm s)"
  from assms(1) obtain cm where cm: "reply_all (creation_waiters s path) 1 (srv_clients s) = Inr cm"
    and s': "s' = deleteFileAwaitingCreation path (s\<lparr>srv_clients := cm\<rparr>)"
    by (auto simp: unlockThreadAwaitingCreation_Inr)
  have wT: "umap_wf ?T" using wf by (simp add: waiting_wf_def)
  have "owed s' u = owed s u" for u
    using table_sum_delete[OF wT, of "\<lambda>ts. count_list ts u" path] buffered_reply_all[OF cm, of u]
    by (auto simp: s' deleteFileAwaitingCreation_def owed_def in_creation_def in_data_def
        creation_waiters_def split: option.splits)
  moreover have "waiting_wf s'"
    using wf by (auto simp: s' deleteFileAwaitingCreation_def waiting_wf_def)
  ultimately show ?thesis by (simp add: conserves_def)
qed

lemma setCommitted_conserves:
  assumes "setCommitted env path s = Inr s'" and "waiting_wf s"
  shows "conserves s s'"
proof -
  from assms(1) obtain f s1 where
    s1: "checkAndUnlockThreadAwaitingData env path (s\<lparr>srv_fs := f\<rparr>) = Inr s1"
      "unlockThreadAwaitingCreation path s1 = Inr s'"
    by (auto simp: setCommitted_Inr)
  have "waiting_wf (s\<lparr>srv_fs := f\<rparr>)" using assms(2) by (simp add: waiting_wf_def)
  then have c: "conserves (s\<lparr>srv_fs := f\<rparr>) s1" using checkAndUnlock_conserves[OF s1(1)] by simp
  then have "waiting_wf s1" using \<open>waiting_wf (s\<lparr>srv_fs := f\<rparr>)\<close> by (simp add: conserves_def)
  moreover have "conserves s (s\<lparr>srv_fs := f\<rparr>)" by (simp add: conserves_same)
  ultimately show ?thesis using c unlockCreation_conserves[OF s1(2)] by (blast intro: conserves_trans)
qed

lemma conserves_wf: "conserves s s' \<Longrightarrow> waiting_wf s \<Longrightarrow> waiting_wf s'"
  by (simp add: conserves_def)

lemma setCommitted_all_conserves:
  "setCommitted_all env files s = Inr s' \<Longrightarrow> waiting_wf s \<Longrightarrow> conserves s s'"
  by (induction files arbitrary: s)
     (auto simp: res_simps, metis conserves_trans conserves_wf setCommitted_conserves)

lemma increaseCloseCount_conserves: "increaseCloseCount env p s = Inr s' \<Longrightarrow> conserves s s'"
  by (auto simp: increaseCloseCount_def res_simps Let_def split: if_splits intro: conserves_same)

subsection \<open>The handlers\<close>

lemma waiting_owed:
  assumes "map_of (data_waiters s p) t = Some n"
  shows "0 < owed s t"
proof -
  from assms obtain th where th: "map_of (thread_awaiting_data (srv_fm s)) p = Some th" "map_of th t = Some n"
    by (auto simp: data_waiters_def split: option.splits)
  then have "t \<in> set (map fst th)" by (force dest: map_of_SomeD)
  then have "0 < count_list (map fst th) t" by (metis count_list_0_iff gr0I)
  also have "\<dots> \<le> in_data (srv_fm s) t"
    unfolding in_data_def using table_sum_ge[OF th(1), of "\<lambda>th. count_list (map fst th) t"] .
  finally show ?thesis by (simp add: owed_def)
qed

text \<open>One more answer owed to \<open>t\<close>, nothing else.\<close>

definition owes_one_more :: "tid \<Rightarrow> server \<Rightarrow> server \<Rightarrow> bool" where
  "owes_one_more t s s' \<longleftrightarrow> (\<forall>u. owed s' u = owed s u + (if u = t then 1 else 0)) \<and>
     (waiting_wf s \<longrightarrow> waiting_wf s')"

lemma owes_reply: "reply t v s = Inr s' \<Longrightarrow> owes_one_more t s s'"
  using owed_reply[of t v s s'] by (simp add: owes_one_more_def)

lemma owes_after: "conserves s s1 \<Longrightarrow> owes_one_more t s1 s' \<Longrightarrow> owes_one_more t s s'"
  by (simp add: owes_one_more_def conserves_def)

lemma owes_creation: "waiting_wf s \<Longrightarrow> owes_one_more t s (addThreadAwaitingCreation p t s)"
  using owed_addCreation[of s p t] by (simp add: owes_one_more_def)

lemma owes_data: "waiting_wf s \<Longrightarrow> owed s t = 0 \<Longrightarrow> owes_one_more t s (addThreadAwaitingData p t n s)"
  using owed_addData[of s p t n] waiting_owed[of s p t]
  by (cases "map_of (data_waiters s p) t") (auto simp: owes_one_more_def)

text \<open>The thread a request asks an answer for.\<close>

definition asker :: "int \<Rightarrow> string \<Rightarrow> tid option" where
  "asker code str =
     (if code = int CAPIO_REQUEST_CONSENT \<or> code = int CAPIO_REQUEST_OPEN then map_option fst (scan_pid str)
      else if code = int CAPIO_REQUEST_READ
      then (case scan_word str of None \<Rightarrow> None | Some (_, r) \<Rightarrow> map_option fst (scan_pid r))
      else None)"

lemma owes_wf: "owes_one_more t s s' \<Longrightarrow> waiting_wf s \<Longrightarrow> waiting_wf s'"
  by (simp add: owes_one_more_def)

lemma conserves_owed: "conserves s s' \<Longrightarrow> owed s' t = owed s t"
  by (simp add: conserves_def)

lemma consent_owes:
  assumes h: "consent_to_proceed_handler env str s = Inr s'" and p: "scan_pid str = Some (t, r)"
    and wf: "waiting_wf s" and 0: "owed s t = 0"
  shows "owes_one_more t s s'"
proof -
  from h p obtain path r2 where w: "scan_word r = Some (path, r2)"
    by (auto simp: consent_to_proceed_handler_def do_consent_def res_simps)
  consider "reply t 1 s = Inr s'"
    | c s1 where "isCommitted env path s = Inr (c, s1)"
        "reply t 1 s1 = Inr s' \<or> s' = addThreadAwaitingData path t 0 s1"
    using h by (auto simp: consent_to_proceed_handler_def do_consent_def p w res_simps Let_def split: if_splits)
  then show ?thesis
  proof cases
    case 2
    note c = conserves_isCommitted[OF 2(1)]
    from 2(2) show ?thesis
      using owes_after[OF c] owes_reply owes_data[OF conserves_wf[OF c wf]] conserves_owed[OF c] 0 by metis
  qed (rule owes_reply)
qed

lemma open_owes:
  assumes h: "open_handler env str s = Inr s'" and p: "scan_pid str = Some (t, r)" and wf: "waiting_wf s"
  shows "owes_one_more t s s'"
  using h owes_reply[of t 1 s s'] owes_creation[OF wf]
  by (auto simp: open_handler_def do_open_def p res_simps split: if_splits)

lemma read_owes:
  assumes h: "read_handler env str s = Inr s'"
    and w: "scan_word str = Some (path, r0)" and p: "scan_pid r0 = Some (t, r)"
    and wf: "waiting_wf s" and 0: "owed s t = 0"
  shows "owes_one_more t s s'"
proof -
  consider "reply t 1 s = Inr s'"
    | c s1 v n where "isCommitted env path s = Inr (c, s1)"
        "reply t v s1 = Inr s' \<or> s' = addThreadAwaitingData path t n s1"
    using h by (auto simp: read_handler_def do_read_def p w res_simps Let_def split: if_splits)
  then show ?thesis
  proof cases
    case 2
    note c = conserves_isCommitted[OF 2(1)]
    from 2(2) show ?thesis
      using owes_after[OF c] owes_reply owes_data[OF conserves_wf[OF c wf]] conserves_owed[OF c] 0 by metis
  qed (rule owes_reply)
qed

lemma close_conserves:
  assumes "close_handler env str s = Inr s'" and "waiting_wf s"
  shows "conserves s s'"
proof -
  from assms(1) consider "s' = s"
    | path s1 where "setCommitted env path s = Inr s1" "increaseCloseCount env path s1 = Inr s'"
    by (auto simp: close_handler_def do_close_def res_simps split: if_splits)
  then show ?thesis
    using conserves_trans[OF setCommitted_conserves[OF _ assms(2)] increaseCloseCount_conserves]
    by cases auto
qed

lemma create_conserves:
  assumes "create_handler env str s = Inr s'" and "waiting_wf s"
  shows "conserves s s'"
proof -
  from assms(1) obtain path s1 eng where
    "unlockThreadAwaitingCreation path s = Inr s1" "s' = s1\<lparr>srv_engine := eng\<rparr>"
    by (auto simp: create_handler_def do_create_def res_simps)
  with unlockCreation_conserves[OF this(1) assms(2)] show ?thesis
    using conserves_trans[of s s1 s'] conserves_same[of s' s1] by simp
qed

lemma rename_conserves: "rename_handler env str s = Inr s' \<Longrightarrow> waiting_wf s \<Longrightarrow> conserves s s'"
  by (auto simp: rename_handler_def res_simps dest: unlockCreation_conserves)

lemma write_conserves: "write_handler env str s = Inr s' \<Longrightarrow> waiting_wf s \<Longrightarrow> conserves s s'"
  by (auto simp: write_handler_def do_write_def res_simps dest: checkAndUnlock_conserves split: if_splits)

lemma register_conserves:
  "conserves s (s\<lparr>srv_clients := register_new_client t a (srv_clients s)\<rparr>)"
  by (auto simp: conserves_def owed_def buffered_def register_new_client_def map_emplace_apply
      waiting_wf_def split: option.splits)

lemma handshakes_conserve:
  "handshake_anonymous_handler env str s = Inr s' \<Longrightarrow> conserves s s'"
  "handshake_named_handler env str s = Inr s' \<Longrightarrow> conserves s s'"
  using register_conserves
  by (auto simp: handshake_anonymous_handler_def handshake_named_handler_def do_handshake_def res_simps)

lemma setCommitted_tid_conserves:
  "setCommitted_tid env t s = Inr s' \<Longrightarrow> waiting_wf s \<Longrightarrow> conserves s s'"
  by (auto simp: setCommitted_tid_def res_simps dest: setCommitted_all_conserves)

text \<open>Deleting a list drops the answers owed to the threads in it.\<close>

lemma delete_owed:
  assumes "waiting_wf s"
  shows "owed (deleteFileAwaitingCreation p s) u + count_list (creation_waiters s p) u = owed s u"
    and "waiting_wf (deleteFileAwaitingCreation p s)"
proof -
  let ?T = "thread_awaiting_file_creation (srv_fm s)"
  have "umap_wf ?T" using assms by (simp add: waiting_wf_def)
  from table_sum_delete[OF this, of "\<lambda>ts. count_list ts u" p]
  show "owed (deleteFileAwaitingCreation p s) u + count_list (creation_waiters s p) u = owed s u"
    by (auto simp: deleteFileAwaitingCreation_def owed_def in_creation_def in_data_def creation_waiters_def
        split: option.splits)
  show "waiting_wf (deleteFileAwaitingCreation p s)"
    using assms by (simp add: deleteFileAwaitingCreation_def waiting_wf_def)
qed

text \<open>An exit drops the answers the thread did not collect, and nothing of anybody else.\<close>

lemma exit_owed:
  assumes "exit_handler env str s = Inr s'" and p: "scan_pid str = Some (t, r)" and "waiting_wf s"
  shows "u \<noteq> t \<Longrightarrow> owed s' u = owed s u" and "owed s' t \<le> owed s t" and "waiting_wf s'"
proof -
  from assms(1) p obtain s1 where s1: "setCommitted_tid env t s = Inr s1"
      "s' = s1\<lparr>srv_clients := remove_client t (srv_clients s1)\<rparr>"
    by (auto simp: exit_handler_def do_exit_def res_simps)
  from setCommitted_tid_conserves[OF s1(1) assms(3)] assms(3) have
    c: "\<And>u. owed s1 u = owed s u" "waiting_wf s1" by (auto simp: conserves_def)
  show "owed s' u = owed s u" if "u \<noteq> t"
    using c(1)[of u] that by (simp add: s1(2) owed_def buffered_def remove_client_def)
  show "owed s' t \<le> owed s t"
    using c(1)[of t] by (simp add: s1(2) owed_def buffered_def remove_client_def)
  show "waiting_wf s'" using c(2) by (simp add: s1(2) waiting_wf_def)
qed

lemma monitor_creation_conserves:
  "monitor_creation fls s = Inr s' \<Longrightarrow> waiting_wf s \<Longrightarrow> conserves s s'"
proof (induction fls s rule: monitor_creation.induct)
  case (2 fl fls s)
  show ?case
  proof (cases "fs_exists (srv_fs s) fl")
    case True
    with 2(3) obtain s1 where s1: "unlockThreadAwaitingCreation fl s = Inr s1"
        "monitor_creation fls (deleteFileAwaitingCreation fl s1) = Inr s'"
      by (auto simp: res_simps)
    then have "deleteFileAwaitingCreation fl s1 = s1"
      by (auto simp: unlockThreadAwaitingCreation_Inr deleteFileAwaitingCreation_def delete_idem)
    with s1 unlockCreation_conserves[OF s1(1) 2(4)] 2(1)[OF True s1(1)] 2(4) show ?thesis
      by (auto intro: conserves_trans conserves_wf)
  qed (use 2 in simp)
qed simp

lemma monitor_data_conserves:
  "monitor_data env fls s = Inr s' \<Longrightarrow> waiting_wf s \<Longrightarrow> conserves s s'"
proof (induction env fls s rule: monitor_data.induct)
  case (2 env fl fls s)
  show ?case
  proof (cases "fs_exists (srv_fs s) fl")
    case True
    with 2(3) obtain s1 where s1: "checkAndUnlockThreadAwaitingData env fl s = Inr s1"
        "monitor_data env fls s1 = Inr s'"
      by (auto simp: res_simps)
    with checkAndUnlock_conserves[OF s1(1) 2(4)] 2(1)[OF True s1(1)] 2(4) show ?thesis
      by (auto intro: conserves_trans conserves_wf)
  qed (use 2 in simp)
qed simp

lemma monitor_pass_conserves: "monitor_pass env s = Inr s' \<Longrightarrow> waiting_wf s \<Longrightarrow> conserves s s'"
  by (auto simp: monitor_pass_def res_simps)
     (metis conserves_trans conserves_wf monitor_creation_conserves monitor_data_conserves)

subsection \<open>Properties\<close>

text \<open>The monitor wakes the threads of a path and then deletes the path from the list once more. A
  thread that is put on the list between the two calls is deleted without an answer: the answer
  owed to it is gone.\<close>

theorem monitor_drops_late_waiter:
  assumes "unlockThreadAwaitingCreation p s = Inr s1" and "waiting_wf s"
  shows "owed (addThreadAwaitingCreation p t s1) t = owed s1 t + 1 \<and>
    owed (deleteFileAwaitingCreation p (addThreadAwaitingCreation p t s1)) t = owed s1 t \<and>
    creation_waiters (deleteFileAwaitingCreation p (addThreadAwaitingCreation p t s1)) p = []"
proof -
  have wf1: "waiting_wf s1" using unlockCreation_conserves[OF assms] assms(2) by (rule conserves_wf)
  let ?s = "addThreadAwaitingCreation p t s1"
  let ?T = "thread_awaiting_file_creation (srv_fm ?s)"
  have none: "creation_waiters s1 p = []"
    using assms(1) by (auto simp: unlockThreadAwaitingCreation_Inr creation_waiters_delete)
  then have "creation_waiters ?s p = [t]" by (simp add: creation_waiters_add)
  then have "map_of ?T p = Some [t]" by (auto simp: creation_waiters_def split: option.splits)
  moreover have "umap_wf ?T" using owed_addCreation(2)[OF wf1] by (simp add: waiting_wf_def)
  ultimately have "table_sum (\<lambda>ts. count_list ts t) (AList.delete p ?T) + 1 =
      table_sum (\<lambda>ts. count_list ts t) ?T"
    using table_sum_delete[of ?T "\<lambda>ts. count_list ts t" p] by simp
  then have "owed (deleteFileAwaitingCreation p ?s) t + 1 = owed ?s t"
    by (simp add: owed_def in_creation_def in_data_def deleteFileAwaitingCreation_def)
  moreover have "owed ?s t = owed s1 t + 1" using owed_addCreation(1)[OF wf1, of p t t] by simp
  ultimately show ?thesis by (simp add: creation_waiters_delete)
qed

lemma monitor_drops_late_waiter_witness:
  "\<exists>s1. unlockThreadAwaitingCreation ''/d/q'' waiting_server = Inr s1 \<and>
    owed (addThreadAwaitingCreation ''/d/q'' 5 s1) 5 = owed s1 5 + 1 \<and>
    owed (deleteFileAwaitingCreation ''/d/q'' (addThreadAwaitingCreation ''/d/q'' 5 s1)) 5 = owed s1 5"
proof -
  have "case unlockThreadAwaitingCreation ''/d/q'' waiting_server of Inl _ \<Rightarrow> False | Inr _ \<Rightarrow> True"
    by code_simp
  then obtain s1 where "unlockThreadAwaitingCreation ''/d/q'' waiting_server = Inr s1"
    by (auto split: sum.splits)
  moreover have "waiting_wf waiting_server"
    by (auto simp: waiting_wf_def waiting_server_def umap_wf_def)
  ultimately show ?thesis using monitor_drops_late_waiter[of "''/d/q''" waiting_server s1 5] by blast
qed

end
