(* ===== verification/ServerSteps.thy ===== *)
theory ServerSteps
  imports Answers
begin

text \<open>
  The server as a transition system: requests of its clients, the calls of the monitor on one path,
  clients that collect an answer and applications that change the file system, in any order. A
  request is one step. The monitor wakes the threads of a path and then deletes the list of the path
  once more (\<open>fs_monitor.hpp\<close>): these are two steps, and the second one is allowed at any moment. A
  client asks for an answer only when it is registered and none is owed to it (\<open>posix\<close> blocks on
  the answer), and exits only then. The invariant of the reachable states, and what follows from it
  for the replies.
\<close>

subsection \<open>What every call keeps\<close>

definition keeps :: "server \<Rightarrow> server \<Rightarrow> bool" where
  "keeps s s' \<longleftrightarrow> (umap_wf (srv_engine s) \<longrightarrow> umap_wf (srv_engine s')) \<and>
     app_names (srv_clients s') = app_names (srv_clients s) \<and>
     files_to_be_committed_by_tid (srv_clients s') = files_to_be_committed_by_tid (srv_clients s) \<and>
     answers_grow (bufs_response (srv_clients s)) (bufs_response (srv_clients s'))"

lemma keeps_refl [simp]: "keeps s s"
  by (simp add: keeps_def)

lemma keeps_trans [trans]: "keeps s t \<Longrightarrow> keeps t u \<Longrightarrow> keeps s u"
  by (auto simp: keeps_def intro: answers_grow_trans)

lemma keeps_same: "same_but_answers s s' \<Longrightarrow> keeps s s'"
  by (simp add: keeps_def same_but_answers_def)

lemma keeps_setCommitted: "setCommitted env p s = Inr s' \<Longrightarrow> keeps s s'"
  using setCommitted_token(3-5,7)[of env p s s'] by (simp add: keeps_def)

lemma keeps_setCommitted_all: "setCommitted_all env ps s = Inr s' \<Longrightarrow> keeps s s'"
  by (induction ps arbitrary: s) (auto simp: res_simps intro: keeps_trans keeps_setCommitted)

lemma keeps_clients_fm: "keeps s (s'\<lparr>srv_fm := m, srv_fs := f\<rparr>) = keeps s s'"
  "keeps s (s'\<lparr>srv_fm := m\<rparr>) = keeps s s'" "keeps s (s'\<lparr>srv_fs := f\<rparr>) = keeps s s'"
  by (simp_all add: keeps_def)

lemma keeps_increase: "increaseCloseCount env p s = Inr s' \<Longrightarrow> keeps s s'"
  by (auto simp: increaseCloseCount_def res_simps Let_def keeps_clients_fm split: if_splits)

lemma keeps_reply: "reply t v s = Inr s' \<Longrightarrow> keeps s s'"
  by (auto simp: reply_def res_simps intro: keeps_same same_reply)

lemma keeps_add:
  "keeps s (addThreadAwaitingCreation p t s)" "keeps s (addThreadAwaitingData p t n s)"
  by (simp_all add: addThreadAwaitingCreation_def addThreadAwaitingData_def Let_def keeps_clients_fm)

lemmas keeps_manager = keeps_same[OF same_isCommitted] keeps_same[OF same_checkAndUnlock]
  keeps_same[OF same_unlockCreation] keeps_setCommitted keeps_setCommitted_all keeps_increase
  keeps_reply

lemma keeps_close: "close_handler env str s = Inr s' \<Longrightarrow> keeps s s'"
  by (auto simp: close_handler_def do_close_def res_simps split: if_splits intro: keeps_trans keeps_manager)

lemma keeps_consent: "consent_to_proceed_handler env str s = Inr s' \<Longrightarrow> keeps s s'"
  by (auto simp: consent_to_proceed_handler_def do_consent_def res_simps Let_def split: if_splits
      intro: keeps_trans[OF keeps_same[OF same_isCommitted]] keeps_reply keeps_add)

lemma keeps_open: "open_handler env str s = Inr s' \<Longrightarrow> keeps s s'"
  by (auto simp: open_handler_def do_open_def res_simps split: if_splits intro: keeps_reply keeps_add)

lemma keeps_read: "read_handler env str s = Inr s' \<Longrightarrow> keeps s s'"
  by (auto simp: read_handler_def do_read_def res_simps Let_def split: if_splits
      intro: keeps_trans[OF keeps_same[OF same_isCommitted]] keeps_reply keeps_add)

lemma keeps_create: "create_handler env str s = Inr s' \<Longrightarrow> keeps s s'"
proof -
  assume "create_handler env str s = Inr s'"
  then obtain path name s1 eng where s1: "unlockThreadAwaitingCreation path s = Inr s1"
      "addProducer path name (srv_engine s1) = Inr eng" "s' = s1\<lparr>srv_engine := eng\<rparr>"
    by (auto simp: create_handler_def do_create_def res_simps)
  have "keeps s1 s'" using engine_wf_ops(2)[OF _ s1(2)] by (simp add: s1(3) keeps_def)
  with keeps_same[OF same_unlockCreation[OF s1(1)]] show "keeps s s'" by (rule keeps_trans)
qed

lemma keeps_rename: "rename_handler env str s = Inr s' \<Longrightarrow> keeps s s'"
  by (auto simp: rename_handler_def res_simps intro: keeps_manager)

lemma keeps_write: "write_handler env str s = Inr s' \<Longrightarrow> keeps s s'"
  by (auto simp: write_handler_def do_write_def res_simps split: if_splits intro: keeps_manager)

subsection \<open>The transition system\<close>

definition registered :: "server \<Rightarrow> tid set" where
  "registered s = dom (bufs_response (srv_clients s))"

text \<open>Who leaves with a request.\<close>

definition leaver :: "int \<Rightarrow> string \<Rightarrow> tid option" where
  "leaver code str = (if code = int CAPIO_REQUEST_EXIT_GROUP then map_option fst (scan_pid str) else None)"

text \<open>The discipline of the clients.\<close>

definition well_behaved :: "int \<Rightarrow> string \<Rightarrow> server \<Rightarrow> bool" where
  "well_behaved code str s \<longleftrightarrow>
     (\<forall>t. asker code str = Some t \<longrightarrow> t \<in> registered s \<and> owed s t = 0) \<and>
     (\<forall>t. leaver code str = Some t \<longrightarrow> owed s t = 0)"

inductive server_step :: "env \<Rightarrow> server \<Rightarrow> server \<Rightarrow> bool" for env :: env where
  request: "read_next_request req = Inr (code, str) \<Longrightarrow> well_behaved code str s \<Longrightarrow>
     serve env req s = Inr s' \<Longrightarrow> server_step env s s'"
| poll_creation: "fs_exists (srv_fs s) p \<Longrightarrow> unlockThreadAwaitingCreation p s = Inr s' \<Longrightarrow> server_step env s s'"
| poll_delete: "server_step env s (deleteFileAwaitingCreation p s)"
| poll_data: "monitor_data env [p] s = Inr s' \<Longrightarrow> server_step env s s'"
| collect: "bufs_response (srv_clients s) t = Some (v # vs) \<Longrightarrow>
     server_step env s (s\<lparr>srv_clients := (srv_clients s)\<lparr>bufs_response :=
       (bufs_response (srv_clients s))(t \<mapsto> vs)\<rparr>\<rparr>)"
| files_change: "server_step env s (s\<lparr>srv_fs := f\<rparr>)"

definition server_start :: "engine \<Rightarrow> fs \<Rightarrow> server" where
  "server_start eng f = \<lparr>srv_engine = eng, srv_clients = client_manager_init,
     srv_fm = \<lparr>thread_awaiting_file_creation = [], thread_awaiting_data = []\<rparr>, srv_fs = f\<rparr>"

inductive reachable :: "env \<Rightarrow> engine \<Rightarrow> server \<Rightarrow> bool" for env :: env and eng :: engine where
  start: "reachable env eng (server_start eng f)"
| step: "reachable env eng s \<Longrightarrow> server_step env s s' \<Longrightarrow> reachable env eng s'"

subsection \<open>The invariant\<close>

definition server_inv :: "server \<Rightarrow> bool" where
  "server_inv s \<longleftrightarrow> cm_wf (srv_clients s) \<and> umap_wf (srv_engine s) \<and> waiting_wf s \<and>
     (\<forall>t. owed s t \<le> 1) \<and> (\<forall>t. 0 < owed s t \<longrightarrow> t \<in> registered s)"

lemma keeps_cm_wf: "keeps s s' \<Longrightarrow> cm_wf (srv_clients s) \<Longrightarrow> cm_wf (srv_clients s')"
  by (auto simp: keeps_def cm_wf_def answers_grow_def)

lemma keeps_registered: "keeps s s' \<Longrightarrow> registered s' = registered s"
  by (simp add: keeps_def registered_def answers_grow_def)

lemma inv_conserves: "keeps s s' \<Longrightarrow> conserves s s' \<Longrightarrow> server_inv s \<Longrightarrow> server_inv s'"
  by (auto simp: server_inv_def keeps_cm_wf keeps_registered conserves_def) (simp add: keeps_def)

lemma inv_owes:
  "keeps s s' \<Longrightarrow> owes_one_more t s s' \<Longrightarrow> server_inv s \<Longrightarrow> owed s t = 0 \<Longrightarrow> t \<in> registered s \<Longrightarrow>
     server_inv s'"
  by (auto simp: server_inv_def keeps_cm_wf keeps_registered owes_one_more_def) (simp add: keeps_def)

lemma inv_shrink:
  assumes "server_inv s" and "\<And>u. owed s' u \<le> owed s u"
    and "\<And>u. 0 < owed s' u \<Longrightarrow> u \<in> registered s \<Longrightarrow> u \<in> registered s'"
    and "cm_wf (srv_clients s')" and "umap_wf (srv_engine s')" and "waiting_wf s'"
  shows "server_inv s'"
proof -
  have "owed s' u \<le> 1 \<and> (0 < owed s' u \<longrightarrow> u \<in> registered s')" for u
  proof -
    have "owed s u \<le> 1" "0 < owed s u \<longrightarrow> u \<in> registered s" using assms(1) by (auto simp: server_inv_def)
    with assms(2,3)[of u] show ?thesis by auto
  qed
  with assms(4-6) show ?thesis by (simp add: server_inv_def)
qed

lemma serve_handler:
  assumes "serve env req s = Inr s'" and "read_next_request req = Inr (code, str)"
  shows "\<exists>h. nat code < 12 \<and> 0 \<le> code \<and>
     build_request_handlers_table ! nat code = Some h \<and> h env str s = Inr s'"
  using assms
  by (auto simp: serve_def build_request_handlers_table_def request_codes
      simp del: replicate_Suc split: if_splits option.splits)

lemma handlers_table:
  "build_request_handlers_table = [Some consent_to_proceed_handler, None, Some close_handler,
     Some create_handler, Some exit_handler, Some handshake_named_handler,
     Some handshake_anonymous_handler, Some create_handler, Some open_handler, Some read_handler,
     Some rename_handler, Some write_handler]"
  by (simp add: build_request_handlers_table_def request_codes eval_nat_numeral)

text \<open>A request is served by the handler of its code.\<close>

lemma serve_cases:
  assumes "serve env req s = Inr s'" and "read_next_request req = Inr (code, str)"
  obtains "code = 0" "consent_to_proceed_handler env str s = Inr s'"
    | "code = 2" "close_handler env str s = Inr s'"
    | "code = 3 \<or> code = 7" "create_handler env str s = Inr s'"
    | "code = 4" "exit_handler env str s = Inr s'"
    | "code = 5" "handshake_named_handler env str s = Inr s'"
    | "code = 6" "handshake_anonymous_handler env str s = Inr s'"
    | "code = 8" "open_handler env str s = Inr s'"
    | "code = 9" "read_handler env str s = Inr s'"
    | "code = 10" "rename_handler env str s = Inr s'"
    | "code = 11" "write_handler env str s = Inr s'"
proof -
  from serve_handler[OF assms] obtain h where
    c: "0 \<le> code" and n: "nat code < 12" and h: "build_request_handlers_table ! nat code = Some h" "h env str s = Inr s'"
    by blast
  from c n have code: "code \<in> {0,1,2,3,4,5,6,7,8,9,10,11}" by (simp; presburger)
  show thesis using code h that by (elim insertE) (simp_all add: handlers_table)
qed

lemma register_inv:
  assumes "server_inv s"
  shows "server_inv (s\<lparr>srv_clients := register_new_client t a (srv_clients s)\<rparr>)"
proof -
  let ?s = "s\<lparr>srv_clients := register_new_client t a (srv_clients s)\<rparr>"
  have "registered s \<subseteq> registered ?s" by (auto simp: registered_def register_new_client_def)
  then show ?thesis
    using assms register_conserves[of s t a]
    by (auto simp: server_inv_def conserves_def cm_wf_register)
qed

lemma exit_inv:
  assumes inv: "server_inv s" and ex: "exit_handler env str s = Inr s'"
    and p: "scan_pid str = Some (t, r)" and 0: "owed s t = 0"
  shows "server_inv s'"
proof -
  have wf: "waiting_wf s" using inv by (simp add: server_inv_def)
  note e = exit_owed[OF ex p wf]
  from ex p obtain s1 where s1: "setCommitted_tid env t s = Inr s1"
      "s' = s1\<lparr>srv_clients := remove_client t (srv_clients s1)\<rparr>"
    by (auto simp: exit_handler_def do_exit_def res_simps)
  have k: "keeps s s1" using s1(1) by (auto simp: setCommitted_tid_def res_simps intro: keeps_setCommitted_all)
  have "registered s' = registered s - {t}"
    using keeps_registered[OF k] by (auto simp: s1(2) registered_def remove_client_def)
  moreover have "cm_wf (srv_clients s')" "umap_wf (srv_engine s')"
    using k inv by (simp_all add: s1(2) cm_wf_remove keeps_cm_wf server_inv_def) (simp add: keeps_def)
  moreover have "owed s' u \<le> owed s u" for u using e(1)[of u] e(2) by (cases "u = t") simp_all
  moreover have "owed s' t = 0" using e(2) 0 by simp
  ultimately show ?thesis using e(3) by (intro inv_shrink[OF inv]) auto
qed

lemma serve_inv:
  assumes inv: "server_inv s" and sv: "serve env req s = Inr s'"
    and rd: "read_next_request req = Inr (code, str)" and wb: "well_behaved code str s"
  shows "server_inv s'"
proof -
  have wf: "waiting_wf s" using inv by (simp add: server_inv_def)
  show ?thesis
  proof (cases rule: serve_cases[OF sv rd])
    case 1
    then obtain t r where p: "scan_pid str = Some (t, r)"
      by (auto simp: consent_to_proceed_handler_def do_consent_def res_simps)
    with wb 1(1) have "t \<in> registered s" "owed s t = 0"
      by (simp_all add: well_behaved_def asker_def request_codes)
    then show ?thesis using inv_owes[OF keeps_consent[OF 1(2)] consent_owes[OF 1(2) p wf] inv] by simp
  next
    case 4
    then obtain t r where p: "scan_pid str = Some (t, r)" by (auto simp: exit_handler_def do_exit_def res_simps)
    with wb 4(1) have "owed s t = 0" by (simp add: well_behaved_def leaver_def request_codes)
    then show ?thesis by (rule exit_inv[OF inv 4(2) p])
  next
    case 7
    then obtain t r where p: "scan_pid str = Some (t, r)" by (auto simp: open_handler_def do_open_def res_simps)
    with wb 7(1) have "t \<in> registered s" "owed s t = 0"
      by (simp_all add: well_behaved_def asker_def request_codes)
    then show ?thesis using inv_owes[OF keeps_open[OF 7(2)] open_owes[OF 7(2) p wf] inv] by simp
  next
    case 8
    then obtain path r0 t r where w: "scan_word str = Some (path, r0)" and p: "scan_pid r0 = Some (t, r)"
      by (auto simp: read_handler_def do_read_def res_simps)
    with wb 8(1) have "t \<in> registered s" "owed s t = 0"
      by (simp_all add: well_behaved_def asker_def request_codes)
    then show ?thesis using inv_owes[OF keeps_read[OF 8(2)] read_owes[OF 8(2) w p wf] inv] by simp
  next
    case 2
    show ?thesis by (rule inv_conserves[OF keeps_close[OF 2(2)] close_conserves[OF 2(2) wf] inv])
  next
    case 3
    show ?thesis by (rule inv_conserves[OF keeps_create[OF 3(2)] create_conserves[OF 3(2) wf] inv])
  next
    case 9
    show ?thesis by (rule inv_conserves[OF keeps_rename[OF 9(2)] rename_conserves[OF 9(2) wf] inv])
  next
    case 10
    show ?thesis by (rule inv_conserves[OF keeps_write[OF 10(2)] write_conserves[OF 10(2) wf] inv])
  qed (use register_inv[OF inv] in
      \<open>auto simp: handshake_named_handler_def do_handshake_def handshake_anonymous_handler_def res_simps\<close>)
qed

lemma collect_inv:
  assumes inv: "server_inv s" and b: "bufs_response (srv_clients s) t = Some (v # vs)"
  shows "server_inv (s\<lparr>srv_clients := (srv_clients s)\<lparr>bufs_response :=
       (bufs_response (srv_clients s))(t \<mapsto> vs)\<rparr>\<rparr>)" (is "server_inv ?s")
proof -
  have "owed ?s u \<le> owed s u" for u using b by (simp add: owed_def buffered_def)
  moreover have "registered ?s = registered s" using b by (auto simp: registered_def)
  moreover have "cm_wf (srv_clients ?s)"
    using inv b by (auto simp: server_inv_def cm_wf_def dom_update_known simp del: dom_fun_upd)
  moreover have "waiting_wf ?s" "umap_wf (srv_engine ?s)"
    using inv by (simp_all add: server_inv_def waiting_wf_def)
  ultimately show ?thesis by (intro inv_shrink[OF inv]) simp_all
qed

lemma delete_keeps: "keeps s (deleteFileAwaitingCreation p s)"
  by (simp add: deleteFileAwaitingCreation_def keeps_clients_fm)

lemma delete_inv:
  assumes "server_inv s"
  shows "server_inv (deleteFileAwaitingCreation p s)"
proof -
  have w: "waiting_wf s" using assms by (simp add: server_inv_def)
  note k = delete_keeps[of s p]
  have "owed (deleteFileAwaitingCreation p s) u \<le> owed s u" for u using delete_owed(1)[OF w, of p u] by simp
  moreover have "umap_wf (srv_engine (deleteFileAwaitingCreation p s))"
    using k assms by (simp add: keeps_def server_inv_def)
  ultimately show ?thesis
    using keeps_cm_wf[OF k] keeps_registered[OF k] delete_owed(2)[OF w] assms
    by (intro inv_shrink[OF assms]) (simp_all add: server_inv_def)
qed

lemma step_inv: "server_step env s s' \<Longrightarrow> server_inv s \<Longrightarrow> server_inv s'"
proof (induction rule: server_step.induct)
  case (request req code str s s')
  then show ?case by (blast intro: serve_inv)
next
  case (poll_creation s p s')
  then have "waiting_wf s" by (simp add: server_inv_def)
  then show ?case
    using inv_conserves[OF keeps_same[OF same_unlockCreation]] unlockCreation_conserves poll_creation by blast
next
  case (poll_delete s p)
  then show ?case by (rule delete_inv)
next
  case (poll_data p s s')
  then have "waiting_wf s" by (simp add: server_inv_def)
  moreover have "keeps s s'" using poll_data(1)
    by (auto simp: res_simps split: if_splits intro: keeps_manager)
  ultimately show ?case using inv_conserves monitor_data_conserves poll_data by blast
next
  case (collect s t v vs)
  then show ?case by (blast intro: collect_inv)
next
  case (files_change s f)
  then show ?case by (simp add: server_inv_def waiting_wf_def owed_def registered_def)
qed

lemma start_inv: "umap_wf eng \<Longrightarrow> server_inv (server_start eng f)"
  using cm_wf_init
  by (simp add: server_inv_def server_start_def waiting_wf_def owed_def buffered_def
      client_manager_init_def in_creation_def in_data_def table_sum_def)

lemma reachable_inv: "reachable env eng s \<Longrightarrow> umap_wf eng \<Longrightarrow> server_inv s"
  by (induction rule: reachable.induct) (auto intro: start_inv step_inv)

subsection \<open>What the invariant gives\<close>

lemma owed_in_list_room:
  assumes inv: "server_inv s" and w: "0 < in_creation (srv_fm s) t + in_data (srv_fm s) t"
  shows "has_room (srv_clients s) t"
proof -
  have o: "owed s t \<le> 1" "t \<in> registered s" using inv w by (auto simp: server_inv_def owed_def)
  then obtain b where b: "bufs_response (srv_clients s) t = Some b" by (auto simp: registered_def)
  with o(1) w have "length b = 0" by (simp only: owed_def buffered_def option.case)
  with b show ?thesis by (simp add: has_room_def CAPIO_REQ_BUFF_CNT_def)
qed

lemma creation_waiter_counted:
  "count_list (creation_waiters s p) t \<le> in_creation (srv_fm s) t"
proof (cases "map_of (thread_awaiting_file_creation (srv_fm s)) p")
  case None
  then show ?thesis by (simp add: creation_waiters_def)
next
  case (Some ts)
  then show ?thesis
    using table_sum_ge[OF Some, of "\<lambda>ts. count_list ts t"] by (simp add: in_creation_def creation_waiters_def)
qed

lemma distinct_count: "(\<And>x. count_list xs x \<le> 1) \<Longrightarrow> distinct xs"
proof (induction xs)
  case (Cons a xs)
  have "count_list xs a = 0" using Cons.prems[of a] by simp
  moreover have "count_list xs x \<le> 1" for x using Cons.prems[of x] by (auto split: if_splits)
  ultimately show ?case using Cons.IH by (simp add: count_list_0_iff)
qed simp

text \<open>Waking the threads that wait for a path to be created always succeeds.\<close>

lemma creation_wakes:
  assumes inv: "server_inv s"
  shows "\<exists>s'. unlockThreadAwaitingCreation p s = Inr s' \<and>
     (\<forall>t \<in> set (creation_waiters s p). bufs_response (srv_clients s') t = Some [1]) \<and>
     creation_waiters s' p = []"
proof -
  have le: "in_creation (srv_fm s) t \<le> 1" for t
  proof -
    have "owed s t \<le> 1" using inv by (simp add: server_inv_def)
    then show ?thesis by (simp add: owed_def)
  qed
  have d: "distinct (creation_waiters s p)"
    using creation_waiter_counted[of s p] le le_trans by (intro distinct_count) blast
  have room: "\<forall>t \<in> set (creation_waiters s p). has_room (srv_clients s) t"
  proof
    fix t assume "t \<in> set (creation_waiters s p)"
    then have "0 < count_list (creation_waiters s p) t" by (metis count_list_0_iff gr0I)
    then show "has_room (srv_clients s) t"
      using owed_in_list_room[OF inv, of t] creation_waiter_counted[of s p t] by simp
  qed
  from unlockThreadAwaitingCreation_answers[OF d room] obtain s' where
    s': "unlockThreadAwaitingCreation p s = Inr s'"
      "bufs_response (srv_clients s') = answered (set (creation_waiters s p)) 1 (bufs_response (srv_clients s))"
      "creation_waiters s' p = []" by auto
  have "bufs_response (srv_clients s') t = Some [1]" if t: "t \<in> set (creation_waiters s p)" for t
  proof -
    have "0 < count_list (creation_waiters s p) t" using t by (metis count_list_0_iff gr0I)
    then have "0 < in_creation (srv_fm s) t" using creation_waiter_counted[of s p t] by simp
    moreover have "owed s t \<le> 1" using inv by (simp add: server_inv_def)
    ultimately have "buffered (srv_clients s) t = 0" by (simp add: owed_def)
    moreover obtain b where "bufs_response (srv_clients s) t = Some b"
      using room t by (auto simp: has_room_def)
    ultimately show ?thesis using t by (simp add: s'(2) answered_def buffered_def)
  qed
  with s' show ?thesis by blast
qed

lemma data_waiter_counted:
  assumes "t \<in> fst ` set (data_waiters s p)"
  shows "0 < in_data (srv_fm s) t"
proof (cases "map_of (thread_awaiting_data (srv_fm s)) p")
  case None
  then show ?thesis using assms by (simp add: data_waiters_def)
next
  case (Some th)
  then have "t \<in> set (map fst th)"
    using assms by (simp add: data_waiters_def)
  then have "0 < count_list (map fst th) t"
    by (metis count_list_0_iff gr0I)
  then show ?thesis
    using table_sum_ge[OF Some, of "\<lambda>th. count_list (map fst th) t"] by (simp add: in_data_def)
qed

text \<open>Checking the threads that wait for data succeeds and answers those the rule releases.\<close>

lemma data_wakes:
  assumes inv: "server_inv s" and e: "map_of (srv_engine s) p \<noteq> None"
    and c: "isCommitted env p s = Inr (c, s)" and v: "filesize_of (srv_fs s) p = Inr v"
  shows "\<exists>s'. checkAndUnlockThreadAwaitingData env p s = Inr s' \<and>
    (\<forall>t \<in> fst ` set (data_waiters s p). released s p c v t \<longrightarrow> bufs_response (srv_clients s') t = Some [v])"
proof -
  have wf: "umap_wf (data_waiters s p)"
    using inv by (auto simp: server_inv_def waiting_wf_def data_waiters_def split: option.splits)
  have room: "has_room (srv_clients s) t" if "t \<in> fst ` set (data_waiters s p)" for t
    using owed_in_list_room[OF inv, of t] data_waiter_counted[OF that] by simp
  have prod: "\<exists>b. isProducer (srv_clients s) (srv_engine s) p t = Inr b" if "t \<in> fst ` set (data_waiters s p)" for t
  proof -
    have "t \<in> dom (bufs_response (srv_clients s))" using room[OF that] by (auto simp: has_room_def)
    moreover have "dom (bufs_response (srv_clients s)) \<subseteq> dom (app_names (srv_clients s))"
      using inv unfolding server_inv_def cm_wf_def by blast
    ultimately obtain a where "app_names (srv_clients s) t = Some a" by blast
    then show ?thesis using e by (auto simp: isProducer_def get_app_name_def)
  qed
  have "\<forall>(t, n) \<in> set (data_waiters s p). has_room (srv_clients s) t \<and>
      (\<exists>b. isProducer (srv_clients s) (srv_engine s) p t = Inr b)"
    using room prod by force
  from unlock_loop_progress[OF wf c v this] obtain s' where s': "checkAndUnlockThreadAwaitingData env p s = Inr s'"
    by (auto simp: checkAndUnlockThreadAwaitingData_def data_waiters_def split: option.splits)
  have "bufs_response (srv_clients s') t = Some [v]"
    if t: "t \<in> fst ` set (data_waiters s p)" and r: "released s p c v t" for t
  proof -
    have "owed s t \<le> 1" using inv by (simp add: server_inv_def)
    then have "buffered (srv_clients s) t = 0" using data_waiter_counted[OF t] by (simp add: owed_def)
    moreover obtain b where "bufs_response (srv_clients s) t = Some b"
      using room[OF t] by (auto simp: has_room_def)
    ultimately show ?thesis
      using t r by (simp add: checkAndUnlock_partition(2)[OF s' wf c v] answered_def buffered_def)
  qed
  with s' show ?thesis by blast
qed

subsection \<open>No file is ever recorded for an exit\<close>

lemma setCommitted_all_Nil: "setCommitted_tid env t s = Inr s' \<Longrightarrow>
    files_to_be_committed_by_tid (srv_clients s) t = Some [] \<Longrightarrow> s' = s"
  by (auto simp: setCommitted_tid_def get_produced_files_def res_simps)

definition nothing_recorded :: "server \<Rightarrow> bool" where
  "nothing_recorded s \<longleftrightarrow> (\<forall>t fs. files_to_be_committed_by_tid (srv_clients s) t = Some fs \<longrightarrow> fs = [])"

lemma nothing_recorded_keeps: "keeps s s' \<Longrightarrow> nothing_recorded s \<Longrightarrow> nothing_recorded s'"
  by (simp add: keeps_def nothing_recorded_def)

text \<open>A request either keeps the clients as they are, or adds one, or removes one.\<close>

lemma serve_effect:
  assumes "serve env req s = Inr s'" and "read_next_request req = Inr (code, str)"
  obtains (kept) "keeps s s'"
    | (joined) t a where "s' = s\<lparr>srv_clients := register_new_client t a (srv_clients s)\<rparr>"
    | (gone) t s1 where "setCommitted_tid env t s = Inr s1"
        "s' = s1\<lparr>srv_clients := remove_client t (srv_clients s1)\<rparr>"
proof (cases rule: serve_cases[OF assms])
  case 1 then show thesis using keeps_consent kept by blast
next
  case 2 then show thesis using keeps_close kept by blast
next
  case 3 then show thesis using keeps_create kept by blast
next
  case 4 then show thesis using gone by (auto simp: exit_handler_def do_exit_def res_simps)
next
  case 5 then show thesis using joined by (auto simp: handshake_named_handler_def do_handshake_def res_simps)
next
  case 6 then show thesis using joined by (auto simp: handshake_anonymous_handler_def do_handshake_def res_simps)
next
  case 7 then show thesis using keeps_open kept by blast
next
  case 8 then show thesis using keeps_read kept by blast
next
  case 9 then show thesis using keeps_rename kept by blast
next
  case 10 then show thesis using keeps_write kept by blast
qed

lemma nothing_recorded_serve:
  assumes "serve env req s = Inr s'" and "read_next_request req = Inr (code, str)" and "nothing_recorded s"
  shows "nothing_recorded s'"
proof (cases rule: serve_effect[OF assms(1,2)])
  case 1
  then show ?thesis using nothing_recorded_keeps assms(3) by blast
next
  case (2 t a)
  then show ?thesis using assms(3)
    by (simp add: nothing_recorded_def register_new_client_def map_emplace_apply)
next
  case (3 t s1)
  then have "keeps s s1" by (auto simp: setCommitted_tid_def res_simps intro: keeps_setCommitted_all)
  then show ?thesis using nothing_recorded_keeps assms(3) 3(2)
    by (fastforce simp: nothing_recorded_def remove_client_def)
qed

lemma nothing_recorded_step: "server_step env s s' \<Longrightarrow> nothing_recorded s \<Longrightarrow> nothing_recorded s'"
proof (induction rule: server_step.induct)
  case (request req code str s s')
  then show ?case using nothing_recorded_serve by blast
next
  case (poll_creation s p s')
  then show ?case using nothing_recorded_keeps[OF keeps_same[OF same_unlockCreation]] by blast
next
  case (poll_delete s p)
  then show ?case using nothing_recorded_keeps[OF delete_keeps] by blast
next
  case (poll_data p s s')
  then have "keeps s s'" by (auto simp: res_simps split: if_splits intro: keeps_manager)
  then show ?case using nothing_recorded_keeps poll_data by blast
qed (simp_all add: nothing_recorded_def)

lemma nothing_recorded_reachable: "reachable env eng s \<Longrightarrow> nothing_recorded s"
proof (induction rule: reachable.induct)
  case (start f)
  show ?case by (simp add: nothing_recorded_def server_start_def client_manager_init_def)
qed (blast intro: nothing_recorded_step)

subsection \<open>Properties\<close>

lemma serve_at:
  assumes "read_next_request req = Inr (int c, str)" and "c < 12"
    and "build_request_handlers_table ! c = Some h"
  shows "serve env req s = h env str s"
  using assms by (simp add: serve_def handlers_table CAPIO_NR_REQUESTS_def)

text \<open>A run for the examples: thread 1 joins, then asks for a file that does not exist.\<close>

definition joined_server :: server where
  "joined_server = (server_start [] sample_fs)\<lparr>srv_clients :=
     register_new_client 1 CAPIO_DEFAULT_APP_NAME client_manager_init\<rparr>"

definition asking_server :: server where
  "asking_server = addThreadAwaitingCreation ''/d/n'' 1 joined_server"

lemma joined_reachable: "reachable sample_env [] joined_server"
proof (rule reachable.step[OF reachable.start])
  let ?r = "''0006 1 1'' @ [CHR 0x00]"
  have r: "read_next_request ?r = Inr (6, ''1 1'')" by code_simp
  have p: "scan_pid ''1 1'' = Some (1, '' 1'')" by code_simp
  have "well_behaved 6 ''1 1'' (server_start [] sample_fs)"
    by (simp add: well_behaved_def asker_def leaver_def request_codes)
  moreover have "serve sample_env ?r (server_start [] sample_fs) = Inr joined_server"
    using serve_at[of ?r 6 "''1 1''" handshake_anonymous_handler] r p
    by (simp add: handlers_table handshake_anonymous_handler_def do_handshake_def joined_server_def
        server_start_def)
  ultimately show "server_step sample_env (server_start [] sample_fs) joined_server"
    using r server_step.request by blast
qed

lemma joined_opens: "do_open 1 ''/d/n'' joined_server = Inr asking_server"
proof -
  have "\<not> fs_exists sample_fs ''/d/n''" by code_simp
  then show ?thesis
    by (simp add: do_open_def joined_server_def server_start_def isProducer_def get_app_name_def
        register_new_client_def map_emplace_def client_manager_init_def asking_server_def)
qed

lemma asking_reachable: "reachable sample_env [] asking_server"
proof (rule reachable.step[OF joined_reachable])
  let ?r = "''0008 1 3 /d/n'' @ [CHR 0x00]"
  have r: "read_next_request ?r = Inr (8, ''1 3 /d/n'')" by code_simp
  have p: "scan_pid ''1 3 /d/n'' = Some (1, '' 3 /d/n'')" "scan_pid '' 3 /d/n'' = Some (3, '' /d/n'')"
    "scan_word '' /d/n'' = Some (''/d/n'', [])"
    by code_simp+
  have "registered joined_server = {1}" "owed joined_server 1 = 0"
    by (auto simp: registered_def joined_server_def register_new_client_def client_manager_init_def
        map_emplace_def owed_def buffered_def in_creation_def in_data_def table_sum_def server_start_def)
  with p have "well_behaved 8 ''1 3 /d/n'' joined_server"
    by (simp add: well_behaved_def asker_def leaver_def request_codes)
  moreover have "serve sample_env ?r joined_server = Inr asking_server"
    using joined_opens serve_at[of ?r 8 "''1 3 /d/n''" open_handler] r p
    by (simp add: handlers_table open_handler_def)
  ultimately show "server_step sample_env joined_server asking_server"
    using r server_step.request by blast
qed

lemma asking_waits: "creation_waiters asking_server ''/d/n'' = [1]"
proof -
  have "creation_waiters joined_server ''/d/n'' = []"
    by (simp add: creation_waiters_def joined_server_def server_start_def)
  then show ?thesis by (simp add: asking_server_def creation_waiters_add)
qed

text \<open>A request that asks for an answer (consent, open, read) leaves exactly one more answer owed to
  the thread that asked and none to anybody else; every other request but an exit leaves what is
  owed unchanged.\<close>

theorem request_owes_one:
  assumes "serve env req s = Inr s'" and "read_next_request req = Inr (code, str)"
    and "server_inv s" and "well_behaved code str s" and "leaver code str = None"
  shows "owed s' u = owed s u + (if asker code str = Some u then 1 else 0)"
proof -
  have wf: "waiting_wf s" using assms(3) by (simp add: server_inv_def)
  show ?thesis
  proof (cases rule: serve_cases[OF assms(1,2)])
    case 1
    then obtain t r where p: "scan_pid str = Some (t, r)"
      by (auto simp: consent_to_proceed_handler_def res_simps)
    with assms(4) 1(1) have "owed s t = 0" by (simp add: well_behaved_def asker_def request_codes)
    with consent_owes[OF 1(2) p wf] 1(1) p show ?thesis
      by (auto simp: owes_one_more_def asker_def request_codes)
  next
    case 4
    then show ?thesis using assms(5) by (auto simp: leaver_def request_codes exit_handler_def res_simps)
  next
    case 7
    then obtain t r where p: "scan_pid str = Some (t, r)" by (auto simp: open_handler_def res_simps)
    with open_owes[OF 7(2) p wf] 7(1) show ?thesis
      by (auto simp: owes_one_more_def asker_def request_codes)
  next
    case 8
    then obtain path r0 t r where w: "scan_word str = Some (path, r0)" and p: "scan_pid r0 = Some (t, r)"
      by (auto simp: read_handler_def res_simps)
    with assms(4) 8(1) have "owed s t = 0" by (simp add: well_behaved_def asker_def request_codes)
    with read_owes[OF 8(2) w p wf] 8(1) w p show ?thesis
      by (auto simp: owes_one_more_def asker_def request_codes)
  next
    case 2
    with close_conserves[OF 2(2) wf] show ?thesis by (simp add: conserves_def asker_def request_codes)
  next
    case 3
    with create_conserves[OF 3(2) wf] show ?thesis by (auto simp: conserves_def asker_def request_codes)
  next
    case 5
    with handshakes_conserve(2)[OF 5(2)] show ?thesis by (simp add: conserves_def asker_def request_codes)
  next
    case 6
    with handshakes_conserve(1)[OF 6(2)] show ?thesis by (simp add: conserves_def asker_def request_codes)
  next
    case 9
    with rename_conserves[OF 9(2) wf] show ?thesis by (simp add: conserves_def asker_def request_codes)
  next
    case 10
    with write_conserves[OF 10(2) wf] show ?thesis by (simp add: conserves_def asker_def request_codes)
  qed
qed

lemma request_owes_one_witness:
  "\<exists>s'. serve sample_env (''0008 1 3 /d'' @ [CHR 0x00]) joined_server = Inr s' \<and> owed s' 1 = owed joined_server 1 + 1"
proof -
  let ?r = "''0008 1 3 /d'' @ [CHR 0x00]"
  have r: "read_next_request ?r = Inr (8, ''1 3 /d'')" by code_simp
  have p: "scan_pid ''1 3 /d'' = Some (1, '' 3 /d'')" by code_simp
  have "registered joined_server = {1}" "owed joined_server 1 = 0"
    by (auto simp: registered_def joined_server_def register_new_client_def client_manager_init_def
        map_emplace_def owed_def buffered_def in_creation_def in_data_def table_sum_def server_start_def)
  with p have wb: "well_behaved 8 ''1 3 /d'' joined_server" "leaver 8 ''1 3 /d'' = None"
    "asker 8 ''1 3 /d'' = Some 1"
    by (simp_all add: well_behaved_def asker_def leaver_def request_codes)
  have "case serve sample_env ?r joined_server of Inl _ \<Rightarrow> False | Inr _ \<Rightarrow> True" by code_simp
  then obtain s' where s': "serve sample_env ?r joined_server = Inr s'" by (auto split: sum.splits)
  have "server_inv joined_server" using reachable_inv[OF joined_reachable] by simp
  from request_owes_one[OF s' r this wb(1,2), of 1] s' wb(3) show ?thesis by simp
qed

text \<open>What a step may take away: an answer the thread collects, and the place in a list that is deleted.\<close>

lemma step_takes:
  assumes inv: "server_inv s" and st: "server_step env s s'" and less: "owed s' u < owed s u"
  shows "(\<exists>v vs. bufs_response (srv_clients s) u = Some (v # vs) \<and> bufs_response (srv_clients s') u = Some vs) \<or>
    (\<exists>p. u \<in> set (creation_waiters s p) \<and> s' = deleteFileAwaitingCreation p s)"
  using st
proof cases
  case (request req code str)
  show ?thesis
  proof (cases "leaver code str")
    case None
    with request_owes_one[OF request(3,1) inv request(2), of u] less show ?thesis by simp
  next
    case (Some t)
    then obtain r where p: "scan_pid str = Some (t, r)" "code = 4"
      by (auto simp: leaver_def request_codes split: if_splits)
    have ex: "exit_handler env str s = Inr s'" using p(2) by (cases rule: serve_cases[OF request(3,1)]) auto
    have "waiting_wf s" "owed s t = 0" using inv request(2) Some by (simp_all add: server_inv_def well_behaved_def)
    with exit_owed[OF ex p(1)] less show ?thesis by (cases "u = t") auto
  qed
next
  case (poll_creation p)
  with unlockCreation_conserves[OF poll_creation(2)] inv less show ?thesis
    by (simp add: server_inv_def conserves_def)
next
  case (poll_delete p)
  have "waiting_wf s" using inv by (simp add: server_inv_def)
  from delete_owed(1)[OF this, of p u] less poll_delete have "0 < count_list (creation_waiters s p) u" by simp
  then have "u \<in> set (creation_waiters s p)" by (metis count_list_0_iff less_irrefl)
  with poll_delete show ?thesis by blast
next
  case (poll_data p)
  with monitor_data_conserves[OF poll_data(1)] inv less show ?thesis
    by (simp add: server_inv_def conserves_def)
next
  case (collect t v vs)
  then show ?thesis using less by (auto simp: owed_def buffered_def split: if_splits)
next
  case (files_change f)
  then show ?thesis using less by (simp add: owed_def)
qed

text \<open>C1: In every state the server can reach from its start, with clients that ask one thing at a time
  and with requests, calls of the monitor, collected answers and changes of the file system in any
  order, a request being one step: at most one answer is owed to a thread, only to a registered one,
  and the tables of the clients agree with each other; so no answer is doubled or sent to nobody. In
  the next step an owed answer goes away in two ways only: the thread collects it, or the monitor
  deletes the list of a path after it has woken its threads (\<open>fs_monitor.hpp\<close>), when the thread is on
  that list; in that way an answer can be lost.\<close>

theorem one_answer_owed:
  assumes "reachable env eng s" and "umap_wf eng"
  shows "owed s t \<le> 1 \<and> (0 < owed s t \<longrightarrow> t \<in> registered s) \<and> cm_wf (srv_clients s) \<and>
    umap_wf (srv_engine s) \<and> waiting_wf s \<and>
    (\<forall>s'. server_step env s s' \<and> owed s' t < owed s t \<longrightarrow>
      (\<exists>v vs. bufs_response (srv_clients s) t = Some (v # vs) \<and> bufs_response (srv_clients s') t = Some vs) \<or>
      (\<exists>p. t \<in> set (creation_waiters s p) \<and> s' = deleteFileAwaitingCreation p s))"
proof -
  have inv: "server_inv s" by (rule reachable_inv[OF assms])
  then show ?thesis using step_takes[OF inv] unfolding server_inv_def by blast
qed

lemma one_answer_owed_witness:
  "reachable sample_env [] asking_server \<and> owed asking_server 1 \<le> 1 \<and> 0 < owed asking_server 1 \<and>
   1 \<in> registered asking_server"
proof -
  have "0 < count_list (creation_waiters asking_server ''/d/n'') 1" by (simp add: asking_waits)
  also have "\<dots> \<le> in_creation (srv_fm asking_server) 1" by (rule creation_waiter_counted)
  finally have "0 < owed asking_server 1" by (simp add: owed_def)
  with one_answer_owed[OF asking_reachable, of 1] asking_reachable show ?thesis by simp
qed

text \<open>In a reachable state, waking the threads that wait for a path to be created always succeeds,
  and leaves each of them with exactly one answer to collect and the list empty: no reply throws
  for an unknown thread or blocks on a full buffer.\<close>

theorem waking_never_blocks:
  assumes "reachable env eng s" and "umap_wf eng"
  shows "\<exists>s'. unlockThreadAwaitingCreation p s = Inr s' \<and>
     (\<forall>t \<in> set (creation_waiters s p). bufs_response (srv_clients s') t = Some [1]) \<and>
     creation_waiters s' p = []"
  using creation_wakes[OF reachable_inv[OF assms]] .

lemma waking_never_blocks_witness:
  "\<exists>s'. unlockThreadAwaitingCreation ''/d/n'' asking_server = Inr s' \<and>
     bufs_response (srv_clients s') 1 = Some [1]"
  using waking_never_blocks[OF asking_reachable, of "''/d/n''"] asking_waits by auto

text \<open>No file is ever recorded for the thread that exits, because nothing calls
  \<open>add_producer_file_path\<close>: in every reachable state the exit of a thread commits nothing and only
  removes the thread, so a file with the rule \<open>on_termination\<close> is not committed by it.\<close>

theorem exit_commits_nothing:
  assumes "reachable env eng s" and "umap_wf eng" and "t \<in> registered s"
  shows "do_exit env t s = Inr (s\<lparr>srv_clients := remove_client t (srv_clients s)\<rparr>)"
proof -
  have "cm_wf (srv_clients s)" using reachable_inv[OF assms(1,2)] by (simp add: server_inv_def)
  with assms(3) obtain fs where fs: "files_to_be_committed_by_tid (srv_clients s) t = Some fs"
    by (auto simp: cm_wf_def registered_def)
  with nothing_recorded_reachable[OF assms(1)] have "fs = []" by (simp add: nothing_recorded_def)
  with fs show ?thesis by (simp add: do_exit_def setCommitted_tid_def get_produced_files_def)
qed

lemma exit_commits_nothing_witness:
  "do_exit sample_env 1 joined_server =
     Inr (joined_server\<lparr>srv_clients := remove_client 1 (srv_clients joined_server)\<rparr>)"
  by (rule exit_commits_nothing[OF joined_reachable])
     (simp_all add: registered_def joined_server_def register_new_client_def map_emplace_def
       client_manager_init_def dom_def)

text \<open>The loop that serves requests ends the server for a code below zero or above twelve. Two codes
  inside that range have no handler: one (clone), whose entry is null, and twelve, which the bound
  lets through although the table has twelve entries.\<close>

theorem codes_without_handler:
  "(read_next_request req = Inr (code, str) \<and> (code < 0 \<or> 12 < code) \<longrightarrow> serve env req s = Inl ErrExit) \<and>
   (read_next_request req = Inr (1, str) \<longrightarrow> serve env req s = Inl Undefined) \<and>
   (read_next_request req = Inr (12, str) \<longrightarrow> serve env req s = Inl Undefined)"
  by (simp add: serve_def handlers_table CAPIO_NR_REQUESTS_def)

lemma codes_without_handler_witness:
  "serve sample_env (''0012 1'' @ [CHR 0x00]) joined_server = Inl Undefined \<and>
   serve sample_env (''0013 1'' @ [CHR 0x00]) joined_server = Inl ErrExit"
proof -
  have "read_next_request (''0012 1'' @ [CHR 0x00]) = Inr (12, ''1'')"
    "read_next_request (''0013 1'' @ [CHR 0x00]) = Inr (13, ''1'')"
    by code_simp+
  with codes_without_handler[of "''0012 1'' @ [CHR 0x00]" 12 "''1''"]
    codes_without_handler[of "''0013 1'' @ [CHR 0x00]" 13 "''1''"]
  show ?thesis by simp
qed

end
