(* ===== verification/JsonParser.thy ===== *)
theory JsonParser
  imports CLEngine CScan FileSys
begin

text \<open>
  \<open>JsonParser::parse\<close> of \<open>src/server/capio-cl-engine/json_parser.hpp\<close>: from a CAPIO-CL document to
  the table of \<open>CLEngine\<close>. The document is a parameter: the records hold what the lookups of the
  \<open>simdjson\<close> package answer, \<open>None\<close> for an error code; an element of an array is \<open>None\<close> when it is
  not a string. That an answer does not depend on the lookups made before is documented behaviour of
  the package. Output to the terminal is left out. Where the source passes \<open>name.data()\<close> of a string
  view as a C string, the text is taken to end with the view, as the package's buffer of unescaped
  strings makes it.
\<close>

type_synonym json_strings = "string option list option"

record stream_doc =
  sd_name :: json_strings
  sd_dirname :: json_strings
  sd_committed :: "string option"
  sd_file_deps :: json_strings
  sd_mode :: "string option"
  sd_n_files :: "int option"
  sd_batch_size :: "int option"

record app_doc =
  ad_name :: "string option"
  ad_input_stream :: json_strings
  ad_output_stream :: json_strings
  ad_streaming :: "stream_doc list option"

record config_doc =
  cd_name :: "string option"
  cd_io_graph :: "app_doc list option"
  cd_permanent :: json_strings
  cd_exclude :: json_strings

text \<open>An error code that ends the server, and one that \<open>value ()\<close> throws.\<close>

definition or_exit :: "'a option \<Rightarrow> 'a res" where
  "or_exit x = (case x of None \<Rightarrow> Inl ErrExit | Some v \<Rightarrow> Inr v)"

definition or_json_error :: "'a option \<Rightarrow> 'a res" where
  "or_json_error x = (case x of None \<Rightarrow> Inl JsonError | Some v \<Rightarrow> Inr v)"

lemma or_simps [simp]:
  "or_exit None = Inl ErrExit" "or_exit (Some v) = Inr v"
  "or_json_error None = Inl JsonError" "or_json_error (Some v) = Inr v"
  by (simp_all add: or_exit_def or_json_error_def)

lemma or_Inr [res_simps]:
  "or_exit x = Inr v \<longleftrightarrow> x = Some v" "or_json_error x = Inr v \<longleftrightarrow> x = Some v"
  by (cases x; simp)+

subsection \<open>The sections of an application\<close>

definition is_relative :: "string \<Rightarrow> bool" where
  "is_relative p = (\<not> is_absolute p)"

text \<open>The loops over \<open>input_stream\<close> and \<open>output_stream\<close>; other files are ignored.\<close>

definition in_capio_dir :: "string \<Rightarrow> string \<Rightarrow> bool" where
  "in_capio_dir dir file = (is_relative file \<or> first_is_subpath_of_second file dir)"

definition location :: "string \<Rightarrow> string \<Rightarrow> string" where
  "location dir file = (if is_relative file then path_append dir file else file)"

fun parse_inputs :: "string \<Rightarrow> string \<Rightarrow> string option list \<Rightarrow> engine \<Rightarrow> engine res" where
  "parse_inputs dir app [] eng = Inr eng"
| "parse_inputs dir app (itm # itms) eng =
     rbind (or_json_error itm) (\<lambda>file.
       if in_capio_dir dir file then
         rbind (newFile (location dir file) eng) (\<lambda>eng1.
           parse_inputs dir app itms (addConsumer (location dir file) app eng1))
       else parse_inputs dir app itms eng)"

fun parse_outputs :: "string \<Rightarrow> string \<Rightarrow> string option list \<Rightarrow> engine \<Rightarrow> engine res" where
  "parse_outputs dir app [] eng = Inr eng"
| "parse_outputs dir app (itm # itms) eng =
     rbind (or_json_error itm) (\<lambda>file.
       if in_capio_dir dir file then
         rbind (newFile (location dir file) eng) (\<lambda>eng1.
         rbind (addProducer (location dir file) app eng1) (parse_outputs dir app itms))
       else parse_outputs dir app itms eng)"

text \<open>\<open>name\<close>, or else \<open>dirname\<close>; an empty array is as bad as none. The flag is \<open>is_file\<close>.\<close>

definition stream_entry :: "stream_doc \<Rightarrow> (bool \<times> string option list) res" where
  "stream_entry sd =
     (case sd_name sd of
        Some (n # ns) \<Rightarrow> Inr (True, n # ns)
      | _ \<Rightarrow> (case sd_dirname sd of Some (n # ns) \<Rightarrow> Inr (False, n # ns) | _ \<Rightarrow> Inl ErrExit))"

fun stream_names :: "string \<Rightarrow> string option list \<Rightarrow> string list res" where
  "stream_names dir [] = Inr []"
| "stream_names dir (item # items) =
     rbind (or_json_error item) (\<lambda>elem.
     rbind (stream_names dir items) (\<lambda>es.
       Inr (if in_capio_dir dir elem then elem # es else es)))"

text \<open>\<open>stol\<close> of a text \<open>is_int\<close> accepts: it throws when the number does not fit a \<open>long\<close>.\<close>

definition stol :: "string \<Rightarrow> int res" where
  "stol s = (case scan_int s of None \<Rightarrow> Inl Undefined
     | Some (i, _) \<Rightarrow> if - LONG_MAX - 1 \<le> i \<and> i \<le> LONG_MAX then Inr i else Inl OutOfRange)"

text \<open>The commit rule and the number of closes: \<open>rule\<close>, or \<open>on_close:n\<close>.\<close>

definition parse_committed :: "string \<Rightarrow> (string \<times> int) res" where
  "parse_committed committed =
     (if CHR '':'' \<in> set committed then
        let commit_rule = takeWhile (\<lambda>c. c \<noteq> CHR '':'') committed;
            n_close_str = tl (dropWhile (\<lambda>c. c \<noteq> CHR '':'') committed)
        in if commit_rule \<noteq> CAPIO_FILE_COMMITTED_ON_CLOSE then Inl ErrExit
           else if \<not> is_int n_close_str then Inl ErrExit
           else rbind (stol n_close_str) (\<lambda>n_close. Inr (commit_rule, n_close))
      else Inr (committed, -1))"

fun parse_file_deps :: "string \<Rightarrow> string option list \<Rightarrow> string list res" where
  "parse_file_deps dir [] = Inr []"
| "parse_file_deps dir (itm # itms) =
     rbind (or_json_error itm) (\<lambda>name.
     rbind (parse_file_deps dir itms) (\<lambda>ds. Inr (location dir name # ds)))"

record stream_rules =
  sr_is_file :: bool
  sr_commit :: string
  sr_fire :: string
  sr_n_close :: int
  sr_n_files :: int
  sr_deps :: "string list"

text \<open>The body of the loop over the names, and the loop.\<close>

definition stream_path :: "string \<Rightarrow> string \<Rightarrow> string" where
  "stream_path dir p = (if is_relative p then lexically_normal (path_append dir p) else p)"

definition set_rules :: "stream_rules \<Rightarrow> string \<Rightarrow> engine \<Rightarrow> engine" where
  "set_rules sr path eng =
     (let eng1 = (if sr_n_files sr \<noteq> -1 then setDirectoryFileCount path (sr_n_files sr) eng else eng);
          eng2 = (if sr_is_file sr then setFile path eng1 else setDirectory path eng1);
          eng3 = setCommitRule path (sr_commit sr) eng2;
          eng4 = setFireRule path (sr_fire sr) eng3
      in setCommitedNumber path (sr_n_close sr) eng4)"

definition apply_rules :: "stream_rules \<Rightarrow> string \<Rightarrow> engine \<Rightarrow> engine res" where
  "apply_rules sr path eng = setFileDeps path (sr_deps sr) (set_rules sr path eng)"

fun apply_all :: "string \<Rightarrow> stream_rules \<Rightarrow> string list \<Rightarrow> engine \<Rightarrow> engine res" where
  "apply_all dir sr [] eng = Inr eng"
| "apply_all dir sr (p # ps) eng = rbind (apply_rules sr (stream_path dir p) eng) (apply_all dir sr ps)"

definition parse_stream :: "string \<Rightarrow> stream_doc \<Rightarrow> engine \<Rightarrow> engine res" where
  "parse_stream dir sd eng =
     rbind (stream_entry sd) (\<lambda>(is_file, name).
     rbind (stream_names dir name) (\<lambda>streaming_names.
     rbind (or_exit (sd_committed sd)) (\<lambda>committed.
     rbind (parse_committed committed) (\<lambda>(commit_rule, n_close).
     rbind (if commit_rule = CAPIO_FILE_COMMITTED_ON_FILE
            then rbind (or_exit (sd_file_deps sd)) (parse_file_deps dir) else Inr []) (\<lambda>file_deps.
       let mode = (case sd_mode sd of None \<Rightarrow> CAPIO_FILE_MODE_UPDATE | Some m \<Rightarrow> m);
           n_files = (case sd_n_files sd of None \<Rightarrow> -1 | Some n \<Rightarrow> n)
       in apply_all dir \<lparr>sr_is_file = is_file, sr_commit = commit_rule, sr_fire = mode,
            sr_n_close = n_close, sr_n_files = n_files, sr_deps = file_deps\<rparr>
            streaming_names eng)))))"

fun parse_streams :: "string \<Rightarrow> stream_doc list \<Rightarrow> engine \<Rightarrow> engine res" where
  "parse_streams dir [] eng = Inr eng"
| "parse_streams dir (sd # sds) eng = rbind (parse_stream dir sd eng) (parse_streams dir sds)"

definition parse_app :: "string \<Rightarrow> app_doc \<Rightarrow> engine \<Rightarrow> engine res" where
  "parse_app dir ad eng =
     rbind (or_exit (ad_name ad)) (\<lambda>app_name.
     rbind (or_exit (ad_input_stream ad)) (\<lambda>input_stream.
     rbind (parse_inputs dir app_name input_stream eng) (\<lambda>eng1.
     rbind (or_exit (ad_output_stream ad)) (\<lambda>output_stream.
     rbind (parse_outputs dir app_name output_stream eng1) (\<lambda>eng2.
       case ad_streaming ad of None \<Rightarrow> Inr eng2 | Some sds \<Rightarrow> parse_streams dir sds eng2)))))"

fun parse_apps :: "string \<Rightarrow> app_doc list \<Rightarrow> engine \<Rightarrow> engine res" where
  "parse_apps dir [] eng = Inr eng"
| "parse_apps dir (ad # ads) eng = rbind (parse_app dir ad eng) (parse_apps dir ads)"

subsection \<open>The sections of the document\<close>

text \<open>The test is made on the resolved path, the setter gets the name as it is written.\<close>

fun mark_names :: "(string \<Rightarrow> engine \<Rightarrow> engine) \<Rightarrow> string \<Rightarrow> string option list \<Rightarrow> engine \<Rightarrow> engine res" where
  "mark_names set_mark dir [] eng = Inr eng"
| "mark_names set_mark dir (file # fls) eng =
     rbind (or_exit file) (\<lambda>name.
       mark_names set_mark dir fls
         (if first_is_subpath_of_second (stream_path dir name) dir then set_mark name eng else eng))"

definition parse_permanent :: "string \<Rightarrow> config_doc \<Rightarrow> engine \<Rightarrow> engine res" where
  "parse_permanent dir doc eng =
     (case cd_permanent doc of None \<Rightarrow> Inr eng
      | Some marked \<Rightarrow> mark_names (\<lambda>name. setPermanent name True) dir marked eng)"

definition parse_exclude :: "string \<Rightarrow> config_doc \<Rightarrow> engine \<Rightarrow> engine res" where
  "parse_exclude dir doc eng =
     (case cd_exclude doc of None \<Rightarrow> Inr eng
      | Some marked \<Rightarrow> mark_names (\<lambda>name. setExclude name True) dir marked eng)"

text \<open>
  \<open>source\<close> is \<open>None\<close> for an empty path, else what loading the file gives. The result is the name of
  the workflow, where the document sets it, and the table.
\<close>

definition parse :: "string \<Rightarrow> config_doc option option \<Rightarrow> (string option \<times> engine) res" where
  "parse dir src =
     rbind (newFile dir []) (\<lambda>eng0.
       case src of None \<Rightarrow> Inr (None, eng0)
       | Some loaded \<Rightarrow>
           rbind (or_exit loaded) (\<lambda>doc.
           rbind (or_exit (cd_name doc)) (\<lambda>wf_name.
           rbind (or_json_error (cd_io_graph doc)) (\<lambda>io_graph.
           rbind (parse_apps dir io_graph eng0) (\<lambda>eng1.
           rbind (parse_permanent dir doc eng1) (\<lambda>eng2.
           rbind (parse_exclude dir doc eng2) (\<lambda>eng3. Inr (Some wf_name, eng3))))))))"

subsection \<open>What a stream section sets\<close>

definition has_rules :: "stream_rules \<Rightarrow> engine \<Rightarrow> string \<Rightarrow> bool" where
  "has_rules sr eng q \<longleftrightarrow> getCommitRule eng q = sr_commit sr \<and> getFireRule eng q = sr_fire sr \<and>
     getCommitCloseCount eng q = to_int32 (sr_n_close sr) \<and> isFile eng q = sr_is_file sr \<and>
     get_file_deps eng q = sr_deps sr \<and>
     (sr_n_files sr \<noteq> -1 \<longrightarrow> getDirectoryFileCount eng q = sr_n_files sr)"

lemma setFileDeps_other:
  "setFileDeps p ds eng = Inr eng' \<Longrightarrow> q \<noteq> p \<Longrightarrow> map_of eng q = Some e \<Longrightarrow> map_of eng' q = Some e"
  by (auto simp: setFileDeps_Inr umap_simps intro: newFiles_keeps)

lemma setFileDeps_self:
  assumes "setFileDeps p ds eng = Inr eng'"
  shows "\<exists>e. map_of eng p = Some e \<and> map_of eng' p = Some (e\<lparr>e_deps := ds\<rparr>)"
proof -
  from assms obtain e where e: "map_of eng p = Some e"
    and n: "newFiles ds (AList.update p (e\<lparr>e_deps := ds\<rparr>) eng) = Inr eng'"
    by (auto simp: setFileDeps_Inr)
  have "map_of (AList.update p (e\<lparr>e_deps := ds\<rparr>) eng) p = Some (e\<lparr>e_deps := ds\<rparr>)"
    by (simp add: umap_simps)
  with newFiles_keeps[OF n] e show ?thesis by blast
qed

definition ruled :: "stream_rules \<Rightarrow> entry \<Rightarrow> entry" where
  "ruled sr e = e\<lparr>e_commit_rule := sr_commit sr, e_fire_rule := sr_fire sr,
     e_commit_on_close := to_int32 (sr_n_close sr), e_is_file := sr_is_file sr,
     e_dir_count := (if sr_n_files sr \<noteq> -1 then sr_n_files sr else e_dir_count e)\<rparr>"

lemma map_of_modify_if:
  "map_of (if c then modify_if_present p f eng else modify_if_present p g eng) =
     map_of (modify_if_present p (if c then f else g) eng)"
  "map_of (if c then modify_if_present p f eng else eng) =
     map_of (modify_if_present p (if c then f else id) eng)"
  by (auto simp: fun_eq_iff engine_simps option.map_id)

lemma map_of_set_rules:
  "map_of (set_rules sr p eng) q = (if q = p then map_option (ruled sr) (map_of eng p) else map_of eng q)"
proof (cases "map_of eng p")
  case None
  then show ?thesis
    unfolding set_rules_def Let_def setter_defs by (simp add: engine_simps map_of_modify_if)
next
  case (Some e)
  show ?thesis
    unfolding set_rules_def Let_def setter_defs
    by (cases e) (simp add: engine_simps map_of_modify_if Some ruled_def)
qed

lemma apply_rules_entry:
  "apply_rules sr p eng = Inr eng' \<Longrightarrow>
     \<exists>e. map_of eng p = Some e \<and> map_of eng' p = Some ((ruled sr e)\<lparr>e_deps := sr_deps sr\<rparr>)"
  unfolding apply_rules_def by (drule setFileDeps_self) (auto simp: map_of_set_rules)

lemma apply_rules_other:
  "apply_rules sr p eng = Inr eng' \<Longrightarrow> q \<noteq> p \<Longrightarrow> map_of eng q = Some e \<Longrightarrow> map_of eng' q = Some e"
  unfolding apply_rules_def by (erule setFileDeps_other) (simp_all add: map_of_set_rules)

lemma apply_rules_has: "apply_rules sr p eng = Inr eng' \<Longrightarrow> has_rules sr eng' p"
  by (drule apply_rules_entry) (auto simp: has_rules_def getter_defs ruled_def)

lemma has_rules_mono: "has_rules sr eng q \<Longrightarrow> map_of eng q = Some e \<Longrightarrow> map_of eng' q = Some e \<Longrightarrow> has_rules sr eng' q"
  by (simp add: has_rules_def getter_defs)

lemma apply_all_has:
  "apply_all dir sr ps eng = Inr eng' \<Longrightarrow>
     (\<forall>p \<in> set ps. has_rules sr eng' (stream_path dir p)) \<and>
     (\<forall>q. map_of eng q \<noteq> None \<and> has_rules sr eng q \<longrightarrow> has_rules sr eng' q) \<and>
     (\<forall>q e. q \<notin> stream_path dir ` set ps \<longrightarrow> map_of eng q = Some e \<longrightarrow> map_of eng' q = Some e)"
proof (induction ps arbitrary: eng)
  case (Cons p ps)
  let ?q = "stream_path dir p"
  from Cons.prems obtain eng1 where e1: "apply_rules sr ?q eng = Inr eng1"
    and rest: "apply_all dir sr ps eng1 = Inr eng'" by (auto simp: res_simps)
  note IH = Cons.IH[OF rest]
  have new: "has_rules sr eng1 ?q" "map_of eng1 ?q \<noteq> None"
    using apply_rules_has[OF e1] apply_rules_entry[OF e1] by auto
  have keep: "has_rules sr eng1 q \<and> map_of eng1 q \<noteq> None" if "map_of eng q \<noteq> None" "has_rules sr eng q" for q
  proof (cases "q = ?q")
    case False
    from that(1) obtain e where "map_of eng q = Some e" by auto
    with apply_rules_other[OF e1 False] that(2) show ?thesis by (auto intro: has_rules_mono)
  qed (use new in simp)
  show ?case
  proof (intro conjI)
    show "\<forall>p \<in> set (p # ps). has_rules sr eng' (stream_path dir p)" using IH new by auto
    show "\<forall>q. map_of eng q \<noteq> None \<and> has_rules sr eng q \<longrightarrow> has_rules sr eng' q" using IH keep by blast
    show "\<forall>q e. q \<notin> stream_path dir ` set (p # ps) \<longrightarrow> map_of eng q = Some e \<longrightarrow> map_of eng' q = Some e"
      using IH apply_rules_other[OF e1] by auto
  qed
qed simp

subsection \<open>Invariants of the table\<close>

lemma parse_stream_Inr:
  "parse_stream dir sd eng = Inr eng' \<longleftrightarrow> (\<exists>is_file name ns c rule n ds. stream_entry sd = Inr (is_file, name) \<and>
     stream_names dir name = Inr ns \<and> sd_committed sd = Some c \<and> parse_committed c = Inr (rule, n) \<and>
     (if rule = CAPIO_FILE_COMMITTED_ON_FILE
      then \<exists>itms. sd_file_deps sd = Some itms \<and> parse_file_deps dir itms = Inr ds else ds = []) \<and>
     apply_all dir \<lparr>sr_is_file = is_file, sr_commit = rule,
       sr_fire = (case sd_mode sd of None \<Rightarrow> CAPIO_FILE_MODE_UPDATE | Some m \<Rightarrow> m), sr_n_close = n,
       sr_n_files = (case sd_n_files sd of None \<Rightarrow> -1 | Some k \<Rightarrow> k), sr_deps = ds\<rparr> ns eng = Inr eng')"
  by (force simp: parse_stream_def res_simps Let_def split: if_splits)

lemma absolute_append: "is_absolute dir \<Longrightarrow> is_absolute (path_append dir p)"
  by (cases dir; cases p) (auto simp: path_append_def is_absolute_def)

lemma absolute_location: "is_absolute dir \<Longrightarrow> is_absolute (location dir p)"
  by (simp add: location_def is_relative_def absolute_append)

lemma parse_file_deps_absolute:
  "parse_file_deps dir itms = Inr ds \<Longrightarrow> is_absolute dir \<Longrightarrow> \<forall>d \<in> set ds. is_absolute d"
  by (induction itms arbitrary: ds) (auto simp: res_simps absolute_location)

text \<open>What the setters the parser calls keep, the parser keeps; it only ever adds absolute paths.\<close>

locale table_invariant =
  fixes P :: "engine \<Rightarrow> bool"
  assumes P_newFile: "newFile p eng = Inr eng' \<Longrightarrow> is_absolute p \<Longrightarrow> P eng \<Longrightarrow> P eng'"
    and P_addProducer: "addProducer p a eng = Inr eng' \<Longrightarrow> is_absolute p \<Longrightarrow> P eng \<Longrightarrow> P eng'"
    and P_addConsumer: "P eng \<Longrightarrow> P (addConsumer p a eng)"
    and P_setPermanent: "P eng \<Longrightarrow> P (setPermanent p b eng)"
    and P_setExclude: "P eng \<Longrightarrow> P (setExclude p b eng)"
    and P_rules: "P eng \<Longrightarrow> P (set_rules sr p eng)"
    and P_deps: "map_of eng p = Some e \<Longrightarrow> P eng \<Longrightarrow> P (AList.update p (e\<lparr>e_deps := ds\<rparr>) eng)"
begin

lemma newFiles_inv: "newFiles ds eng = Inr eng' \<Longrightarrow> \<forall>d \<in> set ds. is_absolute d \<Longrightarrow> P eng \<Longrightarrow> P eng'"
  by (induction ds arbitrary: eng) (auto simp: res_simps dest: P_newFile)

lemma apply_all_inv:
  "apply_all dir sr ps eng = Inr eng' \<Longrightarrow> \<forall>d \<in> set (sr_deps sr). is_absolute d \<Longrightarrow> P eng \<Longrightarrow> P eng'"
proof (induction ps arbitrary: eng)
  case (Cons p ps)
  from Cons.prems(1) obtain e eng1 where e: "map_of (set_rules sr (stream_path dir p) eng) (stream_path dir p) = Some e"
    and n: "newFiles (sr_deps sr) (AList.update (stream_path dir p) (e\<lparr>e_deps := sr_deps sr\<rparr>)
        (set_rules sr (stream_path dir p) eng)) = Inr eng1"
    and rest: "apply_all dir sr ps eng1 = Inr eng'"
    by (auto simp: res_simps apply_rules_def setFileDeps_Inr)
  have "P eng1" by (rule newFiles_inv[OF n Cons.prems(2) P_deps[OF e P_rules[OF Cons.prems(3)]]])
  with Cons.IH[OF rest Cons.prems(2)] show ?case .
qed simp

lemma parse_inputs_inv:
  "parse_inputs dir app itms eng = Inr eng' \<Longrightarrow> is_absolute dir \<Longrightarrow> P eng \<Longrightarrow> P eng'"
proof (induction itms arbitrary: eng)
  case (Cons itm itms)
  from Cons.prems(1) obtain fl where itm: "itm = Some fl" by (auto simp: res_simps)
  show ?case
  proof (cases "in_capio_dir dir fl")
    case True
    with Cons.prems(1) itm obtain eng1 where "newFile (location dir fl) eng = Inr eng1"
        "parse_inputs dir app itms (addConsumer (location dir fl) app eng1) = Inr eng'"
      by (auto simp: res_simps)
    moreover note absolute_location[OF Cons.prems(2)]
    ultimately show ?thesis using Cons.IH Cons.prems(2,3) P_newFile P_addConsumer by blast
  qed (use Cons itm in simp)
qed simp

lemma parse_outputs_inv:
  "parse_outputs dir app itms eng = Inr eng' \<Longrightarrow> is_absolute dir \<Longrightarrow> P eng \<Longrightarrow> P eng'"
proof (induction itms arbitrary: eng)
  case (Cons itm itms)
  from Cons.prems(1) obtain fl where itm: "itm = Some fl" by (auto simp: res_simps)
  show ?case
  proof (cases "in_capio_dir dir fl")
    case True
    with Cons.prems(1) itm obtain eng1 eng2 where "newFile (location dir fl) eng = Inr eng1"
        "addProducer (location dir fl) app eng1 = Inr eng2" "parse_outputs dir app itms eng2 = Inr eng'"
      by (auto simp: res_simps)
    moreover note absolute_location[OF Cons.prems(2)]
    ultimately show ?thesis using Cons.IH Cons.prems(2,3) P_newFile P_addProducer by blast
  qed (use Cons itm in simp)
qed simp

lemma parse_streams_inv:
  "parse_streams dir sds eng = Inr eng' \<Longrightarrow> is_absolute dir \<Longrightarrow> P eng \<Longrightarrow> P eng'"
proof (induction sds arbitrary: eng)
  case (Cons sd sds)
  then obtain eng1 where 1: "parse_stream dir sd eng = Inr eng1" "parse_streams dir sds eng1 = Inr eng'"
    by (auto simp: res_simps)
  from 1(1) Cons.prems(2,3) have "P eng1"
    unfolding parse_stream_Inr
    by (elim exE conjE) (erule apply_all_inv; auto dest: parse_file_deps_absolute split: if_splits)
  with Cons.IH[OF 1(2) Cons.prems(2)] show ?case .
qed simp

lemma parse_app_inv: "parse_app dir ad eng = Inr eng' \<Longrightarrow> is_absolute dir \<Longrightarrow> P eng \<Longrightarrow> P eng'"
  by (auto simp: parse_app_def res_simps dest!: parse_inputs_inv parse_outputs_inv parse_streams_inv
      split: option.splits)

lemma parse_apps_inv: "parse_apps dir ads eng = Inr eng' \<Longrightarrow> is_absolute dir \<Longrightarrow> P eng \<Longrightarrow> P eng'"
  by (induction ads arbitrary: eng) (auto simp: res_simps dest: parse_app_inv)

lemma mark_names_inv:
  assumes "\<And>n e. P e \<Longrightarrow> P (mark n e)"
  shows "mark_names mark dir itms eng = Inr eng' \<Longrightarrow> P eng \<Longrightarrow> P eng'"
proof (induction itms arbitrary: eng)
  case (Cons itm itms)
  then show ?case by (cases itm) (auto simp: assms split: if_splits)
qed simp

lemma parse_permanent_inv: "parse_permanent dir doc eng = Inr eng' \<Longrightarrow> P eng \<Longrightarrow> P eng'"
  by (auto simp: parse_permanent_def P_setPermanent dest: mark_names_inv[rotated] split: option.splits)

lemma parse_exclude_inv: "parse_exclude dir doc eng = Inr eng' \<Longrightarrow> P eng \<Longrightarrow> P eng'"
  by (auto simp: parse_exclude_def P_setExclude dest: mark_names_inv[rotated] split: option.splits)

lemma parse_inv:
  assumes "parse dir src = Inr (name, eng)" and "is_absolute dir"
    and "\<And>eng0. newFile dir [] = Inr eng0 \<Longrightarrow> P eng0"
  shows "P eng"
proof -
  from assms(1) obtain eng0 where 0: "newFile dir [] = Inr eng0" by (auto simp: parse_def res_simps)
  note p0 = assms(3)[OF 0]
  show ?thesis
  proof (cases src)
    case None
    with assms(1) 0 p0 show ?thesis by (simp add: parse_def)
  next
    case (Some loaded)
    with assms(1) 0 obtain doc io_graph eng1 eng2 where
      "parse_apps dir io_graph eng0 = Inr eng1" "parse_permanent dir doc eng1 = Inr eng2"
      "parse_exclude dir doc eng2 = Inr eng" by (auto simp: parse_def res_simps)
    with parse_apps_inv[OF _ assms(2) p0] parse_permanent_inv parse_exclude_inv show ?thesis by blast
  qed
qed

end

text \<open>The keys are absolute, each key has one entry, and the number of closes is an \<open>int\<close>.\<close>

definition absolute_keys :: "engine \<Rightarrow> bool" where
  "absolute_keys eng \<longleftrightarrow> dom (map_of eng) \<subseteq> Collect is_absolute"

definition typed_counts :: "engine \<Rightarrow> bool" where
  "typed_counts eng \<longleftrightarrow> (\<forall>p e. map_of eng p = Some e \<longrightarrow> - (2 ^ 31) \<le> e_commit_on_close e \<and> e_commit_on_close e < 2 ^ 31)"

lemma absolute_Nil [simp]: "absolute_keys []"
  by (simp add: absolute_keys_def)

lemma absolute_newFile:
  assumes "newFile p eng = Inr eng'" and "is_absolute p" and "absolute_keys eng"
  shows "absolute_keys eng'"
proof -
  have "dom (map_of eng') \<subseteq> insert p (dom (map_of eng))"
    using newFile_other[OF assms(1)] by (auto simp: dom_def)
  with assms(2,3) show ?thesis unfolding absolute_keys_def by blast
qed

lemma absolute_modify [simp]: "absolute_keys (modify_if_present p f eng) = absolute_keys eng"
proof -
  have "dom (map_of (modify_if_present p f eng)) = dom (map_of eng)"
    by (auto simp: dom_def engine_simps)
  then show ?thesis by (simp add: absolute_keys_def)
qed

interpretation absk: table_invariant absolute_keys
proof
  fix p eng sr
  assume a: "absolute_keys eng"
  have "dom (map_of (set_rules sr p eng)) = dom (map_of eng)" by (auto simp: dom_def map_of_set_rules)
  with a show "absolute_keys (set_rules sr p eng)" by (simp add: absolute_keys_def)
next
  fix p eng ds and e :: entry
  assume "map_of eng p = Some e" "absolute_keys eng"
  then show "absolute_keys (AList.update p (e\<lparr>e_deps := ds\<rparr>) eng)"
    by (auto simp: absolute_keys_def dom_def umap_simps split: if_splits)
qed (auto simp: setter_defs addProducer_Inr dest: absolute_newFile)

lemma to_int32_range: "- (2 ^ 31) \<le> to_int32 i \<and> to_int32 i < 2 ^ 31"
  using signed_take_bit_int_greater_eq_minus_exp[of 31 i] signed_take_bit_int_less_exp[of 31 i]
  by (simp add: to_int32_def)

lemma typed_newFile: "newFile p eng = Inr eng' \<Longrightarrow> typed_counts eng \<Longrightarrow> typed_counts eng'"
  by (auto simp: newFile_Inr typed_counts_def umap_simps new_entry_def split: if_splits)

lemma typed_modify:
  "typed_counts eng \<Longrightarrow> (\<And>e. e_commit_on_close (f e) = e_commit_on_close e) \<Longrightarrow> typed_counts (modify_if_present p f eng)"
  by (auto simp: typed_counts_def engine_simps split: if_splits)

interpretation typk: table_invariant typed_counts
proof
  fix p eng sr
  assume "typed_counts eng"
  then show "typed_counts (set_rules sr p eng)"
    using to_int32_range by (auto simp: typed_counts_def map_of_set_rules ruled_def split: if_splits)
next
  fix p eng ds and e :: entry
  assume "map_of eng p = Some e" "typed_counts eng"
  then show "typed_counts (AList.update p (e\<lparr>e_deps := ds\<rparr>) eng)"
    by (auto simp: typed_counts_def umap_simps split: if_splits)
qed (auto simp: setter_defs addProducer_Inr intro!: typed_modify dest: typed_newFile)

lemma set_rules_wf: "umap_wf eng \<Longrightarrow> umap_wf (set_rules sr p eng)"
  by (simp add: set_rules_def setter_defs Let_def)

interpretation wft: table_invariant umap_wf
  by unfold_locales (auto simp: setter_defs addProducer_Inr set_rules_wf dest: newFile_wf)

text \<open>An entry of the table is never removed.\<close>

interpretation keepk: table_invariant "\<lambda>eng. map_of eng d \<noteq> None" for d
  by unfold_locales (auto simp: setter_defs addProducer_Inr engine_simps umap_simps map_of_set_rules
      newFile_Inr)

subsection \<open>Names that mark nothing\<close>

definition keep_absolute :: "json_strings \<Rightarrow> json_strings" where
  "keep_absolute js = map_option (filter (\<lambda>x. case x of None \<Rightarrow> True | Some n \<Rightarrow> is_absolute n)) js"

lemma modify_absent: "map_of eng p = None \<Longrightarrow> modify_if_present p f eng = eng"
  by (simp add: modify_if_present_def)

lemma absolute_absent: "absolute_keys eng \<Longrightarrow> \<not> is_absolute p \<Longrightarrow> map_of eng p = None"
  by (auto simp: absolute_keys_def dom_def)

lemma mark_names_relative:
  assumes "\<And>n e. absolute_keys (mark n e) = absolute_keys e"
    and "\<And>n e. map_of e n = None \<Longrightarrow> mark n e = e"
  shows "absolute_keys eng \<Longrightarrow> mark_names mark dir
     (filter (\<lambda>x. case x of None \<Rightarrow> True | Some n \<Rightarrow> is_absolute n) itms) eng = mark_names mark dir itms eng"
proof (induction itms arbitrary: eng)
  case (Cons itm itms)
  show ?case
  proof (cases itm)
    case (Some n)
    show ?thesis
    proof (cases "is_absolute n")
      case True
      with Cons Some assms(1) show ?thesis by simp
    next
      case False
      with assms(2) absolute_absent[OF Cons.prems] have "mark n eng = eng" by blast
      with Cons Some False show ?thesis by simp
    qed
  qed simp
qed simp

lemma parse_marks_relative:
  assumes "absolute_keys eng"
  shows "parse_permanent dir (doc\<lparr>cd_permanent := keep_absolute (cd_permanent doc), cd_exclude := x\<rparr>) eng =
      parse_permanent dir doc eng"
    and "parse_exclude dir (doc\<lparr>cd_permanent := x, cd_exclude := keep_absolute (cd_exclude doc)\<rparr>) eng =
      parse_exclude dir doc eng"
  using assms
  by (auto simp: parse_permanent_def parse_exclude_def keep_absolute_def setPermanent_def setExclude_def
      modify_absent split: option.split intro!: mark_names_relative)

subsection \<open>Properties\<close>

text \<open>C31: A section of \<open>streaming\<close> that is accepted gives every path it names (below the CAPIO directory) the
  commit rule, the number of closes, the fire rule, the kind, the dependencies and the number of
  files it states, and changes no other entry of the table.\<close>

theorem stream_rules_set:
  assumes "parse_stream dir sd eng = Inr eng'"
    and "stream_entry sd = Inr (is_file, name)" and "stream_names dir name = Inr ns"
    and "sd_committed sd = Some c" and "parse_committed c = Inr (rule, n)"
  shows "(\<forall>p \<in> set ns. let q = stream_path dir p in
      getCommitRule eng' q = rule \<and> getCommitCloseCount eng' q = to_int32 n \<and>
      getFireRule eng' q = (case sd_mode sd of None \<Rightarrow> CAPIO_FILE_MODE_UPDATE | Some m \<Rightarrow> m) \<and>
      isFile eng' q = is_file \<and>
      (\<forall>k. sd_n_files sd = Some k \<and> k \<noteq> -1 \<longrightarrow> getDirectoryFileCount eng' q = k) \<and>
      (rule = CAPIO_FILE_COMMITTED_ON_FILE \<longrightarrow>
        (\<exists>itms. sd_file_deps sd = Some itms \<and> parse_file_deps dir itms = Inr (get_file_deps eng' q)))) \<and>
    (\<forall>q e. q \<notin> stream_path dir ` set ns \<longrightarrow> map_of eng q = Some e \<longrightarrow> map_of eng' q = Some e)"
proof -
  define sr where "sr = (\<lambda>ds. \<lparr>sr_is_file = is_file, sr_commit = rule,
    sr_fire = (case sd_mode sd of None \<Rightarrow> CAPIO_FILE_MODE_UPDATE | Some m \<Rightarrow> m), sr_n_close = n,
    sr_n_files = (case sd_n_files sd of None \<Rightarrow> -1 | Some k \<Rightarrow> k), sr_deps = ds\<rparr>)"
  from assms obtain ds where
    deps: "rule = CAPIO_FILE_COMMITTED_ON_FILE \<longrightarrow>
      (\<exists>itms. sd_file_deps sd = Some itms \<and> parse_file_deps dir itms = Inr ds)"
    and all: "apply_all dir (sr ds) ns eng = Inr eng'"
    unfolding sr_def parse_stream_Inr by (auto split: if_splits)
  from apply_all_has[OF all] have
    has: "\<forall>p \<in> set ns. has_rules (sr ds) eng' (stream_path dir p)"
    and other: "\<forall>q e. q \<notin> stream_path dir ` set ns \<longrightarrow> map_of eng q = Some e \<longrightarrow> map_of eng' q = Some e"
    by blast+
  have "has_rules (sr ds) eng' q \<Longrightarrow> getCommitRule eng' q = rule \<and> getCommitCloseCount eng' q = to_int32 n \<and>
      getFireRule eng' q = (case sd_mode sd of None \<Rightarrow> CAPIO_FILE_MODE_UPDATE | Some m \<Rightarrow> m) \<and>
      isFile eng' q = is_file \<and> get_file_deps eng' q = ds \<and>
      (\<forall>k. sd_n_files sd = Some k \<and> k \<noteq> -1 \<longrightarrow> getDirectoryFileCount eng' q = k)" for q
    by (auto simp: has_rules_def sr_def)
  with has other deps show ?thesis by (simp add: Let_def)
qed

definition sample_stream :: stream_doc where
  "sample_stream = \<lparr>sd_name = Some [Some ''f''], sd_dirname = None, sd_committed = Some ''on_close:3'',
     sd_file_deps = None, sd_mode = Some ''no_update'', sd_n_files = None, sd_batch_size = None\<rparr>"

definition sample_app :: app_doc where
  "sample_app = \<lparr>ad_name = Some ''w'', ad_input_stream = Some [],
     ad_output_stream = Some [Some ''f'', Some ''/other/g''], ad_streaming = Some [sample_stream]\<rparr>"

definition sample_config :: config_doc where
  "sample_config = \<lparr>cd_name = Some ''wf'', cd_io_graph = Some [sample_app],
     cd_permanent = Some [Some ''f''], cd_exclude = None\<rparr>"

lemma stream_rules_set_witness:
  "\<exists>eng'. parse_stream ''/d'' sample_stream [(''/d/f'', new_entry ''on_termination'' ''update'')] = Inr eng' \<and>
     getCommitRule eng' ''/d/f'' = ''on_close'' \<and> getCommitCloseCount eng' ''/d/f'' = 3 \<and>
     getFireRule eng' ''/d/f'' = ''no_update''"
proof -
  let ?eng = "[(''/d/f'', new_entry ''on_termination'' ''update'')]"
  have "case parse_stream ''/d'' sample_stream ?eng of Inl _ \<Rightarrow> False | Inr _ \<Rightarrow> True" by code_simp
  then obtain eng' where e: "parse_stream ''/d'' sample_stream ?eng = Inr eng'" by (auto split: sum.splits)
  have 1: "stream_entry sample_stream = Inr (True, [Some ''f''])" "stream_names ''/d'' [Some ''f''] = Inr [''f'']"
    "parse_committed ''on_close:3'' = Inr (''on_close'', 3)" "stream_path ''/d'' ''f'' = ''/d/f''" "to_int32 3 = 3"
    by code_simp+
  have 2: "sd_committed sample_stream = Some ''on_close:3''" "sd_mode sample_stream = Some ''no_update''"
    by (simp_all add: sample_stream_def)
  from stream_rules_set[OF e 1(1,2) 2(1) 1(3)] e 1(4,5) 2(2) show ?thesis by (simp add: Let_def)
qed

text \<open>The names in \<open>permanent\<close> and \<open>exclude\<close> are resolved against the CAPIO directory for the test
  but not for the setter, and all keys of the table are absolute: a relative name marks nothing, the
  result is the same without it.\<close>

theorem relative_marks_ignored:
  assumes "is_absolute dir"
  shows "parse dir (Some (Some (doc\<lparr>cd_permanent := keep_absolute (cd_permanent doc),
      cd_exclude := keep_absolute (cd_exclude doc)\<rparr>))) = parse dir (Some (Some doc))"
proof -
  let ?doc = "doc\<lparr>cd_permanent := keep_absolute (cd_permanent doc), cd_exclude := keep_absolute (cd_exclude doc)\<rparr>"
  have marks: "rbind (parse_permanent dir ?doc eng) (\<lambda>eng2. rbind (parse_exclude dir ?doc eng2) f) =
      rbind (parse_permanent dir doc eng) (\<lambda>eng2. rbind (parse_exclude dir doc eng2) f)"
    if "absolute_keys eng" for eng and f :: "engine \<Rightarrow> (string option \<times> engine) res"
    using that parse_marks_relative absk.parse_permanent_inv[of dir doc eng]
    by (intro rbind_cong) simp_all
  show ?thesis
    unfolding parse_def
    using absolute_newFile[OF _ assms absolute_Nil] absk.parse_apps_inv[OF _ assms]
    by (auto intro!: rbind_cong marks)
qed

lemma relative_marks_ignored_witness:
  "parse ''/d'' (Some (Some (sample_config\<lparr>cd_permanent := Some []\<rparr>))) = parse ''/d'' (Some (Some sample_config)) \<and>
   (case parse ''/d'' (Some (Some sample_config)) of Inl _ \<Rightarrow> False
    | Inr (_, eng) \<Rightarrow> (case map_of eng ''/d/f'' of None \<Rightarrow> False | Some e \<Rightarrow> \<not> e_permanent e))"
proof
  have "sample_config\<lparr>cd_permanent := keep_absolute (cd_permanent sample_config),
      cd_exclude := keep_absolute (cd_exclude sample_config)\<rparr> = sample_config\<lparr>cd_permanent := Some []\<rparr>"
    by (simp add: sample_config_def keep_absolute_def is_absolute_def)
  with relative_marks_ignored[of "''/d''" sample_config]
  show "parse ''/d'' (Some (Some (sample_config\<lparr>cd_permanent := Some []\<rparr>))) = parse ''/d'' (Some (Some sample_config))"
    by (simp add: is_absolute_def)
qed code_simp

text \<open>A path that no stream section listed before makes \<open>setFileDeps\<close> throw, and nothing catches it.\<close>

lemma unlisted_stream_throws:
  assumes "stream_entry sd = Inr (is_file, name)" and "stream_names dir name = Inr (p # ps)"
    and "sd_committed sd = Some c" and "parse_committed c = Inr (rule, n)"
    and "rule \<noteq> CAPIO_FILE_COMMITTED_ON_FILE" and "map_of eng (stream_path dir p) = None"
  shows "parse_stream dir sd eng = Inl OutOfRange"
  using assms by (simp add: parse_stream_def Let_def apply_rules_def setFileDeps_def map_of_set_rules)

end
