(* ===== verification/Requests.thy ===== *)
theory Requests
  imports ServerSteps RingQueue
begin

text \<open>
  The messages of \<open>src/posix/utils/requests.hpp\<close> and \<open>cache.hpp\<close>: one text per request, as
  \<open>sprintf\<close> writes it into a buffer of \<open>CAPIO_REQ_MAX_SIZE\<close> bytes on the stack (what the text does
  not reach is whatever was there), and what the server makes of the buffer. The requests of the
  protocol are a datatype; \<open>act\<close> is what the server does for one, without the texts in between. The
  interface \<open>channel\<close> of \<open>Fifo\<close> is interpreted on the two directions of the protocol: requests on
  the shared ring, answers on the ring of a thread.
\<close>

definition CAPIO_REQ_MAX_SIZE :: nat where
  "CAPIO_REQ_MAX_SIZE = 256"

datatype request =
    Consent tid string string        \<comment> \<open>tid, path, calling function\<close>
  | Close tid string
  | Create tid fd string
  | ExitGroup tid
  | HandshakeNamed tid int string    \<comment> \<open>tid, pid, application\<close>
  | HandshakeAnonymous tid int
  | Open tid fd string
  | Read string tid fd u64           \<comment> \<open>path, tid, fd, end of read\<close>
  | Rename tid string string
  | Write tid int string int         \<comment> \<open>tid, fd, path, count\<close>

subsection \<open>The texts\<close>

definition spaced :: "string list \<Rightarrow> string" where
  "spaced fs = concat (map (\<lambda>f. CHR '' '' # f) fs)"

definition consent_to_proceed_text :: "string \<Rightarrow> tid \<Rightarrow> string \<Rightarrow> string" where
  "consent_to_proceed_text path t source_func =
     show_pad4 CAPIO_REQUEST_CONSENT @ spaced [show_int t, path, source_func]"

definition close_text :: "string \<Rightarrow> tid \<Rightarrow> string" where
  "close_text path t = show_pad4 CAPIO_REQUEST_CLOSE @ spaced [show_int t, path]"

definition create_text :: "fd \<Rightarrow> string \<Rightarrow> tid \<Rightarrow> string" where
  "create_text d path t = show_pad4 CAPIO_REQUEST_CREATE @ spaced [show_int t, show_int d, path]"

definition exit_group_text :: "tid \<Rightarrow> string" where
  "exit_group_text t = show_pad4 CAPIO_REQUEST_EXIT_GROUP @ spaced [show_int t]"

definition handshake_anonymous_text :: "tid \<Rightarrow> int \<Rightarrow> string" where
  "handshake_anonymous_text t pid =
     show_pad4 CAPIO_REQUEST_HANDSHAKE_ANONYMOUS @ spaced [show_int t, show_int pid]"

definition handshake_named_text :: "tid \<Rightarrow> int \<Rightarrow> string \<Rightarrow> string" where
  "handshake_named_text t pid app_name =
     show_pad4 CAPIO_REQUEST_HANDSHAKE_NAMED @ spaced [show_int t, show_int pid, app_name]"

definition open_text :: "fd \<Rightarrow> string \<Rightarrow> tid \<Rightarrow> string" where
  "open_text d path t = show_pad4 CAPIO_REQUEST_OPEN @ spaced [show_int t, show_int d, path]"

definition rename_text :: "string \<Rightarrow> string \<Rightarrow> tid \<Rightarrow> string" where
  "rename_text old_path new_path t =
     show_pad4 CAPIO_REQUEST_RENAME @ spaced [show_int t, old_path, new_path]"

text \<open>\<open>_read_request\<close> and \<open>_write_request\<close>; the end of the read is printed as a signed number.\<close>

definition read_text :: "string \<Rightarrow> u64 \<Rightarrow> tid \<Rightarrow> fd \<Rightarrow> string" where
  "read_text path end_of_read t d =
     show_pad4 CAPIO_REQUEST_READ @ spaced [path, show_int t, show_int d, show_int (sint end_of_read)]"

definition write_request_text :: "string \<Rightarrow> int \<Rightarrow> int \<Rightarrow> int \<Rightarrow> string" where
  "write_request_text current_path count t d =
     show_pad4 CAPIO_REQUEST_WRITE @ spaced [show_int t, show_int d, current_path, show_int count]"

fun request_text :: "request \<Rightarrow> string" where
  "request_text (Consent t path src) = consent_to_proceed_text path t src"
| "request_text (Close t path) = close_text path t"
| "request_text (Create t d path) = create_text d path t"
| "request_text (ExitGroup t) = exit_group_text t"
| "request_text (HandshakeNamed t pid app) = handshake_named_text t pid app"
| "request_text (HandshakeAnonymous t pid) = handshake_anonymous_text t pid"
| "request_text (Open t d path) = open_text d path t"
| "request_text (Read path t d n) = read_text path n t d"
| "request_text (Rename t old new) = rename_text old new t"
| "request_text (Write t d path n) = write_request_text path n t d"

lemmas text_defs = consent_to_proceed_text_def close_text_def create_text_def exit_group_text_def
  handshake_anonymous_text_def handshake_named_text_def open_text_def rename_text_def read_text_def
  write_request_text_def spaced_def

text \<open>The stack buffer after \<open>sprintf\<close>: the text, the terminator, and what was there before.\<close>

definition slot_of :: "(nat \<Rightarrow> char) \<Rightarrow> string \<Rightarrow> string" where
  "slot_of junk txt = txt @ CHR 0x00 # map junk [Suc (length txt)..<CAPIO_REQ_MAX_SIZE]"

definition sprintf_req :: "(nat \<Rightarrow> char) \<Rightarrow> string \<Rightarrow> string res" where
  "sprintf_req junk txt =
     (if length txt < CAPIO_REQ_MAX_SIZE then Inr (slot_of junk txt) else Inl Undefined)"

lemma length_slot_of: "length txt < CAPIO_REQ_MAX_SIZE \<Longrightarrow> length (slot_of junk txt) = CAPIO_REQ_MAX_SIZE"
  by (simp add: slot_of_def)

subsection \<open>Reading a request back\<close>

text \<open>What the scans of the handlers see, put together again.\<close>

definition parse_request :: "int \<Rightarrow> string \<Rightarrow> request option" where
  "parse_request code str =
     (if code = int CAPIO_REQUEST_EXIT_GROUP then map_option (\<lambda>(t, _). ExitGroup t) (scan_pid str)
      else if code = int CAPIO_REQUEST_READ then
        Option.bind (scan_word str) (\<lambda>(path, r). Option.bind (scan_pid r) (\<lambda>(t, r).
        Option.bind (scan_pid r) (\<lambda>(d, r). map_option (\<lambda>(n, _). Read path t d n) (scan_u64 r))))
      else Option.bind (scan_pid str) (\<lambda>(t, r).
        if code = int CAPIO_REQUEST_CLOSE then map_option (\<lambda>(path, _). Close t path) (scan_word r)
        else if code = int CAPIO_REQUEST_CONSENT then
          Option.bind (scan_word r) (\<lambda>(path, r). map_option (\<lambda>(src, _). Consent t path src) (scan_word r))
        else if code = int CAPIO_REQUEST_RENAME then
          Option.bind (scan_word r) (\<lambda>(old, r). map_option (\<lambda>(new, _). Rename t old new) (scan_word r))
        else Option.bind (scan_pid r) (\<lambda>(d, r).
          if code = int CAPIO_REQUEST_HANDSHAKE_ANONYMOUS then Some (HandshakeAnonymous t d)
          else Option.bind (scan_word r) (\<lambda>(w, r).
            if code = int CAPIO_REQUEST_CREATE then Some (Create t d w)
            else if code = int CAPIO_REQUEST_HANDSHAKE_NAMED then Some (HandshakeNamed t d w)
            else if code = int CAPIO_REQUEST_OPEN then Some (Open t d w)
            else if code = int CAPIO_REQUEST_WRITE
            then map_option (\<lambda>(n, _). Write t d w (sint n)) (scan_u64 r)
            else None))))"

definition decode_request :: "string \<Rightarrow> request option" where
  "decode_request req =
     (case read_next_request req of Inl _ \<Rightarrow> None | Inr (code, str) \<Rightarrow> parse_request code str)"

definition fits32 :: "int \<Rightarrow> bool" where
  "fits32 i \<longleftrightarrow> - (2 ^ 31) \<le> i \<and> i < 2 ^ 31"

fun fields_ok :: "request \<Rightarrow> bool" where
  "fields_ok (Consent t path src) = (fits32 t \<and> is_word path \<and> is_word src)"
| "fields_ok (Close t path) = (fits32 t \<and> is_word path)"
| "fields_ok (Create t d path) = (fits32 t \<and> fits32 d \<and> is_word path)"
| "fields_ok (ExitGroup t) = fits32 t"
| "fields_ok (HandshakeNamed t pid app) = (fits32 t \<and> fits32 pid \<and> is_word app)"
| "fields_ok (HandshakeAnonymous t pid) = (fits32 t \<and> fits32 pid)"
| "fields_ok (Open t d path) = (fits32 t \<and> fits32 d \<and> is_word path)"
| "fields_ok (Read path t d n) = (fits32 t \<and> fits32 d \<and> is_word path)"
| "fields_ok (Rename t old new) = (fits32 t \<and> is_word old \<and> is_word new)"
| "fields_ok (Write t d path n) =
     (fits32 t \<and> fits32 d \<and> is_word path \<and> - (2 ^ 63) \<le> n \<and> n < 2 ^ 63)"

definition request_ok :: "request \<Rightarrow> bool" where
  "request_ok m \<longleftrightarrow> fields_ok m \<and> length (request_text m) < CAPIO_REQ_MAX_SIZE"

lemma scan_pid_show [scan_simps]:
  "fits32 i \<Longrightarrow> no_digit_next r \<Longrightarrow> scan_pid (show_int i @ r) = Some (i, r)"
  by (simp add: scan_pid_def scan_int_show_int to_int32_id fits32_def)

lemma scan_pid_space [scan_simps]: "scan_pid (CHR '' '' # s) = scan_pid s"
  by (simp add: scan_pid_def scan_int_space)

lemma scan_u64_show_sint [scan_simps]:
  assumes "no_digit_next r"
  shows "scan_u64 (show_int (sint w) @ r) = Some (w :: u64, r)"
proof -
  have "- (2 ^ 63) \<le> sint w" "sint w < 2 ^ 63"
    using sint_ge[of w] sint_lt[of w] by simp_all
  then have "\<bar>sint w\<bar> < 2 ^ 64" by (simp add: abs_less_iff)
  then show ?thesis by (simp add: scan_u64_def scan_int_show_int[OF assms])
qed

lemma scan_word_end [scan_simps]: "is_word w \<Longrightarrow> scan_word w = Some (w, [])"
  using scan_word_word[of w "[]"] by simp

lemma scan_ends [scan_simps]:
  "fits32 i \<Longrightarrow> scan_pid (show_int i) = Some (i, [])"
  "scan_u64 (show_int (sint w)) = Some (w :: u64, [])"
  using scan_pid_show[of i "[]"] scan_u64_show_sint[of "[]" w] by simp_all

lemma is_space_blank [simp]: "is_space CHR '' ''"
  by (simp add: is_space_def)

text \<open>The first four bytes give the code.\<close>

lemma pad4_code:
  assumes "c < 12"
  shows "length (show_pad4 c) = 4 \<and> from_chars (show_pad4 c) = Some (int c, [])"
proof -
  have "c \<in> {0,1,2,3,4,5,6,7,8,9,10,11}" using assms by (simp; presburger)
  moreover have "\<forall>c \<in> set [0,1,2,3,4,5,6,7,8,9,10,11].
      length (show_pad4 c) = 4 \<and> from_chars (show_pad4 c) = Some (int c, [])"
    by code_simp
  ultimately show ?thesis by auto
qed

lemma takeWhile_nul: "CHR 0x00 \<notin> set xs \<Longrightarrow> takeWhile (\<lambda>c. c \<noteq> CHR 0x00) (xs @ CHR 0x00 # r) = xs"
  by (induction xs) auto

lemma read_slot:
  assumes "c < 12" and "CHR 0x00 \<notin> set txt"
  shows "read_next_request (slot_of junk (show_pad4 c @ CHR '' '' # txt)) = Inr (int c, txt)"
  using pad4_code[OF assms(1)] assms(2)
  by (auto simp: read_next_request_def slot_of_def c_string_def intro!: takeWhile_nul)

lemma no_nul_show_int: "CHR 0x00 \<notin> set (show_int i)"
  using is_word_show_int[of i] by (auto simp: is_word_def list_all_iff)

lemma no_nul_word: "is_word w \<Longrightarrow> CHR 0x00 \<notin> set w"
  by (auto simp: is_word_def list_all_iff)

lemma scan_u64_show_int64:
  assumes "- (2 ^ 63) \<le> n" and "n < 2 ^ 63"
  shows "\<exists>w. scan_u64 (show_int n) = Some (w :: u64, []) \<and> sint w = n"
proof -
  have "sint (word_of_int n :: u64) = n"
    using assms by (simp add: sint_sbintrunc' signed_take_bit_int_eq_self)
  then show ?thesis using scan_ends(2)[of "word_of_int n"] by metis
qed

lemma decode_encode:
  assumes "fields_ok m"
  shows "decode_request (slot_of junk (request_text m)) = Some m"
proof (cases m)
  case (Write t d path n)
  with assms obtain w :: u64 where "scan_u64 (show_int n) = Some (w, [])" "sint w = n"
    using scan_u64_show_int64[of n] by auto
  with assms Write show ?thesis
    by (simp add: text_defs decode_request_def parse_request_def request_codes read_slot scan_simps
       no_nul_show_int no_nul_word)
qed (use assms in \<open>simp_all add: text_defs decode_request_def parse_request_def request_codes
       read_slot scan_simps no_nul_show_int no_nul_word\<close>)

subsection \<open>The protocol without its texts\<close>

text \<open>What the server does for a request; the handlers do it for the text of the request.\<close>

fun act :: "env \<Rightarrow> request \<Rightarrow> server \<Rightarrow> server res" where
  "act env (Consent t path src) s = do_consent env t path s"
| "act env (Close t path) s = do_close env t path s"
| "act env (Create t d path) s = do_create t path s"
| "act env (ExitGroup t) s = do_exit env t s"
| "act env (HandshakeNamed t pid app) s = do_handshake t app s"
| "act env (HandshakeAnonymous t pid) s = do_handshake t CAPIO_DEFAULT_APP_NAME s"
| "act env (Open t d path) s = do_open t path s"
| "act env (Read path t d n) s = do_read env path t (Some n) s"
| "act env (Rename t old new) s = unlockThreadAwaitingCreation new s"
| "act env (Write t d path n) s = do_write env path s"

lemma handlers_nth:
  "build_request_handlers_table ! CAPIO_REQUEST_CONSENT = Some consent_to_proceed_handler"
  "build_request_handlers_table ! CAPIO_REQUEST_CLOSE = Some close_handler"
  "build_request_handlers_table ! CAPIO_REQUEST_CREATE = Some create_handler"
  "build_request_handlers_table ! CAPIO_REQUEST_EXIT_GROUP = Some exit_handler"
  "build_request_handlers_table ! CAPIO_REQUEST_HANDSHAKE_NAMED = Some handshake_named_handler"
  "build_request_handlers_table ! CAPIO_REQUEST_HANDSHAKE_ANONYMOUS = Some handshake_anonymous_handler"
  "build_request_handlers_table ! CAPIO_REQUEST_OPEN = Some open_handler"
  "build_request_handlers_table ! CAPIO_REQUEST_READ = Some read_handler"
  "build_request_handlers_table ! CAPIO_REQUEST_RENAME = Some rename_handler"
  "build_request_handlers_table ! CAPIO_REQUEST_WRITE = Some write_handler"
  "length build_request_handlers_table = 12"
  by (simp_all add: handlers_table request_codes)

text \<open>For every text that parses, the handler of its code does what the request says.\<close>

lemma serve_parsed:
  assumes "read_next_request req = Inr (code, str)" and "parse_request code str = Some m"
  shows "serve env req s = act env m s"
proof -
  note r = assms(1)
  note sc = serve_at[of req _ str _ env s]
  from assms(2) consider
      (ex) "code = int CAPIO_REQUEST_EXIT_GROUP" | (rd) "code = int CAPIO_REQUEST_READ"
    | (cl) "code = int CAPIO_REQUEST_CLOSE" | (co) "code = int CAPIO_REQUEST_CONSENT"
    | (rn) "code = int CAPIO_REQUEST_RENAME" | (ha) "code = int CAPIO_REQUEST_HANDSHAKE_ANONYMOUS"
    | (cr) "code = int CAPIO_REQUEST_CREATE" | (hn) "code = int CAPIO_REQUEST_HANDSHAKE_NAMED"
    | (op) "code = int CAPIO_REQUEST_OPEN" | (wr) "code = int CAPIO_REQUEST_WRITE"
    by (auto simp: parse_request_def bind_eq_Some_conv split: if_splits)
  then show ?thesis
  proof cases
    case ex
    with sc[OF _ _ handlers_nth(4)] r assms(2) show ?thesis
      by (auto simp: parse_request_def request_codes exit_handler_def)
  next
    case rd
    with sc[OF _ _ handlers_nth(8)] r assms(2) show ?thesis
      by (auto simp: parse_request_def request_codes read_handler_def bind_eq_Some_conv)
  next
    case cl
    with sc[OF _ _ handlers_nth(2)] r assms(2) show ?thesis
      by (auto simp: parse_request_def request_codes close_handler_def bind_eq_Some_conv)
  next
    case co
    with sc[OF _ _ handlers_nth(1)] r assms(2) show ?thesis
      by (auto simp: parse_request_def request_codes consent_to_proceed_handler_def bind_eq_Some_conv)
  next
    case rn
    with sc[OF _ _ handlers_nth(9)] r assms(2) show ?thesis
      by (auto simp: parse_request_def request_codes rename_handler_def bind_eq_Some_conv)
  next
    case ha
    with sc[OF _ _ handlers_nth(6)] r assms(2) show ?thesis
      by (auto simp: parse_request_def request_codes handshake_anonymous_handler_def bind_eq_Some_conv)
  next
    case cr
    with sc[OF _ _ handlers_nth(3)] r assms(2) show ?thesis
      by (auto simp: parse_request_def request_codes create_handler_def bind_eq_Some_conv)
  next
    case hn
    with sc[OF _ _ handlers_nth(5)] r assms(2) show ?thesis
      by (auto simp: parse_request_def request_codes handshake_named_handler_def bind_eq_Some_conv)
  next
    case op
    with sc[OF _ _ handlers_nth(7)] r assms(2) show ?thesis
      by (auto simp: parse_request_def request_codes open_handler_def bind_eq_Some_conv)
  next
    case wr
    with sc[OF _ _ handlers_nth(10)] r assms(2) show ?thesis
      by (auto simp: parse_request_def request_codes write_handler_def bind_eq_Some_conv)
  qed
qed

lemma serve_sent:
  assumes "fields_ok m"
  shows "serve env (slot_of junk (request_text m)) s = act env m s"
proof -
  from decode_encode[OF assms, of junk] obtain code str where
    "read_next_request (slot_of junk (request_text m)) = Inr (code, str)"
    "parse_request code str = Some m"
    by (auto simp: decode_request_def split: sum.splits)
  then show ?thesis by (rule serve_parsed)
qed

subsection \<open>The channels\<close>

definition req_ring :: "ring \<Rightarrow> bool" where
  "req_ring r \<longleftrightarrow> elem_size r = CAPIO_REQ_MAX_SIZE"

interpretation requests: channel queue_write_elem queue_read_elem ring_contents max_num_elems ring_ok
    elem_fits "\<lambda>m. slot_of junk (request_text m)" decode_request request_ok req_ring
  for junk :: "nat \<Rightarrow> char"
proof unfold_locales
  show "decode_request (slot_of junk (request_text m)) = Some m" if "request_ok m" for m
    using that by (simp add: request_ok_def decode_encode)
  show "elem_fits q (slot_of junk (request_text m))" if "request_ok m" "req_ring q" for m q
    using that by (simp add: request_ok_def elem_fits_def req_ring_def length_slot_of)
qed

text \<open>An answer is the eight bytes of the offset in memory, the lowest first.\<close>

definition bytes_of :: "u64 \<Rightarrow> string" where
  "bytes_of w = map (\<lambda>i. char_of (unat (drop_bit (8 * i) w) mod 256)) [0..<8]"

definition word_of_bytes :: "string \<Rightarrow> u64" where
  "word_of_bytes bs = of_nat (horner_sum of_char 256 bs)"

lemma length_bytes_of [simp]: "length (bytes_of w) = 8"
  by (simp add: bytes_of_def)

lemma horner_bytes:
  "horner_sum of_char (256::nat) (map (\<lambda>i. char_of (n div 256 ^ i mod 256)) [0..<k]) = n mod 256 ^ k"
proof (induction k arbitrary: n)
  case (Suc k)
  have "map (\<lambda>i. char_of (n div 256 ^ i mod 256) :: char) [0..<Suc k] =
      char_of (n mod 256) # map (\<lambda>i. char_of (n div 256 div 256 ^ i mod 256)) [0..<k]"
    by (simp add: upt_conv_Cons map_Suc_upt[symmetric] div_mult2_eq o_def del: upt_Suc)
  then show ?case using Suc.IH[of "n div 256"]
    by (simp add: mod_mult2_eq)
qed simp

lemma word_bytes: "word_of_bytes (bytes_of w) = w"
proof -
  have "unat (drop_bit (8 * i) w) = unat w div 256 ^ i" for i
    unfolding unat_drop_bit_eq by (simp add: drop_bit_eq_div power_mult)
  then have "horner_sum of_char 256 (bytes_of w) = unat w mod 256 ^ 8"
    using horner_bytes[of "unat w" 8] by (simp add: bytes_of_def)
  also have "\<dots> = unat w" using unsigned_less[of w, where 'a = nat] by simp
  finally show ?thesis by (simp add: word_of_bytes_def)
qed

definition resp_ring :: "ring \<Rightarrow> bool" where
  "resp_ring r \<longleftrightarrow> elem_size r = 8"

interpretation answers: channel queue_write_elem queue_read_elem ring_contents max_num_elems ring_ok
    elem_fits bytes_of "\<lambda>e. Some (word_of_bytes e)" "\<lambda>_. True" resp_ring
  by unfold_locales (simp_all add: word_bytes elem_fits_def resp_ring_def)

subsection \<open>Properties\<close>

text \<open>The loop of the server over a sequence of slots, and over the requests they stand for.\<close>

fun serve_all :: "env \<Rightarrow> string list \<Rightarrow> server \<Rightarrow> server res" where
  "serve_all env [] s = Inr s"
| "serve_all env (req # reqs) s = rbind (serve env req s) (serve_all env reqs)"

fun act_all :: "env \<Rightarrow> request list \<Rightarrow> server \<Rightarrow> server res" where
  "act_all env [] s = Inr s"
| "act_all env (m # ms) s = rbind (act env m s) (act_all env ms)"

lemma decoded_served: "decode_request e = Some m \<Longrightarrow> serve env e s = act env m s"
  by (auto simp: decode_request_def serve_parsed split: sum.splits)

lemma decoded_served_all: "map decode_request es = map Some ms \<Longrightarrow> serve_all env es s = act_all env ms s"
proof (induction ms arbitrary: es s)
  case (Cons m ms)
  then obtain e es' where es: "es = e # es'" "decode_request e = Some m"
      "map decode_request es' = map Some ms" by (cases es) auto
  then have "serve_all env es' = act_all env ms" using Cons.IH by blast
  with es(1,2) show ?case by (simp add: decoded_served)
qed simp

text \<open>For every request whose paths and names are single words and whose text fits the buffer, what the
  client prints and the server scans agree: serving the slot, with any bytes behind the text, does
  exactly what the request says, failures included.\<close>

theorem served_as_sent:
  assumes "request_ok m"
  shows "length (slot_of junk (request_text m)) = CAPIO_REQ_MAX_SIZE \<and>
    serve env (slot_of junk (request_text m)) s = act env m s"
  using assms by (simp add: request_ok_def length_slot_of serve_sent)

definition sample_requests :: "request list" where
  "sample_requests = [HandshakeNamed 1 1 ''app'', Create 1 3 ''/d/f'', Write 1 3 ''/d/f'' (- 5),
     Read ''/d/f'' 1 3 ULLONG_MAX, Close 1 ''/d/f'', ExitGroup 1]"

lemma sample_requests_ok: "\<forall>m \<in> set sample_requests. request_ok m"
  by code_simp

lemma served_as_sent_witness:
  "serve sample_env (slot_of (\<lambda>_. CHR ''x'') (request_text (Read ''/d/f'' 1 3 ULLONG_MAX))) sample_server =
     do_read sample_env ''/d/f'' 1 (Some ULLONG_MAX) sample_server"
  using served_as_sent[of "Read ''/d/f'' 1 3 ULLONG_MAX" "\<lambda>_. CHR ''x''"] sample_requests_ok
  by (simp add: sample_requests_def)

text \<open>C6: Requests that clients put into the ring, as many as it has slots, reach the server in order and
  unchanged: serving what is read from the ring does what the requests say, one after the other.\<close>

theorem requests_served_in_order:
  assumes "ring_ok r" and "req_ring r" and "ring_contents r = []" and "\<forall>m \<in> set ms. request_ok m"
    and "length ms \<le> max_num_elems r"
  shows "\<exists>r1 r2 es.
    run_ops queue_write_elem queue_read_elem r (map Put (map (\<lambda>m. slot_of junk (request_text m)) ms)) =
      Some ([], r1) \<and>
    run_ops queue_write_elem queue_read_elem r1 (replicate (length ms) Get) = Some (es, r2) \<and>
    ring_contents r2 = [] \<and> serve_all env es s = act_all env ms s"
proof -
  from requests.send_receive[OF assms, of junk] obtain r1 r2 es where
    "run_ops queue_write_elem queue_read_elem r (map Put (map (\<lambda>m. slot_of junk (request_text m)) ms)) =
       Some ([], r1)"
    "run_ops queue_write_elem queue_read_elem r1 (replicate (length ms) Get) = Some (es, r2)"
    "map decode_request es = map Some ms" "ring_contents r2 = []" by blast
  with decoded_served_all[OF this(3)] show ?thesis by blast
qed

lemma requests_served_in_order_witness:
  "\<exists>r1 r2 es. run_ops queue_write_elem queue_read_elem (queue_init CAPIO_REQ_BUFF_CNT CAPIO_REQ_MAX_SIZE)
       (map Put (map (\<lambda>m. slot_of (\<lambda>_. CHR 0x00) (request_text m)) sample_requests)) = Some ([], r1) \<and>
     run_ops queue_write_elem queue_read_elem r1 (replicate 6 Get) = Some (es, r2) \<and>
     serve_all sample_env es sample_server = act_all sample_env sample_requests sample_server"
proof -
  have 6: "length sample_requests = 6" by (simp add: sample_requests_def)
  have ok: "ring_ok (queue_init CAPIO_REQ_BUFF_CNT CAPIO_REQ_MAX_SIZE)"
    by (rule queue_init_ok) (simp_all add: CAPIO_REQ_BUFF_CNT_def CAPIO_REQ_MAX_SIZE_def)
  show ?thesis
    using requests_served_in_order[OF ok _ queue_init_empty sample_requests_ok]
    by (simp add: req_ring_def queue_init_def CAPIO_REQ_BUFF_CNT_def 6) blast
qed

text \<open>A blank in a path ends it: whatever follows the first blank is not read by the server, which
  opens, creates and closes another path than the one the client printed, that of the text before it.\<close>

theorem blank_cuts_path:
  assumes "fits32 t" and "fits32 d" and "is_word p" and "CHR 0x00 \<notin> set q"
  shows "serve env (slot_of junk (request_text (Open t d (p @ '' '' @ q)))) s = act env (Open t d p) s \<and>
    serve env (slot_of junk (request_text (Create t d (p @ '' '' @ q)))) s = act env (Create t d p) s \<and>
    serve env (slot_of junk (request_text (Close t (p @ '' '' @ q)))) s = act env (Close t p) s"
proof -
  have "decode_request (slot_of junk (request_text (Open t d (p @ '' '' @ q)))) = Some (Open t d p)"
    "decode_request (slot_of junk (request_text (Create t d (p @ '' '' @ q)))) = Some (Create t d p)"
    "decode_request (slot_of junk (request_text (Close t (p @ '' '' @ q)))) = Some (Close t p)"
    using assms by (simp_all add: text_defs decode_request_def parse_request_def request_codes read_slot scan_simps
        no_nul_show_int no_nul_word)
  then show ?thesis by (simp add: decoded_served)
qed

lemma blank_cuts_path_witness:
  "serve sample_env (slot_of (\<lambda>_. CHR 0x00) (request_text (Open 1 3 ''/d/a b''))) sample_server =
     act sample_env (Open 1 3 ''/d/a'') sample_server"
proof -
  have "fits32 1" "fits32 3" "is_word ''/d/a''" "CHR 0x00 \<notin> set ''b''" by (code_simp, code_simp, code_simp, simp)
  from blank_cuts_path[OF this, of sample_env "\<lambda>_. CHR 0x00" sample_server] show ?thesis by simp
qed

end
