(* ===== verification/PosixFiles.thy ===== *)
theory PosixFiles
  imports StdPath
begin

text \<open>
  The metadata tables of \<open>src/posix/utils/filesystem.hpp\<close>: which descriptors of the process are
  files of CAPIO, their paths and offsets. The offset of a descriptor is behind a \<open>shared_ptr\<close>, so
  the offsets live in a store of their own and duplicated descriptors share an address; the
  invariant \<open>fd_wf\<close> ties the three maps together.
\<close>

record fd_info =
  fi_offset :: nat        \<comment> \<open>address of the offset\<close>
  fi_cloexec :: bool

record fd_tables =
  files :: "(fd, fd_info) umap"
  capio_files_descriptors :: "(fd, string) umap"
  capio_files_paths :: "(string, fd list) umap"
  offsets :: "nat \<Rightarrow> u64"
  next_offset :: nat
  current_dir :: string

definition init_filesystem :: "string \<Rightarrow> fd_tables" where
  "init_filesystem cwd = \<lparr>files = [], capio_files_descriptors = [], capio_files_paths = [],
     offsets = (\<lambda>_. 0), next_offset = 0, current_dir = cwd\<rparr>"

definition set_capio_fd_cloexec :: "fd \<Rightarrow> bool \<Rightarrow> fd_tables \<Rightarrow> fd_tables res" where
  "set_capio_fd_cloexec d c T =
     rbind (at_or_throw (map_of (files T) d)) (\<lambda>i.
       Inr (T\<lparr>files := AList.update d (i\<lparr>fi_cloexec := c\<rparr>) (files T)\<rparr>))"

definition add_capio_path :: "string \<Rightarrow> fd_tables \<Rightarrow> fd_tables" where
  "add_capio_path path T = T\<lparr>capio_files_paths := emplace path [] (capio_files_paths T)\<rparr>"

text \<open>\<open>capio_files_paths->at (path).insert (fd)\<close> and \<open>.erase (fd)\<close>.\<close>

definition path_insert :: "string \<Rightarrow> fd \<Rightarrow> fd_tables \<Rightarrow> fd_tables res" where
  "path_insert path d T =
     rbind (at_or_throw (map_of (capio_files_paths T) path)) (\<lambda>ds.
       Inr (T\<lparr>capio_files_paths :=
         AList.update path (if d \<in> set ds then ds else ds @ [d]) (capio_files_paths T)\<rparr>))"

definition path_erase :: "string \<Rightarrow> fd \<Rightarrow> fd_tables \<Rightarrow> fd_tables res" where
  "path_erase path d T =
     rbind (at_or_throw (map_of (capio_files_paths T) path)) (\<lambda>ds.
       Inr (T\<lparr>capio_files_paths := AList.update path (removeAll d ds) (capio_files_paths T)\<rparr>))"

definition add_capio_fd :: "string \<Rightarrow> fd \<Rightarrow> u64 \<Rightarrow> bool \<Rightarrow> fd_tables \<Rightarrow> fd_tables res" where
  "add_capio_fd path d offset is_cloexec T =
     rbind (path_insert path d (add_capio_path path T)) (\<lambda>T1.
       Inr (T1\<lparr>capio_files_descriptors := emplace d path (capio_files_descriptors T1),
               files := emplace d \<lparr>fi_offset = next_offset T1, fi_cloexec = is_cloexec\<rparr> (files T1),
               offsets := (offsets T1)(next_offset T1 := offset),
               next_offset := Suc (next_offset T1)\<rparr>))"

definition delete_capio_fd :: "fd \<Rightarrow> fd_tables \<Rightarrow> fd_tables res" where
  "delete_capio_fd d T =
     rbind (at_or_throw (map_of (capio_files_descriptors T) d)) (\<lambda>path.
     rbind (path_erase path d T) (\<lambda>T1.
       Inr (T1\<lparr>capio_files_descriptors := AList.delete d (capio_files_descriptors T1),
               files := AList.delete d (files T1)\<rparr>)))"

fun delete_capio_fds :: "fd list \<Rightarrow> fd_tables \<Rightarrow> fd_tables res" where
  "delete_capio_fds [] T = Inr T"
| "delete_capio_fds (d # ds) T = rbind (delete_capio_fd d T) (delete_capio_fds ds)"

definition delete_capio_path :: "string \<Rightarrow> fd_tables \<Rightarrow> fd_tables res" where
  "delete_capio_path path T =
     (case map_of (capio_files_paths T) path of
        None \<Rightarrow> Inr T
      | Some ds \<Rightarrow> rbind (delete_capio_fds ds T) (\<lambda>T1.
          Inr (T1\<lparr>capio_files_paths := AList.delete path (capio_files_paths T1)\<rparr>)))"

text \<open>Copying the tuple copies the pointer to the offset.\<close>

definition dup_capio_fd :: "fd \<Rightarrow> fd \<Rightarrow> bool \<Rightarrow> fd_tables \<Rightarrow> fd_tables res" where
  "dup_capio_fd oldfd newfd is_cloexec T =
     rbind (at_or_throw (map_of (capio_files_descriptors T) oldfd)) (\<lambda>path.
     rbind (path_insert path newfd T) (\<lambda>T1.
     rbind (at_or_throw (map_of (files T1) oldfd)) (\<lambda>i.
     rbind (set_capio_fd_cloexec newfd is_cloexec (T1\<lparr>files := emplace newfd i (files T1)\<rparr>)) (\<lambda>T2.
       Inr (T2\<lparr>capio_files_descriptors := emplace newfd path (capio_files_descriptors T2)\<rparr>)))))"

definition exists_capio_fd :: "fd \<Rightarrow> fd_tables \<Rightarrow> bool" where
  "exists_capio_fd d T = (map_of (files T) d \<noteq> None)"

definition get_capio_fd_cloexec :: "fd \<Rightarrow> fd_tables \<Rightarrow> bool res" where
  "get_capio_fd_cloexec d T = rbind (at_or_throw (map_of (files T) d)) (\<lambda>i. Inr (fi_cloexec i))"

definition get_capio_fd_path :: "fd \<Rightarrow> fd_tables \<Rightarrow> string res" where
  "get_capio_fd_path d T = at_or_throw (map_of (capio_files_descriptors T) d)"

definition get_capio_fd_offset :: "fd \<Rightarrow> fd_tables \<Rightarrow> u64 res" where
  "get_capio_fd_offset d T =
     rbind (at_or_throw (map_of (files T) d)) (\<lambda>i. Inr (offsets T (fi_offset i)))"

definition set_capio_fd_offset :: "fd \<Rightarrow> u64 \<Rightarrow> fd_tables \<Rightarrow> fd_tables res" where
  "set_capio_fd_offset d offset T =
     rbind (at_or_throw (map_of (files T) d)) (\<lambda>i.
       Inr (T\<lparr>offsets := (offsets T)(fi_offset i := offset)\<rparr>))"

definition get_capio_fds :: "fd_tables \<Rightarrow> fd list" where
  "get_capio_fds T = map fst (files T)"

fun assign_paths :: "fd list \<Rightarrow> string \<Rightarrow> fd_tables \<Rightarrow> fd_tables res" where
  "assign_paths [] path T = Inr T"
| "assign_paths (d # ds) path T =
     rbind (at_or_throw (map_of (capio_files_descriptors T) d)) (\<lambda>_.
       assign_paths ds path
         (T\<lparr>capio_files_descriptors := AList.update d path (capio_files_descriptors T)\<rparr>))"

text \<open>\<open>insert\<close> of the extracted node drops the node when the new key is taken.\<close>

definition rename_capio_path :: "string \<Rightarrow> string \<Rightarrow> fd_tables \<Rightarrow> fd_tables res" where
  "rename_capio_path oldpath newpath T =
     (case map_of (capio_files_paths T) oldpath of
        None \<Rightarrow> Inr T
      | Some entry \<Rightarrow>
          let T1 = T\<lparr>capio_files_paths :=
                emplace newpath entry (AList.delete oldpath (capio_files_paths T))\<rparr>
          in rbind (at_or_throw (map_of (capio_files_paths T1) newpath)) (\<lambda>ds.
               assign_paths ds newpath T1))"

text \<open>The tables are deleted and their pointers left as they are: \<open>None\<close>, not to be deleted again.\<close>

definition destroy_filesystem :: "fd_tables option \<Rightarrow> fd_tables option res" where
  "destroy_filesystem T = (case T of Some _ \<Rightarrow> Inr None | None \<Rightarrow> Inl Undefined)"

definition set_current_dir :: "string \<Rightarrow> fd_tables \<Rightarrow> fd_tables" where
  "set_current_dir cwd T = T\<lparr>current_dir := cwd\<rparr>"

subsection \<open>The invariant\<close>

text \<open>Three views of the same set of descriptors, and addresses that have been handed out.\<close>

definition fds_of :: "fd_tables \<Rightarrow> string \<Rightarrow> fd set" where
  "fds_of T p = (case map_of (capio_files_paths T) p of None \<Rightarrow> {} | Some ds \<Rightarrow> set ds)"

definition fd_wf :: "fd_tables \<Rightarrow> bool" where
  "fd_wf T \<longleftrightarrow> (\<forall>d. (map_of (files T) d = None) = (map_of (capio_files_descriptors T) d = None)) \<and>
     (\<forall>d p. map_of (capio_files_descriptors T) d = Some p \<longleftrightarrow> d \<in> fds_of T p) \<and>
     (\<forall>d i. map_of (files T) d = Some i \<longrightarrow> fi_offset i < next_offset T)"

lemma fds_of_cong [simp]:
  "fds_of (T\<lparr>capio_files_descriptors := D\<rparr>) = fds_of T" "fds_of (T\<lparr>files := F\<rparr>) = fds_of T"
  "fds_of (T\<lparr>offsets := off\<rparr>) = fds_of T" "fds_of (T\<lparr>next_offset := n\<rparr>) = fds_of T"
  by (simp_all add: fun_eq_iff fds_of_def)

lemma fds_of_update [simp]:
  "fds_of (T\<lparr>capio_files_paths := AList.update p ds P\<rparr>) q =
     (if q = p then set ds else fds_of (T\<lparr>capio_files_paths := P\<rparr>) q)"
  "fds_of (T\<lparr>capio_files_paths := AList.delete p P\<rparr>) q =
     (if q = p then {} else fds_of (T\<lparr>capio_files_paths := P\<rparr>) q)"
  "fds_of (T\<lparr>capio_files_paths := emplace p ds P\<rparr>) q =
     (if q = p \<and> map_of P p = None then set ds else fds_of (T\<lparr>capio_files_paths := P\<rparr>) q)"
  "fds_of (T\<lparr>capio_files_paths := capio_files_paths T\<rparr>) = fds_of T"
  by (auto simp: fds_of_def umap_simps)

lemma fd_wf_init: "fd_wf (init_filesystem cwd)"
  by (simp add: fd_wf_def init_filesystem_def fds_of_def)

lemma fd_wfD:
  assumes "fd_wf T"
  shows "map_of (files T) d = None \<longleftrightarrow> map_of (capio_files_descriptors T) d = None"
    and "map_of (capio_files_descriptors T) d = Some p \<longleftrightarrow> d \<in> fds_of T p"
    and "map_of (files T) d = Some i \<Longrightarrow> fi_offset i < next_offset T"
  using assms by (simp_all add: fd_wf_def)

lemma fds_ofE:
  assumes "d \<in> fds_of T p"
  obtains ds where "map_of (capio_files_paths T) p = Some ds" "set ds = fds_of T p"
  using assms by (auto simp: fds_of_def split: option.splits)

text \<open>A descriptor the tables do not know is added; all others stay.\<close>

lemma add_capio_fd_ok:
  assumes "\<not> exists_capio_fd d T" and wf: "fd_wf T"
  shows "\<exists>T'. add_capio_fd p d off c T = Inr T' \<and> fd_wf T' \<and>
     get_capio_fd_path d T' = Inr p \<and> get_capio_fd_offset d T' = Inr off \<and>
     get_capio_fd_cloexec d T' = Inr c \<and>
     (\<forall>e. e \<noteq> d \<longrightarrow> exists_capio_fd e T' = exists_capio_fd e T \<and>
        get_capio_fd_path e T' = get_capio_fd_path e T \<and>
        get_capio_fd_offset e T' = get_capio_fd_offset e T)"
proof -
  obtain ds where ds: "map_of (emplace p [] (capio_files_paths T)) p = Some ds"
    using um.look_ins_defined by metis
  then have set_ds: "set ds = fds_of T p" by (auto simp: umap_simps fds_of_def split: if_splits option.splits)
  have new: "map_of (files T) d = None" "map_of (capio_files_descriptors T) d = None"
    using assms(1) fd_wfD(1)[OF wf, of d] by (simp_all add: exists_capio_fd_def)
  then have nods: "d \<notin> fds_of T q" for q using fd_wfD(2)[OF wf, of d q] by simp
  define T' where "T' = T\<lparr>capio_files_paths := AList.update p (ds @ [d]) (emplace p [] (capio_files_paths T)),
      capio_files_descriptors := emplace d p (capio_files_descriptors T),
      files := emplace d \<lparr>fi_offset = next_offset T, fi_cloexec = c\<rparr> (files T),
      offsets := (offsets T)(next_offset T := off), next_offset := Suc (next_offset T)\<rparr>"
  have T': "add_capio_fd p d off c T = Inr T'"
    using ds nods set_ds by (simp add: add_capio_fd_def path_insert_def add_capio_path_def T'_def)
  have look: "map_of (files T') e =
       (if e = d then Some \<lparr>fi_offset = next_offset T, fi_cloexec = c\<rparr> else map_of (files T) e)"
    "map_of (capio_files_descriptors T') e = (if e = d then Some p else map_of (capio_files_descriptors T) e)"
    "fds_of T' q = (if q = p then insert d (fds_of T p) else fds_of T q)" for e q
    using new by (auto simp: T'_def umap_simps set_ds)
  have "fd_wf T'"
    unfolding fd_wf_def look
    using fd_wfD[OF wf] nods by (auto simp: T'_def less_Suc_eq)
  moreover have "fi_offset i \<noteq> next_offset T" if "map_of (files T) e = Some i" for e i
    using fd_wfD(3)[OF wf that] by simp
  moreover have "offsets T' = (offsets T)(next_offset T := off)" by (simp add: T'_def)
  ultimately show ?thesis using T'
    by (auto simp: get_capio_fd_path_def get_capio_fd_offset_def get_capio_fd_cloexec_def
        exists_capio_fd_def look at_or_throw_def split: option.splits)
qed

text \<open>Deleting a known descriptor takes it out of every table and leaves the others alone.\<close>

definition without_fd :: "fd \<Rightarrow> fd_tables \<Rightarrow> fd_tables \<Rightarrow> bool" where
  "without_fd d T T' \<longleftrightarrow>
     (\<forall>e. map_of (files T') e = (if e = d then None else map_of (files T) e)) \<and>
     (\<forall>e. map_of (capio_files_descriptors T') e =
        (if e = d then None else map_of (capio_files_descriptors T) e)) \<and>
     (\<forall>q. fds_of T' q = fds_of T q - {d}) \<and>
     dom (map_of (capio_files_paths T')) = dom (map_of (capio_files_paths T)) \<and>
     offsets T' = offsets T \<and> next_offset T' = next_offset T"

lemma delete_capio_fd_ok:
  assumes "exists_capio_fd d T" and wf: "fd_wf T"
  shows "\<exists>T'. delete_capio_fd d T = Inr T' \<and> fd_wf T' \<and> without_fd d T T'"
proof -
  obtain p where p: "map_of (capio_files_descriptors T) d = Some p"
    using assms(1) fd_wfD(1)[OF wf, of d] by (auto simp: exists_capio_fd_def)
  then have dp: "d \<in> fds_of T p" using fd_wfD(2)[OF wf] by simp
  then obtain ds where ds: "map_of (capio_files_paths T) p = Some ds" "set ds = fds_of T p"
    by (rule fds_ofE)
  define T' where "T' = T\<lparr>capio_files_paths := AList.update p (removeAll d ds) (capio_files_paths T),
     capio_files_descriptors := AList.delete d (capio_files_descriptors T), files := AList.delete d (files T)\<rparr>"
  have T': "delete_capio_fd d T = Inr T'" using p ds(1)
    by (simp add: delete_capio_fd_def path_erase_def T'_def)
  have "d \<notin> fds_of T q" if "q \<noteq> p" for q using p that fd_wfD(2)[OF wf, of d q] by simp
  then have wo: "without_fd d T T'"
    using ds by (auto simp: without_fd_def T'_def umap_simps split: if_splits)
  then have "fd_wf T'"
    using fd_wfD[OF wf] unfolding without_fd_def fd_wf_def by auto
  with T' wo show ?thesis by blast
qed

lemma without_fd_twice:
  assumes "without_fd d T T1" and "\<forall>e. map_of (files T2) e = (if e \<in> S then None else map_of (files T1) e)"
  shows "\<forall>e. map_of (files T2) e = (if e \<in> insert d S then None else map_of (files T) e)"
  using assms by (simp add: without_fd_def)

definition without_fds :: "fd set \<Rightarrow> fd_tables \<Rightarrow> fd_tables \<Rightarrow> bool" where
  "without_fds S T T' \<longleftrightarrow>
     (\<forall>e. map_of (files T') e = (if e \<in> S then None else map_of (files T) e)) \<and>
     (\<forall>e. map_of (capio_files_descriptors T') e =
        (if e \<in> S then None else map_of (capio_files_descriptors T) e)) \<and>
     (\<forall>q. fds_of T' q = fds_of T q - S) \<and>
     dom (map_of (capio_files_paths T')) = dom (map_of (capio_files_paths T)) \<and>
     offsets T' = offsets T \<and> next_offset T' = next_offset T"

lemma delete_capio_fds_ok:
  "distinct ds \<Longrightarrow> \<forall>d \<in> set ds. exists_capio_fd d T \<Longrightarrow> fd_wf T \<Longrightarrow>
     \<exists>T'. delete_capio_fds ds T = Inr T' \<and> fd_wf T' \<and> without_fds (set ds) T T'"
proof (induction ds arbitrary: T)
  case Nil
  then show ?case by (simp add: without_fds_def)
next
  case (Cons d ds)
  from delete_capio_fd_ok[OF _ Cons.prems(3), of d] Cons.prems(2) obtain T1 where
    T1: "delete_capio_fd d T = Inr T1" "fd_wf T1" "without_fd d T T1" by auto
  have "\<forall>e \<in> set ds. exists_capio_fd e T1"
    using T1(3) Cons.prems(1,2) by (auto simp: without_fd_def exists_capio_fd_def)
  with Cons.IH[OF _ _ T1(2)] Cons.prems(1) obtain T' where
    T': "delete_capio_fds ds T1 = Inr T'" "fd_wf T'" "without_fds (set ds) T1 T'" by auto
  have "without_fds (insert d (set ds)) T T'"
    using T1(3) T'(3) by (auto simp: without_fd_def without_fds_def)
  with T1(1) T'(1,2) show ?case by simp
qed

text \<open>Removing a path removes its descriptors and nothing else.\<close>

definition distinct_entries :: "(string, fd list) umap \<Rightarrow> bool" where
  "distinct_entries P \<longleftrightarrow> (\<forall>p ds. map_of P p = Some ds \<longrightarrow> distinct ds)"

definition paths_distinct :: "fd_tables \<Rightarrow> bool" where
  "paths_distinct T \<longleftrightarrow> distinct_entries (capio_files_paths T)"

lemma delete_capio_path_ok:
  assumes wf: "fd_wf T" and "paths_distinct T"
  shows "\<exists>T'. delete_capio_path p T = Inr T' \<and> fd_wf T' \<and> map_of (capio_files_paths T') p = None \<and>
     (\<forall>d. exists_capio_fd d T' \<longleftrightarrow> exists_capio_fd d T \<and> get_capio_fd_path d T \<noteq> Inr p) \<and>
     (\<forall>d. exists_capio_fd d T' \<longrightarrow> get_capio_fd_path d T' = get_capio_fd_path d T \<and>
        get_capio_fd_offset d T' = get_capio_fd_offset d T)"
proof (cases "map_of (capio_files_paths T) p")
  case None
  then have "fds_of T p = {}" by (simp add: fds_of_def)
  then have "map_of (capio_files_descriptors T) d \<noteq> Some p" for d using fd_wfD(2)[OF wf, of d p] by simp
  with None wf show ?thesis
    by (auto simp: delete_capio_path_def get_capio_fd_path_def at_or_throw_def split: option.splits)
next
  case (Some ds)
  have ds: "set ds = fds_of T p" using Some by (simp add: fds_of_def)
  have known: "map_of (capio_files_descriptors T) d = Some p \<longleftrightarrow> d \<in> set ds" for d
    using fd_wfD(2)[OF wf, of d p] ds by simp
  have "\<forall>d \<in> set ds. exists_capio_fd d T"
  proof
    fix d assume "d \<in> set ds"
    with known[of d] fd_wfD(1)[OF wf, of d] show "exists_capio_fd d T"
      by (simp add: exists_capio_fd_def)
  qed
  with delete_capio_fds_ok[OF _ _ wf, of ds] assms(2) Some obtain T1 where
    T1: "delete_capio_fds ds T = Inr T1" "fd_wf T1" "without_fds (set ds) T T1"
    by (auto simp: paths_distinct_def distinct_entries_def)
  let ?T = "T1\<lparr>capio_files_paths := AList.delete p (capio_files_paths T1)\<rparr>"
  have "fds_of T1 p = {}" using T1(3) ds by (simp add: without_fds_def)
  then have "fds_of ?T = fds_of T1" by (simp add: fun_eq_iff)
  then have "fd_wf ?T" using T1(2) by (simp add: fd_wf_def)
  moreover have "delete_capio_path p T = Inr ?T" using Some T1(1) by (simp add: delete_capio_path_def)
  moreover have "exists_capio_fd d ?T \<longleftrightarrow> exists_capio_fd d T \<and> get_capio_fd_path d T \<noteq> Inr p" for d
    using T1(3) known[of d]
    by (auto simp: without_fds_def exists_capio_fd_def get_capio_fd_path_def at_or_throw_def
        split: option.splits)
  moreover have "get_capio_fd_path d ?T = get_capio_fd_path d T \<and>
      get_capio_fd_offset d ?T = get_capio_fd_offset d T" if "exists_capio_fd d ?T" for d
    using T1(3) that
    by (auto simp: without_fds_def exists_capio_fd_def get_capio_fd_path_def get_capio_fd_offset_def
        split: if_splits)
  ultimately show ?thesis by (simp add: umap_simps)
qed

subsection \<open>Duplicated descriptors share their offset\<close>

lemma dup_capio_fd_ok:
  assumes wf: "fd_wf T" and o: "exists_capio_fd oldfd T" and n: "\<not> exists_capio_fd newfd T"
  shows "\<exists>T'. dup_capio_fd oldfd newfd c T = Inr T' \<and> fd_wf T' \<and>
     get_capio_fd_path newfd T' = get_capio_fd_path oldfd T \<and>
     get_capio_fd_cloexec newfd T' = Inr c \<and>
     map_option fi_offset (map_of (files T') newfd) = map_option fi_offset (map_of (files T) oldfd) \<and>
     (\<forall>e. e \<noteq> newfd \<longrightarrow> map_of (files T') e = map_of (files T) e \<and>
        get_capio_fd_path e T' = get_capio_fd_path e T) \<and> offsets T' = offsets T"
proof -
  obtain p where p: "map_of (capio_files_descriptors T) oldfd = Some p"
    using o fd_wfD(1)[OF wf, of oldfd] by (auto simp: exists_capio_fd_def)
  obtain i where i: "map_of (files T) oldfd = Some i" using o by (auto simp: exists_capio_fd_def)
  have new: "map_of (files T) newfd = None" "map_of (capio_files_descriptors T) newfd = None"
    using n fd_wfD(1)[OF wf, of newfd] by (simp_all add: exists_capio_fd_def)
  then have nods: "newfd \<notin> fds_of T q" for q using fd_wfD(2)[OF wf, of newfd q] by simp
  have "oldfd \<in> fds_of T p" using p fd_wfD(2)[OF wf] by simp
  then obtain ds where ds: "map_of (capio_files_paths T) p = Some ds" "set ds = fds_of T p"
    by (rule fds_ofE)
  define T' where "T' = T\<lparr>capio_files_paths := AList.update p (ds @ [newfd]) (capio_files_paths T),
      files := AList.update newfd (i\<lparr>fi_cloexec := c\<rparr>) (emplace newfd i (files T)),
      capio_files_descriptors := emplace newfd p (capio_files_descriptors T)\<rparr>"
  have T': "dup_capio_fd oldfd newfd c T = Inr T'"
    using p i ds nods new
    by (simp add: dup_capio_fd_def path_insert_def set_capio_fd_cloexec_def umap_simps T'_def)
  have look: "map_of (files T') e = (if e = newfd then Some (i\<lparr>fi_cloexec := c\<rparr>) else map_of (files T) e)"
    "map_of (capio_files_descriptors T') e =
       (if e = newfd then Some p else map_of (capio_files_descriptors T) e)"
    "fds_of T' q = (if q = p then insert newfd (fds_of T p) else fds_of T q)" for e q
    using new ds by (auto simp: T'_def umap_simps)
  have "fd_wf T'"
    unfolding fd_wf_def look using fd_wfD[OF wf] nods i by (auto simp: T'_def)
  moreover have "offsets T' = offsets T" by (simp add: T'_def)
  ultimately show ?thesis using T' p i
    by (auto simp: look get_capio_fd_path_def get_capio_fd_cloexec_def)
qed

definition shares_offset :: "fd \<Rightarrow> fd \<Rightarrow> fd_tables \<Rightarrow> bool" where
  "shares_offset d e T \<longleftrightarrow> (\<exists>i j. map_of (files T) d = Some i \<and> map_of (files T) e = Some j \<and>
     fi_offset i = fi_offset j)"

lemma set_offset_seen:
  assumes "exists_capio_fd d T"
  shows "\<exists>T'. set_capio_fd_offset d off T = Inr T' \<and>
     (\<forall>e. exists_capio_fd e T \<longrightarrow> get_capio_fd_offset e T' =
        (if shares_offset d e T then Inr off else get_capio_fd_offset e T)) \<and>
     files T' = files T \<and> capio_files_descriptors T' = capio_files_descriptors T \<and>
     capio_files_paths T' = capio_files_paths T"
  using assms
  by (auto simp: exists_capio_fd_def set_capio_fd_offset_def get_capio_fd_offset_def shares_offset_def)

text \<open>
  Duplicating onto a descriptor that is already a file of CAPIO leaves its old entries, because
  \<open>insert\<close> keeps them: the tables then disagree about its path.
\<close>

lemma dup_over_known:
  assumes wf: "fd_wf T" and "map_of (capio_files_descriptors T) oldfd = Some p"
    and "map_of (capio_files_descriptors T) newfd = Some q" and "p \<noteq> q"
  shows "\<exists>T'. dup_capio_fd oldfd newfd c T = Inr T' \<and> get_capio_fd_path newfd T' = Inr q \<and>
     newfd \<in> fds_of T' p \<and> \<not> fd_wf T'"
proof -
  obtain i where i: "map_of (files T) oldfd = Some i" using assms(2) fd_wfD(1)[OF wf, of oldfd] by auto
  obtain j where j: "map_of (files T) newfd = Some j" using assms(3) fd_wfD(1)[OF wf, of newfd] by auto
  have "oldfd \<in> fds_of T p" using assms(2) fd_wfD(2)[OF wf] by simp
  then obtain ds where ds: "map_of (capio_files_paths T) p = Some ds" "set ds = fds_of T p"
    by (rule fds_ofE)
  have "newfd \<notin> fds_of T p" using assms(3,4) fd_wfD(2)[OF wf, of newfd p] by auto
  define T' where "T' = T\<lparr>capio_files_paths := AList.update p (ds @ [newfd]) (capio_files_paths T),
      files := AList.update newfd (j\<lparr>fi_cloexec := c\<rparr>) (files T)\<rparr>"
  have T': "dup_capio_fd oldfd newfd c T = Inr T'"
    using assms(2,3) i j ds \<open>newfd \<notin> fds_of T p\<close>
    by (simp add: dup_capio_fd_def path_insert_def set_capio_fd_cloexec_def emplace_def T'_def)
  moreover have "newfd \<in> fds_of T' p" by (simp add: T'_def)
  moreover have "map_of (capio_files_descriptors T') newfd = Some q" using assms(3) by (simp add: T'_def)
  ultimately show ?thesis using assms(4) fd_wfD(2)[of T' newfd p]
    by (auto simp: get_capio_fd_path_def)
qed

subsection \<open>Renaming\<close>

lemma assign_paths_all:
  "\<forall>d \<in> set ds. map_of (capio_files_descriptors T) d \<noteq> None \<Longrightarrow>
     \<exists>T'. assign_paths ds path T = Inr T' \<and> files T' = files T \<and>
       capio_files_paths T' = capio_files_paths T \<and> offsets T' = offsets T \<and>
       next_offset T' = next_offset T \<and>
       (\<forall>e. map_of (capio_files_descriptors T') e =
          (if e \<in> set ds then Some path else map_of (capio_files_descriptors T) e))"
proof (induction ds arbitrary: T)
  case (Cons d ds)
  let ?T = "T\<lparr>capio_files_descriptors := AList.update d path (capio_files_descriptors T)\<rparr>"
  have "\<forall>e \<in> set ds. map_of (capio_files_descriptors ?T) e \<noteq> None"
    using Cons.prems by (simp add: umap_simps)
  from Cons.IH[OF this] obtain T' where T': "assign_paths ds path ?T = Inr T'" "files T' = files T"
      "capio_files_paths T' = capio_files_paths T" "offsets T' = offsets T" "next_offset T' = next_offset T"
      "\<forall>e. map_of (capio_files_descriptors T') e =
          (if e \<in> set ds then Some path else map_of (capio_files_descriptors ?T) e)"
    by auto
  then show ?case using Cons.prems by (auto simp: umap_simps)
qed auto

lemma rename_capio_path_ok:
  assumes wf: "fd_wf T" and "map_of (capio_files_paths T) newpath = None" and "oldpath \<noteq> newpath"
  shows "\<exists>T'. rename_capio_path oldpath newpath T = Inr T' \<and> fd_wf T' \<and>
     (\<forall>d. get_capio_fd_path d T' =
        (if get_capio_fd_path d T = Inr oldpath then Inr newpath else get_capio_fd_path d T)) \<and>
     (\<forall>d. get_capio_fd_offset d T' = get_capio_fd_offset d T)"
proof (cases "map_of (capio_files_paths T) oldpath")
  case None
  then have "fds_of T oldpath = {}" by (simp add: fds_of_def)
  then have "map_of (capio_files_descriptors T) d \<noteq> Some oldpath" for d
    using fd_wfD(2)[OF wf, of d oldpath] by simp
  with None wf show ?thesis
    by (auto simp: rename_capio_path_def get_capio_fd_path_def at_or_throw_def split: option.splits)
next
  case (Some ds)
  then have set_ds: "set ds = fds_of T oldpath" by (simp add: fds_of_def)
  have desc: "map_of (capio_files_descriptors T) d = Some oldpath \<longleftrightarrow> d \<in> set ds" for d
    using fd_wfD(2)[OF wf, of d oldpath] set_ds by simp
  define T1 where "T1 = T\<lparr>capio_files_paths := emplace newpath ds (AList.delete oldpath (capio_files_paths T))\<rparr>"
  have T1: "files T1 = files T" "capio_files_descriptors T1 = capio_files_descriptors T"
    "offsets T1 = offsets T" "next_offset T1 = next_offset T"
    "capio_files_paths T1 = emplace newpath ds (AList.delete oldpath (capio_files_paths T))"
    by (simp_all add: T1_def)
  have new: "map_of (AList.delete oldpath (capio_files_paths T)) newpath = None"
    using assms(2) by (simp add: umap_simps)
  have at: "map_of (capio_files_paths T1) newpath = Some ds" using new by (simp add: umap_simps T1)
  have "\<forall>d \<in> set ds. map_of (capio_files_descriptors T1) d \<noteq> None" using desc by (auto simp: T1)
  from assign_paths_all[OF this] obtain T' where T': "assign_paths ds newpath T1 = Inr T'"
      "files T' = files T" "capio_files_paths T' = capio_files_paths T1" "offsets T' = offsets T"
      "next_offset T' = next_offset T"
      "\<forall>e. map_of (capio_files_descriptors T') e =
          (if e \<in> set ds then Some newpath else map_of (capio_files_descriptors T) e)"
    unfolding T1(1-4) by blast
  have ren: "rename_capio_path oldpath newpath T = Inr T'"
    using Some at T'(1) by (simp add: rename_capio_path_def T1_def)
  have "fds_of T newpath = {}" using assms(2) by (simp add: fds_of_def)
  moreover have "fds_of T' = fds_of T1" using T'(3) by (simp add: fun_eq_iff fds_of_def)
  ultimately have fds: "fds_of T' q = (if q = newpath then set ds else if q = oldpath then {} else fds_of T q)" for q
    using new by (simp add: T1_def)
  have "fd_wf T'"
    unfolding fd_wf_def fds
  proof (intro conjI allI)
    fix d p
    show "(map_of (files T') d = None) = (map_of (capio_files_descriptors T') d = None)"
      using T'(2,6) fd_wfD(1)[OF wf, of d] desc[of d] by auto
    show "map_of (capio_files_descriptors T') d = Some p \<longleftrightarrow>
        d \<in> (if p = newpath then set ds else if p = oldpath then {} else fds_of T p)"
      using T'(6) fd_wfD(2)[OF wf, of d p] desc[of d] assms(3) set_ds \<open>fds_of T newpath = {}\<close> by auto
  next
    fix d i
    show "map_of (files T') d = Some i \<longrightarrow> fi_offset i < next_offset T'"
      using T'(2,5) fd_wfD(3)[OF wf, of d i] by simp
  qed
  moreover have "get_capio_fd_offset d T' = get_capio_fd_offset d T" for d
    using T'(2,4) by (simp add: get_capio_fd_offset_def)
  moreover have "get_capio_fd_path d T' =
      (if get_capio_fd_path d T = Inr oldpath then Inr newpath else get_capio_fd_path d T)" for d
    using T'(6) desc[of d]
    by (cases "map_of (capio_files_descriptors T) d") (auto simp: get_capio_fd_path_def)
  ultimately show ?thesis using ren by blast
qed

text \<open>
  Renaming onto a path that still has an entry loses the descriptors of the old one: a later close
  of one of them looks its path up in vain and throws.
\<close>

lemma rename_over_known:
  assumes wf: "fd_wf T" and "map_of (capio_files_paths T) newpath \<noteq> None" and "oldpath \<noteq> newpath"
    and "map_of (capio_files_descriptors T) d = Some oldpath"
  shows "\<exists>T'. rename_capio_path oldpath newpath T = Inr T' \<and> delete_capio_fd d T' = Inl OutOfRange"
proof -
  have "d \<in> fds_of T oldpath" using assms(4) fd_wfD(2)[OF wf] by simp
  then obtain ds where old: "map_of (capio_files_paths T) oldpath = Some ds" by (rule fds_ofE)
  obtain ds' where new: "map_of (capio_files_paths T) newpath = Some ds'" using assms(2) by auto
  define T1 where "T1 = T\<lparr>capio_files_paths := AList.delete oldpath (capio_files_paths T)\<rparr>"
  have T1: "capio_files_descriptors T1 = capio_files_descriptors T"
    "capio_files_paths T1 = AList.delete oldpath (capio_files_paths T)"
    by (simp_all add: T1_def)
  have keep: "emplace newpath ds (AList.delete oldpath (capio_files_paths T)) =
      AList.delete oldpath (capio_files_paths T)"
    using new assms(3) by (simp add: emplace_def umap_simps)
  have "fds_of T newpath = set ds'" using new by (simp add: fds_of_def)
  then have desc: "e \<in> set ds' \<longleftrightarrow> map_of (capio_files_descriptors T) e = Some newpath" for e
    using fd_wfD(2)[OF wf, of e newpath] by simp
  then have "\<forall>e \<in> set ds'. map_of (capio_files_descriptors T1) e \<noteq> None" by (simp add: T1)
  from assign_paths_all[OF this] obtain T' where T': "assign_paths ds' newpath T1 = Inr T'"
      "capio_files_paths T' = capio_files_paths T1"
      "\<forall>e. map_of (capio_files_descriptors T') e =
          (if e \<in> set ds' then Some newpath else map_of (capio_files_descriptors T) e)"
    unfolding T1(1) by blast
  have "rename_capio_path oldpath newpath T = Inr T'"
    using old new T'(1) assms(3) by (simp add: rename_capio_path_def keep umap_simps T1_def)
  moreover have "map_of (capio_files_descriptors T') d = Some oldpath"
    using T'(3) assms(3,4) desc[of d] by auto
  moreover have "map_of (capio_files_paths T') oldpath = None" using T'(2) by (simp add: umap_simps T1)
  ultimately show ?thesis by (simp add: delete_capio_fd_def path_erase_def)
qed

subsection \<open>Runs of table operations\<close>

text \<open>
  What the system call handlers do to the tables, under the kernel's rule that a new descriptor is
  one that is not open and the condition that a rename goes to a path without an entry.
\<close>

inductive fd_step :: "fd_tables \<Rightarrow> fd_tables \<Rightarrow> bool" where
  opened: "\<not> exists_capio_fd d T \<Longrightarrow> add_capio_fd p d off c T = Inr T' \<Longrightarrow> fd_step T T'"
| closed: "exists_capio_fd d T \<Longrightarrow> delete_capio_fd d T = Inr T' \<Longrightarrow> fd_step T T'"
| duplicated: "exists_capio_fd d T \<Longrightarrow> \<not> exists_capio_fd e T \<Longrightarrow> dup_capio_fd d e c T = Inr T' \<Longrightarrow>
    fd_step T T'"
| moved: "exists_capio_fd d T \<Longrightarrow> set_capio_fd_offset d off T = Inr T' \<Longrightarrow> fd_step T T'"
| renamed: "map_of (capio_files_paths T) q = None \<Longrightarrow> p \<noteq> q \<Longrightarrow> rename_capio_path p q T = Inr T' \<Longrightarrow>
    fd_step T T'"
| unlinked: "delete_capio_path p T = Inr T' \<Longrightarrow> fd_step T T'"

inductive fd_runs :: "string \<Rightarrow> fd_tables \<Rightarrow> bool" for cwd :: string where
  start: "fd_runs cwd (init_filesystem cwd)"
| more: "fd_runs cwd T \<Longrightarrow> fd_step T T' \<Longrightarrow> fd_runs cwd T'"

lemma distinct_entriesD: "distinct_entries P \<Longrightarrow> map_of P p = Some ds \<Longrightarrow> distinct ds"
  by (auto simp: distinct_entries_def)

lemma distinct_entries_ops:
  assumes "distinct_entries P"
  shows "distinct ds \<Longrightarrow> distinct_entries (AList.update p ds P)"
    and "distinct_entries (AList.delete p P)"
    and "distinct ds \<Longrightarrow> distinct_entries (emplace p ds P)"
  using assms by (auto simp: distinct_entries_def umap_simps split: if_splits)

lemma path_insert_distinct:
  assumes "path_insert p d T = Inr T'" and "paths_distinct T"
  shows "paths_distinct T'"
proof -
  from assms(1) obtain ds where ds: "map_of (capio_files_paths T) p = Some ds"
    and T': "T' = T\<lparr>capio_files_paths :=
      AList.update p (if d \<in> set ds then ds else ds @ [d]) (capio_files_paths T)\<rparr>"
    by (auto simp: path_insert_def res_simps)
  from assms(2) ds have "distinct ds" by (auto simp: paths_distinct_def dest: distinct_entriesD)
  with assms(2) T' show ?thesis
    by (simp add: paths_distinct_def distinct_entries_ops)
qed

lemma path_erase_distinct:
  assumes "path_erase p d T = Inr T'" and "paths_distinct T"
  shows "paths_distinct T'"
proof -
  from assms(1) obtain ds where ds: "map_of (capio_files_paths T) p = Some ds"
    and T': "T' = T\<lparr>capio_files_paths := AList.update p (removeAll d ds) (capio_files_paths T)\<rparr>"
    by (auto simp: path_erase_def res_simps)
  from assms(2) ds have "distinct ds" by (auto simp: paths_distinct_def dest: distinct_entriesD)
  with assms(2) T' show ?thesis
    by (simp add: paths_distinct_def distinct_entries_ops distinct_removeAll)
qed

lemma delete_capio_fd_distinct:
  assumes "delete_capio_fd d T = Inr T'" and "paths_distinct T"
  shows "paths_distinct T'"
proof -
  from assms(1) obtain p T1 where "path_erase p d T = Inr T1" "capio_files_paths T' = capio_files_paths T1"
    by (auto simp: delete_capio_fd_def res_simps)
  with path_erase_distinct[OF this(1) assms(2)] show ?thesis by (simp add: paths_distinct_def)
qed

lemma delete_capio_fds_distinct:
  "delete_capio_fds ds T = Inr T' \<Longrightarrow> paths_distinct T \<Longrightarrow> paths_distinct T'"
  by (induction ds arbitrary: T) (auto simp: res_simps dest: delete_capio_fd_distinct)

lemma assign_paths_paths: "assign_paths ds p T = Inr T' \<Longrightarrow> capio_files_paths T' = capio_files_paths T"
  by (induction ds arbitrary: T) (auto simp: res_simps)

lemma fd_step_distinct: "fd_step T T' \<Longrightarrow> paths_distinct T \<Longrightarrow> paths_distinct T'"
proof (induction rule: fd_step.induct)
  case (opened d T p off c T')
  then obtain T1 where "path_insert p d (add_capio_path p T) = Inr T1"
      "capio_files_paths T' = capio_files_paths T1"
    by (auto simp: add_capio_fd_def res_simps)
  moreover have "paths_distinct (add_capio_path p T)"
    using opened(3) by (simp add: paths_distinct_def add_capio_path_def distinct_entries_ops)
  ultimately show ?case using path_insert_distinct by (simp add: paths_distinct_def)
next
  case (duplicated d T e c T')
  then obtain p T1 where "path_insert p e T = Inr T1" "capio_files_paths T' = capio_files_paths T1"
    by (auto simp: dup_capio_fd_def set_capio_fd_cloexec_def res_simps)
  with path_insert_distinct[OF this(1) duplicated(4)] show ?case by (simp add: paths_distinct_def)
next
  case (moved d T off T')
  then have "capio_files_paths T' = capio_files_paths T"
    by (auto simp: set_capio_fd_offset_def res_simps)
  with moved(3) show ?case by (simp add: paths_distinct_def)
next
  case (renamed T q p T')
  show ?case
  proof (cases "map_of (capio_files_paths T) p")
    case (Some ds)
    have "capio_files_paths T' = emplace q ds (AList.delete p (capio_files_paths T))"
      using Some renamed(3) by (auto simp: rename_capio_path_def Let_def res_simps dest: assign_paths_paths)
    moreover have "distinct ds" using Some renamed(4) by (auto simp: paths_distinct_def dest: distinct_entriesD)
    ultimately show ?thesis using renamed(4) by (simp add: paths_distinct_def distinct_entries_ops)
  qed (use renamed in \<open>simp add: rename_capio_path_def\<close>)
next
  case (unlinked p T T')
  show ?case
  proof (cases "map_of (capio_files_paths T) p")
    case (Some ds)
    with unlinked(1) obtain T1 where "delete_capio_fds ds T = Inr T1"
        "capio_files_paths T' = AList.delete p (capio_files_paths T1)"
      by (auto simp: delete_capio_path_def res_simps)
    with delete_capio_fds_distinct[OF this(1) unlinked(2)] show ?thesis
      by (simp add: paths_distinct_def distinct_entries_ops)
  qed (use unlinked in \<open>simp add: delete_capio_path_def\<close>)
qed (rule delete_capio_fd_distinct)

lemma fd_step_wf:
  assumes "fd_step T T'" and "fd_wf T" and "paths_distinct T"
  shows "fd_wf T'"
  using assms
proof (induction rule: fd_step.induct)
  case (opened d T p off c T')
  from add_capio_fd_ok[OF opened(1,3), of p off c] opened(2) show ?case by auto
next
  case (closed d T T')
  from delete_capio_fd_ok[OF closed(1,3)] closed(2) show ?case by auto
next
  case (duplicated d T e c T')
  from dup_capio_fd_ok[OF duplicated(4,1,2), of c] duplicated(3) show ?case by auto
next
  case (moved d T off T')
  then show ?case by (auto simp: set_capio_fd_offset_def res_simps fd_wf_def fds_of_def)
next
  case (renamed T q p T')
  from rename_capio_path_ok[OF renamed(4,1,2)] renamed(3) show ?case by auto
next
  case (unlinked p T T')
  from delete_capio_path_ok[OF unlinked(2,3), of p] unlinked(1) show ?case by auto
qed

lemma fd_runs_wf: "fd_runs cwd T \<Longrightarrow> fd_wf T \<and> paths_distinct T"
proof (induction rule: fd_runs.induct)
  case start
  have "paths_distinct (init_filesystem cwd)" by (simp add: paths_distinct_def distinct_entries_def init_filesystem_def)
  then show ?case by (simp add: fd_wf_init)
next
  case (more T T')
  then show ?case using fd_step_wf fd_step_distinct by blast
qed

subsection \<open>Properties\<close>

definition two_fds :: fd_tables where
  "two_fds = (init_filesystem ''/d'')
     \<lparr>files := [(3, \<lparr>fi_offset = 0, fi_cloexec = False\<rparr>), (4, \<lparr>fi_offset = 1, fi_cloexec = True\<rparr>)],
      capio_files_descriptors := [(3, ''/d/a''), (4, ''/d/b'')],
      capio_files_paths := [(''/d/a'', [3]), (''/d/b'', [4])],
      offsets := (\<lambda>_. 0)(0 := 7), next_offset := 2\<rparr>"

lemma two_fds_runs: "fd_runs ''/d'' two_fds"
proof -
  let ?i = "init_filesystem ''/d''"
  have 1: "add_capio_fd ''/d/a'' 3 7 False ?i = Inr (?i
     \<lparr>files := [(3, \<lparr>fi_offset = 0, fi_cloexec = False\<rparr>)], capio_files_descriptors := [(3, ''/d/a'')],
      capio_files_paths := [(''/d/a'', [3])], offsets := (\<lambda>_. 0)(0 := 7), next_offset := 1\<rparr>)"
    (is "_ = Inr ?T")
    by (simp add: add_capio_fd_def path_insert_def add_capio_path_def init_filesystem_def emplace_def)
  have 2: "add_capio_fd ''/d/b'' 4 0 True ?T = Inr two_fds"
    by (simp add: add_capio_fd_def path_insert_def add_capio_path_def init_filesystem_def emplace_def
        two_fds_def fun_upd_def fun_eq_iff)
  have "fd_runs ''/d'' ?T"
    by (rule fd_runs.more[OF fd_runs.start fd_step.opened[OF _ 1]])
      (simp add: exists_capio_fd_def init_filesystem_def)
  then show ?thesis
    by (rule fd_runs.more[OF _ fd_step.opened[OF _ 2]])
      (simp add: exists_capio_fd_def init_filesystem_def)
qed

lemma two_fds_known: "exists_capio_fd 3 two_fds" "exists_capio_fd 4 two_fds" "\<not> exists_capio_fd 5 two_fds"
  by (simp_all add: exists_capio_fd_def two_fds_def)

text \<open>C21: As long as a new descriptor is one that no table of the library holds and a rename goes to a path
  without an entry, the three tables keep describing the same descriptors, however descriptors of CAPIO
  files are opened, closed, duplicated and moved, and paths renamed and removed: every one of them has a
  path and an offset, is listed with exactly its path, and can be closed without an exception, which
  takes it out of all tables and leaves the others as they were. The kernel gives open, creat and dup such
  numbers; a dup2 onto a descriptor that is itself open for a CAPIO file, which the library does not close
  first, is outside (it breaks the tables, \<open>dup_over_known\<close>), and so is a rename onto a path with open
  descriptors.\<close>

theorem tables_stay_consistent:
  assumes "fd_runs cwd T" and "exists_capio_fd d T"
  shows "\<exists>p off T'. get_capio_fd_path d T = Inr p \<and> get_capio_fd_offset d T = Inr off \<and>
    (\<forall>q. d \<in> fds_of T q \<longleftrightarrow> q = p) \<and> delete_capio_fd d T = Inr T' \<and> \<not> exists_capio_fd d T' \<and>
    (\<forall>q. d \<notin> fds_of T' q) \<and> (\<forall>e. e \<noteq> d \<longrightarrow> get_capio_fd_path e T' = get_capio_fd_path e T \<and>
       get_capio_fd_offset e T' = get_capio_fd_offset e T)"
proof -
  have wf: "fd_wf T" using fd_runs_wf[OF assms(1)] by simp
  obtain i where i: "map_of (files T) d = Some i" using assms(2) by (auto simp: exists_capio_fd_def)
  then obtain p where p: "map_of (capio_files_descriptors T) d = Some p"
    using fd_wfD(1)[OF wf, of d] by auto
  have "d \<in> fds_of T q \<longleftrightarrow> q = p" for q using fd_wfD(2)[OF wf, of d q] p by auto
  moreover obtain T' where "delete_capio_fd d T = Inr T'" "without_fd d T T'"
    using delete_capio_fd_ok[OF assms(2) wf] by blast
  ultimately show ?thesis using i p
    by (auto simp: get_capio_fd_path_def get_capio_fd_offset_def exists_capio_fd_def without_fd_def)
qed

lemma tables_stay_consistent_witness:
  "\<exists>T'. get_capio_fd_path 4 two_fds = Inr ''/d/b'' \<and> delete_capio_fd 4 two_fds = Inr T' \<and>
     \<not> exists_capio_fd 4 T' \<and> get_capio_fd_path 3 T' = Inr ''/d/a'' \<and> get_capio_fd_offset 3 T' = Inr 7"
proof -
  have "get_capio_fd_path 3 two_fds = Inr ''/d/a''" "get_capio_fd_offset 3 two_fds = Inr 7"
    "get_capio_fd_path 4 two_fds = Inr ''/d/b''"
    by (simp_all add: get_capio_fd_path_def get_capio_fd_offset_def two_fds_def)
  then show ?thesis using tables_stay_consistent[OF two_fds_runs two_fds_known(2)] by force
qed

text \<open>A duplicate shares its position with the original: after \<open>dup_capio_fd\<close>, an offset set through
  either is read through both, and no descriptor that did not share the position of the original
  before sees it.\<close>

theorem duplicates_share_offset:
  assumes "fd_wf T" and "exists_capio_fd oldfd T" and "\<not> exists_capio_fd newfd T"
    and "dup_capio_fd oldfd newfd c T = Inr T1" and "d = oldfd \<or> d = newfd"
    and "set_capio_fd_offset d off T1 = Inr T2"
  shows "get_capio_fd_offset oldfd T2 = Inr off \<and> get_capio_fd_offset newfd T2 = Inr off \<and>
    get_capio_fd_path newfd T2 = get_capio_fd_path oldfd T \<and>
    (\<forall>e. exists_capio_fd e T \<and> \<not> shares_offset oldfd e T \<longrightarrow>
       get_capio_fd_offset e T2 = get_capio_fd_offset e T)"
proof -
  from dup_capio_fd_ok[OF assms(1-3), of c] assms(4) have
    T1: "get_capio_fd_path newfd T1 = get_capio_fd_path oldfd T"
      "map_option fi_offset (map_of (files T1) newfd) = map_option fi_offset (map_of (files T) oldfd)"
      "\<And>e. e \<noteq> newfd \<Longrightarrow> map_of (files T1) e = map_of (files T) e" "offsets T1 = offsets T" by auto
  obtain i where i: "map_of (files T) oldfd = Some i" using assms(2) by (auto simp: exists_capio_fd_def)
  with T1(2) obtain j where j: "map_of (files T1) newfd = Some j" "fi_offset j = fi_offset i" by auto
  have on: "oldfd \<noteq> newfd" using assms(2,3) by auto
  with T1(3) i have i1: "map_of (files T1) oldfd = Some i" by simp
  from assms(5) i1 j have d: "exists_capio_fd d T1" by (auto simp: exists_capio_fd_def)
  have sh: "shares_offset d e T1 \<longleftrightarrow> e = newfd \<or> shares_offset oldfd e T" for e
    using assms(3,5) i i1 j on T1(3)[of e]
    by (cases "e = newfd") (auto simp: shares_offset_def exists_capio_fd_def)
  from set_offset_seen[OF d, of off] assms(6) have
    seen: "\<And>e. exists_capio_fd e T1 \<Longrightarrow> get_capio_fd_offset e T2 =
        (if shares_offset d e T1 then Inr off else get_capio_fd_offset e T1)"
      and desc: "capio_files_descriptors T2 = capio_files_descriptors T1" by auto
  have "get_capio_fd_offset e T2 = get_capio_fd_offset e T"
    if "exists_capio_fd e T" "\<not> shares_offset oldfd e T" for e
  proof -
    have "e \<noteq> newfd" using that(1) assms(3) by auto
    with that seen[of e] sh[of e] T1(3,4) show ?thesis
      by (simp add: exists_capio_fd_def get_capio_fd_offset_def)
  qed
  moreover have "shares_offset oldfd oldfd T" using i by (simp add: shares_offset_def)
  ultimately show ?thesis using seen[of oldfd] seen[of newfd] sh i1 j(1) T1(1) desc
    by (simp add: exists_capio_fd_def get_capio_fd_path_def)
qed

lemma duplicates_share_offset_witness:
  "\<exists>T1 T2. dup_capio_fd 3 5 False two_fds = Inr T1 \<and> set_capio_fd_offset 5 100 T1 = Inr T2 \<and>
     get_capio_fd_offset 3 T2 = Inr 100 \<and> get_capio_fd_offset 4 T2 = Inr 0"
proof -
  have wf: "fd_wf two_fds" using fd_runs_wf[OF two_fds_runs] by simp
  obtain T1 where T1: "dup_capio_fd 3 5 False two_fds = Inr T1" "get_capio_fd_cloexec 5 T1 = Inr False"
    using dup_capio_fd_ok[OF wf two_fds_known(1,3)] by blast
  then have "exists_capio_fd 5 T1"
    by (cases "map_of (files T1) 5") (simp_all add: exists_capio_fd_def get_capio_fd_cloexec_def)
  then obtain T2 where T2: "set_capio_fd_offset 5 100 T1 = Inr T2" using set_offset_seen by blast
  have "\<not> shares_offset 3 4 two_fds" "get_capio_fd_offset 4 two_fds = Inr 0"
    by (simp_all add: shares_offset_def two_fds_def get_capio_fd_offset_def)
  with duplicates_share_offset[OF wf two_fds_known(1,3) T1(1) _ T2] two_fds_known(2) T1(1) T2
  show ?thesis by metis
qed

text \<open>Renaming a path to one without an entry moves its descriptors: each of them has the new path
  and its old offset, every other descriptor keeps its path, and the tables stay consistent.\<close>

theorem rename_moves_descriptors:
  assumes "fd_wf T" and "map_of (capio_files_paths T) newpath = None" and "oldpath \<noteq> newpath"
  shows "\<exists>T'. rename_capio_path oldpath newpath T = Inr T' \<and> fd_wf T' \<and>
     (\<forall>d. get_capio_fd_path d T' =
        (if get_capio_fd_path d T = Inr oldpath then Inr newpath else get_capio_fd_path d T)) \<and>
     (\<forall>d. get_capio_fd_offset d T' = get_capio_fd_offset d T)"
  using assms by (rule rename_capio_path_ok)

lemma rename_moves_descriptors_witness:
  "\<exists>T'. rename_capio_path ''/d/a'' ''/d/c'' two_fds = Inr T' \<and> get_capio_fd_path 3 T' = Inr ''/d/c'' \<and>
     get_capio_fd_path 4 T' = Inr ''/d/b''"
proof -
  have "map_of (capio_files_paths two_fds) ''/d/c'' = None" by (simp add: two_fds_def)
  moreover have "get_capio_fd_path 3 two_fds = Inr ''/d/a''" "get_capio_fd_path 4 two_fds = Inr ''/d/b''"
    by (simp_all add: get_capio_fd_path_def two_fds_def)
  ultimately show ?thesis
    using rename_moves_descriptors[of two_fds "''/d/c''" "''/d/a''"] fd_runs_wf[OF two_fds_runs] by force
qed

text \<open>Renaming onto a path that still has an entry drops the entry of the old path: closing one of its
  descriptors then throws \<open>out_of_range\<close> inside the intercepted \<open>close\<close>.\<close>

theorem rename_onto_known_path:
  assumes "fd_wf T" and "map_of (capio_files_paths T) newpath \<noteq> None" and "oldpath \<noteq> newpath"
    and "get_capio_fd_path d T = Inr oldpath"
  shows "\<exists>T'. rename_capio_path oldpath newpath T = Inr T' \<and> delete_capio_fd d T' = Inl OutOfRange"
  using rename_over_known[OF assms(1-3)] assms(4)
  by (cases "map_of (capio_files_descriptors T) d") (auto simp: get_capio_fd_path_def)

lemma rename_onto_known_path_witness:
  "\<exists>T'. rename_capio_path ''/d/a'' ''/d/b'' two_fds = Inr T' \<and> delete_capio_fd 3 T' = Inl OutOfRange"
  by (rule rename_onto_known_path)
    (use fd_runs_wf[OF two_fds_runs] in \<open>simp_all add: two_fds_def get_capio_fd_path_def\<close>)

end
