(* ===== verification/Caches.thy ===== *)
theory Caches
  imports Requests PosixFiles
begin

text \<open>
  The client side of the protocol, in the library that is preloaded into the applications: sending
  a request and waiting for the answer (\<open>src/posix/utils/requests.hpp\<close>), and the two caches that
  save messages (\<open>src/posix/utils/cache.hpp\<close>). The requests a process has sent are a list of its
  state; the answers it will get are another. The caches are thread local: \<open>cl_wcache\<close> and \<open>cl_rcache\<close> are
  those of the thread whose call is made, and \<open>Threads\<close> puts each thread's own in their place.
\<close>

record write_cache =
  wc_fd :: int            \<comment> \<open>\<open>current_fd\<close>\<close>
  wc_size :: int          \<comment> \<open>\<open>current_size\<close>\<close>
  wc_path :: string       \<comment> \<open>\<open>current_path\<close>\<close>

record read_cache =
  rc_fd :: int
  rc_max :: u64           \<comment> \<open>\<open>max_read\<close>\<close>
  rc_available :: "(string, u64) umap"
  rc_path :: string

record client =
  cl_tables :: fd_tables
  cl_wcache :: write_cache        \<comment> \<open>of the thread whose call is made\<close>
  cl_rcache :: read_cache
  cl_listening :: "tid list"      \<comment> \<open>the keys of \<open>bufs_response\<close>\<close>
  cl_tids :: "tid list"           \<comment> \<open>\<open>tids\<close> of clone.hpp\<close>
  cl_sent :: "request list"
  cl_answers :: "u64 list"
  cl_errno :: int

text \<open>
  The constants of a process; \<open>ce_moved\<close> is what a path holds after \<open>std::move\<close> from it, which the
  standard leaves open.
\<close>

record client_env =
  ce_capio_dir :: string
  ce_cache_size :: u64            \<comment> \<open>\<open>get_capio_write_cache_size ()\<close>\<close>
  ce_app_name :: string           \<comment> \<open>\<open>get_capio_app_name ()\<close>\<close>
  ce_moved :: "string \<Rightarrow> string"

definition new_write_cache :: write_cache where
  "new_write_cache = \<lparr>wc_fd = -1, wc_size = 0, wc_path = []\<rparr>"

definition new_read_cache :: read_cache where
  "new_read_cache = \<lparr>rc_fd = -1, rc_max = 0, rc_available = [], rc_path = []\<rparr>"

subsection \<open>Sending and waiting\<close>

text \<open>\<open>sprintf\<close> into the request buffer, and \<open>buf_requests->write\<close>.\<close>

definition send :: "request \<Rightarrow> client \<Rightarrow> client res" where
  "send m c =
     (if length (request_text m) < CAPIO_REQ_MAX_SIZE
      then Inr (c\<lparr>cl_sent := cl_sent c @ [m]\<rparr>) else Inl Undefined)"

text \<open>\<open>bufs_response->at (tid)->read (&res)\<close>.\<close>

definition await :: "tid \<Rightarrow> client \<Rightarrow> (u64 \<times> client) res" where
  "await t c =
     (if t \<notin> set (cl_listening c) then Inl OutOfRange
      else case cl_answers c of [] \<Rightarrow> Inl Blocked
           | v # vs \<Rightarrow> Inr (v, c\<lparr>cl_answers := vs\<rparr>))"

definition register_listener :: "tid \<Rightarrow> client \<Rightarrow> client" where
  "register_listener t c =
     (if t \<in> set (cl_listening c) then c else c\<lparr>cl_listening := cl_listening c @ [t]\<rparr>)"

subsection \<open>The write cache\<close>

definition send_write_request :: "int \<Rightarrow> int \<Rightarrow> int \<Rightarrow> client \<Rightarrow> client res" where
  "send_write_request count t d c = send (Write t d (wc_path (cl_wcache c)) count) c"

text \<open>The arguments of the call in \<open>flush\<close>, in the order the source passes them.\<close>

definition flush :: "tid \<Rightarrow> client \<Rightarrow> client res" where
  "flush t c =
     rbind (if wc_fd (cl_wcache c) \<noteq> -1 \<and> 0 < wc_size (cl_wcache c)
            then send_write_request t (wc_fd (cl_wcache c)) (wc_size (cl_wcache c)) c else Inr c)
       (\<lambda>c1. Inr (c1\<lparr>cl_wcache := (cl_wcache c1)\<lparr>wc_fd := -1, wc_size := 0\<rparr>\<rparr>))"

definition write_request :: "client_env \<Rightarrow> string \<Rightarrow> int \<Rightarrow> int \<Rightarrow> int \<Rightarrow> client \<Rightarrow> client res" where
  "write_request ce path t d count c =
     rbind (if d \<noteq> wc_fd (cl_wcache c) \<or> \<not> path_eq path (wc_path (cl_wcache c)) then
              rbind (flush t c) (\<lambda>c1.
                Inr (c1\<lparr>cl_wcache := (cl_wcache c1)\<lparr>wc_path := path, wc_fd := d\<rparr>\<rparr>))
            else Inr c)
       (\<lambda>c1.
         let c2 = c1\<lparr>cl_wcache := (cl_wcache c1)\<lparr>wc_size := wc_size (cl_wcache c1) + count\<rparr>\<rparr>
         in if ce_cache_size ce < word_of_int (wc_size (cl_wcache c2)) then flush t c2 else Inr c2)"

subsection \<open>The requests\<close>

definition consent_to_proceed_request :: "string \<Rightarrow> tid \<Rightarrow> string \<Rightarrow> client \<Rightarrow> client res" where
  "consent_to_proceed_request path t source_func c =
     rbind (send (Consent t path source_func) c) (\<lambda>c1.
     rbind (await t c1) (\<lambda>(_, c2). Inr c2))"

definition close_request :: "string \<Rightarrow> tid \<Rightarrow> client \<Rightarrow> client res" where
  "close_request path t c = rbind (flush t c) (send (Close t path))"

definition create_request :: "fd \<Rightarrow> string \<Rightarrow> tid \<Rightarrow> client \<Rightarrow> client res" where
  "create_request d path t c = send (Create t d path) c"

definition exit_group_request :: "tid \<Rightarrow> client \<Rightarrow> client res" where
  "exit_group_request t c = rbind (flush t c) (send (ExitGroup t))"

definition handshake_anonymous_request :: "tid \<Rightarrow> int \<Rightarrow> client \<Rightarrow> client res" where
  "handshake_anonymous_request t pid c = send (HandshakeAnonymous t pid) c"

definition handshake_named_request :: "tid \<Rightarrow> int \<Rightarrow> string \<Rightarrow> client \<Rightarrow> client res" where
  "handshake_named_request t pid app_name c = send (HandshakeNamed t pid app_name) c"

definition open_request :: "fd \<Rightarrow> string \<Rightarrow> tid \<Rightarrow> client \<Rightarrow> client res" where
  "open_request d path t c =
     rbind (flush t c) (\<lambda>c0.
     rbind (send (Open t d path) c0) (\<lambda>c1.
     rbind (await t c1) (\<lambda>(_, c2). Inr c2)))"

definition rename_request :: "string \<Rightarrow> string \<Rightarrow> tid \<Rightarrow> client \<Rightarrow> client res" where
  "rename_request old_path new_path t c = send (Rename t old_path new_path) c"

subsection \<open>The read cache\<close>

definition send_read_request :: "string \<Rightarrow> u64 \<Rightarrow> tid \<Rightarrow> fd \<Rightarrow> client \<Rightarrow> (u64 \<times> client) res" where
  "send_read_request path end_of_Read t d c =
     rbind (send (Read path t d end_of_Read) c) (await t)"

text \<open>
  In the branch that switches files the argument is moved from, and the update of the table at the
  end uses it again: its key is then \<open>ce_moved\<close> of the path.
\<close>

definition read_request :: "client_env \<Rightarrow> string \<Rightarrow> u64 \<Rightarrow> tid \<Rightarrow> fd \<Rightarrow> client \<Rightarrow> client res" where
  "read_request ce path end_of_read t d c =
     (let rc = cl_rcache c;
          switch = (d \<noteq> rc_fd rc \<or> \<not> path_eq path (rc_path rc));
          key = (if switch then ce_moved ce path else path);
          rc1 = (if switch then
                   (case map_of (rc_available rc) path of
                      Some m \<Rightarrow> rc\<lparr>rc_path := path, rc_fd := d, rc_max := m\<rparr>
                    | None \<Rightarrow> rc\<lparr>rc_path := path, rc_fd := d, rc_max := 0,
                                 rc_available := emplace path 0 (rc_available rc)\<rparr>)
                 else rc)
      in if rc_max rc1 = ULLONG_MAX then Inr (c\<lparr>cl_rcache := rc1\<rparr>)
         else if rc_max rc1 < end_of_read then
           rbind (send_read_request (rc_path rc1) end_of_read t d (c\<lparr>cl_rcache := rc1\<rparr>)) (\<lambda>(v, c1).
             Inr (c1\<lparr>cl_rcache := rc1\<lparr>rc_max := v,
                        rc_available := AList.update key v (rc_available rc1)\<rparr>\<rparr>))
         else Inr (c\<lparr>cl_rcache := rc1\<rparr>))"

subsection \<open>What the caches guarantee\<close>

lemma send_Inr: "send m c = Inr c' \<longleftrightarrow>
    length (request_text m) < CAPIO_REQ_MAX_SIZE \<and> c' = c\<lparr>cl_sent := cl_sent c @ [m]\<rparr>"
  by (auto simp: send_def)

lemma await_Inr: "await t c = Inr (v, c') \<longleftrightarrow>
    t \<in> set (cl_listening c) \<and> (\<exists>vs. cl_answers c = v # vs \<and> c' = c\<lparr>cl_answers := vs\<rparr>)"
  by (auto simp: await_def split: list.splits)

text \<open>The bound up to which a file is known to be readable.\<close>

definition known_bound :: "string \<Rightarrow> fd \<Rightarrow> client \<Rightarrow> u64" where
  "known_bound path d c =
     (if d \<noteq> rc_fd (cl_rcache c) \<or> \<not> path_eq path (rc_path (cl_rcache c))
      then (case map_of (rc_available (cl_rcache c)) path of None \<Rightarrow> 0 | Some m \<Rightarrow> m)
      else rc_max (cl_rcache c))"

text \<open>
  A read goes on without asking exactly when the known bound covers it (all ones is: committed);
  otherwise one request is sent and the answer becomes the bound.
\<close>

lemma read_request_hit:
  assumes "end_of_read \<le> known_bound path d c"
  shows "\<exists>c'. read_request ce path end_of_read t d c = Inr c' \<and> cl_sent c' = cl_sent c \<and>
     cl_answers c' = cl_answers c \<and> rc_max (cl_rcache c') = known_bound path d c \<and>
     rc_fd (cl_rcache c') = d \<and> path_eq path (rc_path (cl_rcache c'))"
proof -
  have "\<not> known_bound path d c < end_of_read" using assms by (simp add: not_less)
  then show ?thesis
    by (auto simp: read_request_def Let_def known_bound_def path_eq_def split: option.splits)
qed

lemma read_request_miss:
  assumes "known_bound path d c < end_of_read" and "known_bound path d c \<noteq> ULLONG_MAX"
    and "read_request ce path end_of_read t d c = Inr c'"
    and "path_eq path (rc_path (cl_rcache c)) \<Longrightarrow> rc_path (cl_rcache c) = path"
  shows "\<exists>v. cl_answers c = v # cl_answers c' \<and> cl_sent c' = cl_sent c @ [Read path t d end_of_read] \<and>
     rc_max (cl_rcache c') = v \<and> rc_fd (cl_rcache c') = d \<and> rc_path (cl_rcache c') = path"
proof (cases "d \<noteq> rc_fd (cl_rcache c) \<or> \<not> path_eq path (rc_path (cl_rcache c))")
  case True
  with assms(1-3) show ?thesis
    by (auto simp: read_request_def Let_def known_bound_def send_read_request_def send_Inr await_Inr
        res_simps split: option.splits)
next
  case False
  with assms show ?thesis
    by (auto simp: read_request_def Let_def known_bound_def send_read_request_def send_Inr await_Inr
        res_simps)
qed

text \<open>
  The table keeps the answer under the key of the moved-from path: coming back to a file, its bound
  is what was stored first.
\<close>

lemma read_request_forgets:
  assumes "d \<noteq> rc_fd (cl_rcache c)" and "map_of (rc_available (cl_rcache c)) path = None"
    and "ce_moved ce path \<noteq> path" and "read_request ce path end_of_read t d c = Inr c'"
  shows "map_of (rc_available (cl_rcache c')) path = Some 0"
  using assms
  by (auto simp: read_request_def Let_def send_read_request_def send_Inr await_Inr res_simps
      umap_simps split: if_splits)

text \<open>What \<open>flush\<close> sends: the number of the file where the thread belongs, and the thread as the count.\<close>

lemma flush_sends:
  assumes "flush t c = Inr c'"
  shows "cl_sent c' = cl_sent c @
     (if wc_fd (cl_wcache c) \<noteq> -1 \<and> 0 < wc_size (cl_wcache c)
      then [Write (wc_fd (cl_wcache c)) (wc_size (cl_wcache c)) (wc_path (cl_wcache c)) t] else []) \<and>
     wc_fd (cl_wcache c') = -1 \<and> wc_size (cl_wcache c') = 0"
  using assms by (auto simp: flush_def send_write_request_def send_Inr res_simps split: if_splits)

lemma flush_keeps:
  "flush t c = Inr c' \<Longrightarrow> cl_tables c' = cl_tables c \<and> cl_rcache c' = cl_rcache c \<and>
     cl_listening c' = cl_listening c \<and> cl_answers c' = cl_answers c \<and> cl_tids c' = cl_tids c"
  by (auto simp: flush_def send_write_request_def send_Inr res_simps split: if_splits)

subsection \<open>Properties\<close>

lemma path_eq_refl [simp]: "path_eq p p"
  by (simp add: path_eq_def)

lemma above_max: "\<not> ULLONG_MAX < x"
  using unsigned_less[of x, where 'a = nat] by (simp add: word_less_nat_alt)

lemma read_request_asks:
  assumes "known_bound path d c < end_of_read" and "read_request ce path end_of_read t d c = Inr c'"
  shows "\<exists>p. path_eq path p \<and> cl_answers c = rc_max (cl_rcache c') # cl_answers c' \<and>
    cl_sent c' = cl_sent c @ [Read p t d end_of_read] \<and> rc_fd (cl_rcache c') = d \<and>
    rc_path (cl_rcache c') = p"
proof -
  have "known_bound path d c \<noteq> ULLONG_MAX"
    using assms(1) above_max by auto
  with assms show ?thesis
    by (cases "d \<noteq> rc_fd (cl_rcache c) \<or> \<not> path_eq path (rc_path (cl_rcache c))")
      (auto simp: read_request_def Let_def known_bound_def send_read_request_def send_Inr await_Inr
        res_simps split: option.splits)
qed

definition fresh_client :: client where
  "fresh_client = \<lparr>cl_tables = init_filesystem ''/d'', cl_wcache = new_write_cache,
     cl_rcache = new_read_cache, cl_listening = [1], cl_tids = [1], cl_sent = [],
     cl_answers = [8, ULLONG_MAX, 9], cl_errno = 0\<rparr>"

definition sample_client_env :: client_env where
  "sample_client_env = \<lparr>ce_capio_dir = ''/d'', ce_cache_size = 4096, ce_app_name = ''app'',
     ce_moved = (\<lambda>_. [])\<rparr>"

lemma fresh_read: "\<exists>c'. read_request sample_client_env ''/d/f'' 5 1 3 fresh_client = Inr c' \<and>
    rc_fd (cl_rcache c') = 3 \<and> rc_path (cl_rcache c') = ''/d/f'' \<and> rc_max (cl_rcache c') = 8 \<and>
    cl_answers c' = [ULLONG_MAX, 9] \<and> cl_listening c' = [1] \<and>
    rc_available (cl_rcache c') = [(''/d/f'', 0), ([], 8)]"
proof -
  have "length (request_text (Read ''/d/f'' 1 3 5)) < CAPIO_REQ_MAX_SIZE" by code_simp
  then show ?thesis
    by (simp add: read_request_def fresh_client_def new_read_cache_def Let_def emplace_def
        send_read_request_def send_def await_def sample_client_env_def)
qed

text \<open>C30: The read cache asks the server exactly for the reads that end beyond the bound known for the
  file: others send nothing and take no answer, and those send one request and take the answer as
  the new bound. A bound of all ones, the answer for a committed file, covers every read.\<close>

theorem reads_ask_beyond_bound:
  assumes "read_request ce path end_of_read t d c = Inr c'"
  shows "if end_of_read \<le> known_bound path d c
    then cl_sent c' = cl_sent c \<and> cl_answers c' = cl_answers c \<and>
      known_bound path d c' = known_bound path d c
    else (\<exists>p. path_eq path p \<and> cl_sent c' = cl_sent c @ [Read p t d end_of_read]) \<and>
      cl_answers c = known_bound path d c' # cl_answers c'"
proof (cases "end_of_read \<le> known_bound path d c")
  case True
  from read_request_hit[OF True, of ce t] assms True show ?thesis by (auto simp: known_bound_def)
next
  case False
  then have "known_bound path d c < end_of_read" by (simp add: not_le)
  from read_request_asks[OF this assms] False show ?thesis by (auto simp: known_bound_def)
qed

lemma reads_ask_beyond_bound_witness:
  "\<exists>c1 c2. read_request sample_client_env ''/d/f'' 5 1 3 fresh_client = Inr c1 \<and>
     cl_answers c1 = [ULLONG_MAX, 9] \<and>
     read_request sample_client_env ''/d/f'' 8 1 3 c1 = Inr c2 \<and> cl_sent c2 = cl_sent c1 \<and>
     cl_answers c2 = [ULLONG_MAX, 9]"
proof -
  obtain c1 where c1: "read_request sample_client_env ''/d/f'' 5 1 3 fresh_client = Inr c1"
      "rc_fd (cl_rcache c1) = 3" "rc_path (cl_rcache c1) = ''/d/f''" "rc_max (cl_rcache c1) = 8"
      "cl_answers c1 = [ULLONG_MAX, 9]"
    using fresh_read by blast
  then have b: "known_bound ''/d/f'' 3 c1 = 8" by (simp add: known_bound_def)
  then obtain c2 where c2: "read_request sample_client_env ''/d/f'' 8 1 3 c1 = Inr c2"
    using read_request_hit[of 8 "''/d/f''" 3 c1] by auto
  from reads_ask_beyond_bound[OF c2] b c1 c2 show ?thesis by auto
qed

text \<open>The answer for a file that was new to the cache is stored under the path object that has just
  been moved from: after a read of another file, nothing is known of the first one again, even if the
  server had answered that it is committed, and the next read of it asks once more.\<close>

theorem answer_lost_on_switch:
  assumes "d \<noteq> rc_fd (cl_rcache c)" and "map_of (rc_available (cl_rcache c)) path = None"
    and "ce_moved ce path \<noteq> path" and "read_request ce path end1 t d c = Inr c1"
    and "d2 \<noteq> d" and "path2 \<noteq> path" and "ce_moved ce path2 \<noteq> path"
    and "read_request ce path2 end2 t d2 c1 = Inr c2"
  shows "known_bound path d c2 = 0 \<and> (\<forall>end3 c3. 0 < end3 \<longrightarrow>
    read_request ce path end3 t d c2 = Inr c3 \<longrightarrow> length (cl_sent c3) = Suc (length (cl_sent c2)))"
proof -
  have c1: "map_of (rc_available (cl_rcache c1)) path = Some 0"
    using assms(1-4) by (rule read_request_forgets)
  have rc: "rc_fd (cl_rcache c1) = d"
    using assms(1,4) by (auto simp: read_request_def Let_def send_read_request_def send_Inr await_Inr
        res_simps split: if_splits option.splits)
  have "map_of (rc_available (cl_rcache c2)) path = Some 0" "rc_fd (cl_rcache c2) = d2"
    using assms(5-8) c1 rc by (auto simp: read_request_def Let_def send_read_request_def send_Inr
        await_Inr res_simps umap_simps split: if_splits option.splits)
  then have b: "known_bound path d c2 = 0" using assms(5) by (simp add: known_bound_def)
  then show ?thesis using read_request_asks[of path d c2] by auto
qed

lemma answer_lost_on_switch_witness:
  "\<exists>c1 c2. read_request sample_client_env ''/d/f'' 5 1 3 fresh_client = Inr c1 \<and>
     known_bound ''/d/f'' 3 c1 = 8 \<and>
     read_request sample_client_env ''/d/g'' 6 1 4 c1 = Inr c2 \<and> known_bound ''/d/f'' 3 c2 = 0"
proof -
  obtain c1 where c1: "read_request sample_client_env ''/d/f'' 5 1 3 fresh_client = Inr c1"
      "rc_fd (cl_rcache c1) = 3" "rc_path (cl_rcache c1) = ''/d/f''" "rc_max (cl_rcache c1) = 8"
      "cl_answers c1 = [ULLONG_MAX, 9]" "cl_listening c1 = [1]"
      "rc_available (cl_rcache c1) = [(''/d/f'', 0), ([], 8)]"
    using fresh_read by blast
  have "length (request_text (Read ''/d/g'' 1 4 6)) < CAPIO_REQ_MAX_SIZE" by code_simp
  then have "\<exists>c2. read_request sample_client_env ''/d/g'' 6 1 4 c1 = Inr c2"
    using c1 by (simp add: read_request_def Let_def emplace_def send_read_request_def send_def
        await_def sample_client_env_def)
  then obtain c2 where c2: "read_request sample_client_env ''/d/g'' 6 1 4 c1 = Inr c2" by blast
  have "known_bound ''/d/f'' 3 c2 = 0"
    using answer_lost_on_switch[OF _ _ _ c1(1) _ _ _ c2]
    by (simp add: fresh_client_def new_read_cache_def sample_client_env_def)
  with c1 c2 show ?thesis by (auto simp: known_bound_def)
qed

text \<open>The cached writes are sent with their numbers in the wrong places: the request names the number
  of the file as the thread, the bytes collected as the number of the file, and the thread that
  flushes as the count.\<close>

theorem flush_permutes_fields:
  assumes "flush t c = Inr c'" and "wc_fd (cl_wcache c) \<noteq> -1" and "0 < wc_size (cl_wcache c)"
  shows "cl_sent c' = cl_sent c @ [Write (wc_fd (cl_wcache c)) (wc_size (cl_wcache c)) (wc_path (cl_wcache c)) t] \<and>
    wc_fd (cl_wcache c') = -1 \<and> wc_size (cl_wcache c') = 0"
  using flush_sends[OF assms(1)] assms(2,3) by simp

lemma flush_permutes_fields_witness:
  "\<exists>c'. flush 7 (fresh_client\<lparr>cl_wcache := \<lparr>wc_fd = 3, wc_size = 100, wc_path = ''/d/f''\<rparr>\<rparr>) = Inr c' \<and>
     cl_sent c' = [Write 3 100 ''/d/f'' 7]"
proof -
  let ?c = "fresh_client\<lparr>cl_wcache := \<lparr>wc_fd = 3, wc_size = 100, wc_path = ''/d/f''\<rparr>\<rparr>"
  have "length (request_text (Write 3 100 ''/d/f'' 7)) < CAPIO_REQ_MAX_SIZE" by code_simp
  then obtain c' where c': "flush 7 ?c = Inr c'"
    by (simp add: flush_def send_write_request_def send_def)
  from flush_permutes_fields[OF c'] c' show ?thesis by (simp add: fresh_client_def)
qed

end
