(* ===== verification/Environment.thy ===== *)
theory Environment
  imports Handlers Caches
begin

text \<open>
  How a process learns its constants from the environment variables
  (\<open>src/common/capio/env.hpp\<close>, \<open>src/posix/utils/env.hpp\<close>). Every function keeps its result in a
  static variable: the value the variable has before the call is an argument, the result is the
  value it has afterwards. \<open>getenv\<close> and \<open>realpath\<close> are what the C library answers.
\<close>

type_synonym variables = "string \<Rightarrow> string option"

definition CAPIO_DEFAULT_WORKFLOW_NAME :: string where
  "CAPIO_DEFAULT_WORKFLOW_NAME = ''CAPIO''"

definition CAPIO_CACHE_LINE_SIZE_DEFAULT :: u64 where
  "CAPIO_CACHE_LINE_SIZE_DEFAULT = 4096"

subsection \<open>Both sides\<close>

definition get_capio_dir :: "variables \<Rightarrow> (string \<Rightarrow> string option) \<Rightarrow> string \<Rightarrow> string res" where
  "get_capio_dir getenv realpath dir =
     (if dir \<noteq> [] then Inr dir
      else case getenv ''CAPIO_DIR'' of
             None \<Rightarrow> Inl ErrExit
           | Some val \<Rightarrow>
               (case realpath val of
                  None \<Rightarrow> Inl ErrExit
                | Some buf \<Rightarrow>
                    if list_ex (\<lambda>forbidden_path. starts_with buf forbidden_path) CAPIO_DIR_FORBIDDEN_PATHS
                    then Inl ErrExit else Inr buf))"

text \<open>The value of \<open>CAPIO_METADATA_DIR\<close> is only compared with null. The result has both statics.\<close>

definition get_capio_metadata_path ::
    "variables \<Rightarrow> (string \<Rightarrow> string option) \<Rightarrow> string \<times> string \<Rightarrow> fs \<Rightarrow> ((string \<times> string) \<times> fs) res" where
  "get_capio_metadata_path getenv realpath = (\<lambda>(dir, metadata) f.
     if metadata \<noteq> [] then Inr ((dir, metadata), f)
     else
       rbind (case getenv ''CAPIO_METADATA_DIR'' of
                None \<Rightarrow> rbind (get_capio_dir getenv realpath dir) (\<lambda>d.
                  Inr (d, path_append d ''.capio_metadata''))
              | Some val \<Rightarrow> Inr (dir, metadata)) (\<lambda>(d, m).
         if fs_exists f m then Inr ((d, m), f)
         else rbind (create_directories m f) (\<lambda>f'. Inr ((d, m), f'))))"

text \<open>\<open>std::from_chars\<close> into an \<open>int\<close>: no number, or one that does not fit, leaves the level at zero.\<close>

definition get_capio_log_level :: "variables \<Rightarrow> int \<Rightarrow> int" where
  "get_capio_log_level getenv level =
     (if level \<noteq> -2 then level
      else case getenv ''CAPIO_LOG_LEVEL'' of
             None \<Rightarrow> 0
           | Some log_level \<Rightarrow>
               (case from_chars log_level of
                  None \<Rightarrow> 0
                | Some (n, _) \<Rightarrow> if - (2 ^ 31) \<le> n \<and> n < 2 ^ 31 then n else 0))"

definition get_capio_workflow_name :: "variables \<Rightarrow> string \<Rightarrow> string" where
  "get_capio_workflow_name getenv name =
     (if name \<noteq> [] then name
      else case getenv ''CAPIO_WORKFLOW_NAME'' of
             None \<Rightarrow> CAPIO_DEFAULT_WORKFLOW_NAME | Some tmp \<Rightarrow> tmp)"

subsection \<open>The client side\<close>

text \<open>These statics are initialised when the function is entered first.\<close>

definition get_capio_app_name :: "variables \<Rightarrow> string" where
  "get_capio_app_name getenv =
     (case getenv ''CAPIO_APP_NAME'' of None \<Rightarrow> CAPIO_DEFAULT_APP_NAME | Some v \<Rightarrow> v)"

text \<open>\<open>strtoull\<close> without digits is zero.\<close>

definition get_capio_write_cache_size :: "variables \<Rightarrow> u64" where
  "get_capio_write_cache_size getenv =
     (case getenv ''CAPIO_WRITER_CACHE_SIZE'' of
        None \<Rightarrow> CAPIO_CACHE_LINE_SIZE_DEFAULT
      | Some s \<Rightarrow> (case scan_u64 s of None \<Rightarrow> 0 | Some (n, _) \<Rightarrow> n))"

text \<open>The constants of a server and of a process as the other theories have them.\<close>

definition server_env ::
    "variables \<Rightarrow> (string \<Rightarrow> string option) \<Rightarrow> nat \<Rightarrow> fs \<Rightarrow> (env \<times> fs) res" where
  "server_env getenv realpath depth f =
     rbind (get_capio_dir getenv realpath []) (\<lambda>d.
     rbind (get_capio_metadata_path getenv realpath (d, []) f) (\<lambda>((d', m), f').
       Inr (\<lparr>capio_dir = d', capio_metadata_path = m, stack_depth = depth\<rparr>, f')))"

definition client_env_of ::
    "variables \<Rightarrow> (string \<Rightarrow> string option) \<Rightarrow> (string \<Rightarrow> string) \<Rightarrow> client_env res" where
  "client_env_of getenv realpath moved =
     rbind (get_capio_dir getenv realpath []) (\<lambda>d.
       Inr \<lparr>ce_capio_dir = d, ce_cache_size = get_capio_write_cache_size getenv,
            ce_app_name = get_capio_app_name getenv, ce_moved = moved\<rparr>)"

subsection \<open>What the variables determine\<close>

lemma get_capio_dir_Inr:
  "get_capio_dir getenv realpath [] = Inr d \<longleftrightarrow>
     (\<exists>v. getenv ''CAPIO_DIR'' = Some v \<and> realpath v = Some d \<and> \<not> is_forbidden_path d)"
  by (auto simp: get_capio_dir_def is_forbidden_path_def split: option.splits)

lemma get_capio_dir_cached: "d \<noteq> [] \<Longrightarrow> get_capio_dir getenv realpath d = Inr d"
  by (simp add: get_capio_dir_def)

text \<open>The test of the forbidden directories does not exclude \<open>/proc\<close> and \<open>/sys\<close> themselves.\<close>

lemma proc_itself_accepted:
  "get_capio_dir (\<lambda>_. Some ''/proc'') Some [] = Inr ''/proc''"
  "get_capio_dir (\<lambda>_. Some ''/proc/x'') Some [] = Inl ErrExit"
  by code_simp+

lemma metadata_cached: "m \<noteq> [] \<Longrightarrow> get_capio_metadata_path getenv realpath (d, m) f = Inr ((d, m), f)"
  by (simp add: get_capio_metadata_path_def)

lemma metadata_unset:
  assumes "d \<noteq> []" and "getenv ''CAPIO_METADATA_DIR'' = None"
  shows "get_capio_metadata_path getenv realpath (d, []) f =
    (let m = path_append d ''.capio_metadata''
     in if fs_exists f m then Inr ((d, m), f) else rbind (create_directories m f) (\<lambda>f'. Inr ((d, m), f')))"
  using assms by (simp add: get_capio_metadata_path_def get_capio_dir_cached Let_def)

lemma path_append_nonempty: "p \<noteq> [] \<Longrightarrow> path_append p q \<noteq> []"
  by (cases q) (auto simp: path_append_def is_absolute_def)

text \<open>With \<open>CAPIO_DIR\<close> set to a directory that exists and \<open>CAPIO_METADATA_DIR\<close> not set, the constants
  of the server are that directory and its \<open>.capio_metadata\<close>, which is created where there was
  nothing and no other file is touched; afterwards they do not depend on the environment any more.\<close>

theorem environment_read_once:
  assumes "getenv ''CAPIO_DIR'' = Some v" and "realpath v = Some d" and "\<not> is_forbidden_path d"
    and "d \<noteq> []" and "getenv ''CAPIO_METADATA_DIR'' = None"
    and "server_env getenv realpath depth f = Inr (env, f')"
  shows "capio_dir env = d \<and> capio_metadata_path env = path_append d ''.capio_metadata'' \<and>
    only_adds_dirs f f' \<and> (\<not> fs_exists f (capio_metadata_path env) \<longrightarrow>
      create_directories (capio_metadata_path env) f = Inr f') \<and>
    (\<forall>getenv' realpath' g. get_capio_metadata_path getenv' realpath' (capio_dir env, capio_metadata_path env) g =
      Inr ((capio_dir env, capio_metadata_path env), g))"
proof -
  have "get_capio_dir getenv realpath [] = Inr d" using assms(1-3) by (auto simp: get_capio_dir_Inr)
  with assms(6) metadata_unset[of d getenv realpath f, OF assms(4,5)]
  have "capio_dir env = d \<and> capio_metadata_path env = path_append d ''.capio_metadata'' \<and>
      (if fs_exists f (capio_metadata_path env) then f' = f
       else create_directories (capio_metadata_path env) f = Inr f')"
    by (auto simp: server_env_def Let_def res_simps split: if_splits)
  with path_append_nonempty[OF assms(4)] show ?thesis
    by (auto simp: metadata_cached create_directories_only_adds split: if_splits)
qed

definition sample_variables :: variables where
  "sample_variables = [''CAPIO_DIR'' \<mapsto> ''/d'', ''CAPIO_WORKFLOW_NAME'' \<mapsto> ''wf'']"

lemma sample_variables_simps:
  "sample_variables ''CAPIO_DIR'' = Some ''/d''" "sample_variables ''CAPIO_METADATA_DIR'' = None"
  "sample_variables ''CAPIO_WORKFLOW_NAME'' = Some ''wf''" "\<not> is_forbidden_path ''/d''"
  by code_simp+

lemma environment_read_once_witness:
  "\<exists>env f'. server_env sample_variables Some 9 [(''/d'', Dir)] = Inr (env, f') \<and>
     capio_metadata_path env = ''/d/.capio_metadata'' \<and> only_adds_dirs [(''/d'', Dir)] f' \<and>
     get_capio_metadata_path (\<lambda>_. Some ''/x'') Some (capio_dir env, capio_metadata_path env) [] =
       Inr ((''/d'', ''/d/.capio_metadata''), [])"
proof -
  have "case server_env sample_variables Some 9 [(''/d'', Dir)] of Inl _ \<Rightarrow> False | Inr _ \<Rightarrow> True" by code_simp
  then obtain env f' where e: "server_env sample_variables Some 9 [(''/d'', Dir)] = Inr (env, f')"
    by (auto split: sum.splits)
  have p: "path_append ''/d'' ''.capio_metadata'' = ''/d/.capio_metadata''" and ne: "''/d'' \<noteq> []"
    by code_simp+
  note r = environment_read_once[OF sample_variables_simps(1) refl sample_variables_simps(4) ne
      sample_variables_simps(2) e]
  from r p have c: "capio_dir env = ''/d''" "capio_metadata_path env = ''/d/.capio_metadata''"
      "only_adds_dirs [(''/d'', Dir)] f'" by (blast, simp, blast)
  have "get_capio_metadata_path (\<lambda>_. Some ''/x'') Some (capio_dir env, capio_metadata_path env) [] =
      Inr ((capio_dir env, capio_metadata_path env), [])" using r by blast
  with e c show ?thesis by simp
qed

text \<open>Where \<open>CAPIO_METADATA_DIR\<close> is set, whatever its value, the path stays empty, no directory can be
  created for it, and the first use of a token file throws.\<close>

theorem metadata_variable_fatal:
  assumes "getenv ''CAPIO_METADATA_DIR'' = Some w" and "\<not> fs_exists f []"
  shows "get_capio_metadata_path getenv realpath (d, []) f = Inl FilesystemError"
  using assms by (simp add: get_capio_metadata_path_def create_directories_def)

lemma metadata_variable_fatal_witness:
  "get_capio_metadata_path (sample_variables(''CAPIO_METADATA_DIR'' \<mapsto> ''/meta'')) Some (''/d'', [])
     [(''/meta'', Dir)] = Inl FilesystemError"
  by (rule metadata_variable_fatal[where w = "''/meta''"]) (simp_all add: fs_exists_def)

text \<open>The size of the write cache as it is written in the variable.\<close>

lemma cache_size_printed:
  "getenv ''CAPIO_WRITER_CACHE_SIZE'' = Some (show_u64 n) \<Longrightarrow> get_capio_write_cache_size getenv = n"
  using scan_u64_show_u64[of "[]" n] by (simp add: get_capio_write_cache_size_def no_digit_next_def)

end
