(* ===== verification/PosixHandlers.thy ===== *)
theory PosixHandlers
  imports Caches
begin

text \<open>
  The system call handlers of \<open>src/posix/handlers\<close>. A handler gets the decoded arguments and what
  the kernel would say (\<open>kernel\<close>), and returns the code for the interception library, what it
  wrote to \<open>*result\<close> (\<open>None\<close>: nothing), and the new state of the process. Code zero means the call
  has been done; any other value lets it go to the kernel. Names that the server side has as well
  carry a \<open>posix_\<close> prefix.
\<close>

record kernel =
  k_realpath :: "string \<Rightarrow> string option"
  k_readlink_fd :: "fd \<Rightarrow> string option"    \<comment> \<open>of \<open>/proc/self/fd/<fd>\<close>\<close>
  k_fstat_dir :: "fd \<Rightarrow> bool option"         \<comment> \<open>\<open>None\<close>: \<open>fstat\<close> failed\<close>
  k_result :: int                            \<comment> \<open>of the call the handler makes itself\<close>

definition CAPIO_POSIX_SYSCALL_ERRNO :: int where "CAPIO_POSIX_SYSCALL_ERRNO = -1"
definition CAPIO_POSIX_SYSCALL_REQUEST_SKIP :: int where "CAPIO_POSIX_SYSCALL_REQUEST_SKIP = -2"
definition CAPIO_POSIX_SYSCALL_SKIP :: int where "CAPIO_POSIX_SYSCALL_SKIP = 1"
definition CAPIO_POSIX_SYSCALL_SUCCESS :: int where "CAPIO_POSIX_SYSCALL_SUCCESS = 0"

definition AT_FDCWD :: int where "AT_FDCWD = -100"
definition ENOTDIR :: int where "ENOTDIR = 20"
definition EINVAL :: int where "EINVAL = 22"
definition ENONET :: int where "ENONET = 64"

text \<open>Flag tests of the shape \<open>(flags & F) == F\<close> for the one-bit flags used.\<close>

definition O_CREAT_set :: "int \<Rightarrow> bool" where "O_CREAT_set flags = bit flags 6"
definition O_CLOEXEC_set :: "int \<Rightarrow> bool" where "O_CLOEXEC_set flags = bit flags 19"
definition AT_EMPTY_PATH_set :: "int \<Rightarrow> bool" where "AT_EMPTY_PATH_set flags = bit flags 12"

type_synonym outcome = "int \<times> int option \<times> client"

definition set_errno :: "int \<Rightarrow> client \<Rightarrow> client" where
  "set_errno e c = c\<lparr>cl_errno := e\<rparr>"

definition posix_return_value :: "int \<times> client \<Rightarrow> outcome" where
  "posix_return_value = (\<lambda>(res, c).
     if res \<noteq> CAPIO_POSIX_SYSCALL_REQUEST_SKIP
     then (CAPIO_POSIX_SYSCALL_SUCCESS, Some (if res < 0 then - cl_errno c else res), c)
     else (CAPIO_POSIX_SYSCALL_SKIP, None, c))"

definition on_tables :: "(fd_tables \<Rightarrow> fd_tables res) \<Rightarrow> client \<Rightarrow> client res" where
  "on_tables f c = rbind (f (cl_tables c)) (\<lambda>T. Inr (c\<lparr>cl_tables := T\<rparr>))"

subsection \<open>Paths\<close>

definition capio_posix_realpath :: "client_env \<Rightarrow> kernel \<Rightarrow> string \<Rightarrow> client \<Rightarrow> string" where
  "capio_posix_realpath ce k pathname c =
     (case k_realpath k pathname of
        Some p \<Rightarrow> p
      | None \<Rightarrow>
          if is_absolute pathname then pathname
          else
            let new_path = lexically_normal (path_append (current_dir (cl_tables c)) pathname)
            in if is_capio_path (ce_capio_dir ce) new_path then new_path else [])"

definition capio_absolute :: "client_env \<Rightarrow> kernel \<Rightarrow> string \<Rightarrow> client \<Rightarrow> string" where
  "capio_absolute ce k path c = (if is_absolute path then path else capio_posix_realpath ce k path c)"

definition get_dir_path :: "kernel \<Rightarrow> fd \<Rightarrow> client \<Rightarrow> string" where
  "get_dir_path k dirfd c =
     (case map_of (capio_files_descriptors (cl_tables c)) dirfd of
        Some p \<Rightarrow> p | None \<Rightarrow> (case k_readlink_fd k dirfd of Some p \<Rightarrow> p | None \<Rightarrow> []))"

text \<open>A failing \<open>fstat\<close> returns \<open>-1\<close>, which is true.\<close>

definition is_directory :: "kernel \<Rightarrow> fd \<Rightarrow> bool" where
  "is_directory k dirfd = (case k_fstat_dir k dirfd of None \<Rightarrow> True | Some b \<Rightarrow> b)"

definition compute_abs_path :: "client_env \<Rightarrow> kernel \<Rightarrow> string \<Rightarrow> fd \<Rightarrow> client \<Rightarrow> string" where
  "compute_abs_path ce k pathname dirfd c =
     (if is_absolute pathname then pathname
      else if dirfd = AT_FDCWD then capio_posix_realpath ce k pathname c
      else if \<not> is_directory k dirfd then []
      else if get_dir_path k dirfd c = [] then []
      else lexically_normal (path_append (get_dir_path k dirfd c) pathname))"

subsection \<open>Opening\<close>

definition creat_handler :: "client_env \<Rightarrow> kernel \<Rightarrow> string \<Rightarrow> tid \<Rightarrow> client \<Rightarrow> outcome res" where
  "creat_handler ce k pathname t c =
     (let path = compute_abs_path ce k pathname (-1) c
      in rbind (if is_capio_path (ce_capio_dir ce) path then create_request (-1) path t c else Inr c)
           (\<lambda>c1.
         let d = k_result k
         in rbind (if is_capio_path (ce_capio_dir ce) path \<and> 0 \<le> d
                   then on_tables (add_capio_fd path d 0 False) c1 else Inr c1)
              (\<lambda>c2. Inr (CAPIO_POSIX_SYSCALL_SUCCESS, Some d, c2))))"

definition openat_handler ::
    "client_env \<Rightarrow> kernel \<Rightarrow> fd \<Rightarrow> string \<Rightarrow> int \<Rightarrow> tid \<Rightarrow> client \<Rightarrow> outcome res" where
  "openat_handler ce k dirfd pathname flags t c =
     (let path = compute_abs_path ce k pathname dirfd c
      in rbind (if is_capio_path (ce_capio_dir ce) path
                then if O_CREAT_set flags then create_request (-1) path t c
                     else open_request (-1) path t c
                else Inr c)
           (\<lambda>c1.
         let d = k_result k
         in rbind (if is_capio_path (ce_capio_dir ce) path \<and> 0 \<le> d
                   then on_tables (add_capio_fd path d 0 (O_CLOEXEC_set flags)) c1 else Inr c1)
              (\<lambda>c2. Inr (CAPIO_POSIX_SYSCALL_SUCCESS, Some d, c2))))"

text \<open>The same text, with \<open>-1\<close> for the directory.\<close>

definition posix_open_handler ::
    "client_env \<Rightarrow> kernel \<Rightarrow> string \<Rightarrow> int \<Rightarrow> tid \<Rightarrow> client \<Rightarrow> outcome res" where
  "posix_open_handler ce k pathname flags t c = openat_handler ce k (-1) pathname flags t c"

subsection \<open>Descriptors\<close>

definition posix_close_handler :: "fd \<Rightarrow> tid \<Rightarrow> client \<Rightarrow> outcome res" where
  "posix_close_handler d t c =
     rbind (if exists_capio_fd d (cl_tables c) then
              rbind (get_capio_fd_path d (cl_tables c)) (\<lambda>path.
              rbind (close_request path t c) (on_tables (delete_capio_fd d)))
            else Inr c)
       (\<lambda>c1. Inr (CAPIO_POSIX_SYSCALL_SKIP, None, c1))"

text \<open>The call returns a negative error number, so only the number one is taken for an error.\<close>

definition dup_handler :: "kernel \<Rightarrow> fd \<Rightarrow> client \<Rightarrow> outcome res" where
  "dup_handler k d c =
     (if exists_capio_fd d (cl_tables c) then
        let res = k_result k
        in if res = -1 then Inr (CAPIO_POSIX_SYSCALL_SUCCESS, Some (- cl_errno c), c)
           else rbind (on_tables (dup_capio_fd d res False) c) (\<lambda>c1.
             Inr (CAPIO_POSIX_SYSCALL_SUCCESS, Some res, c1))
      else Inr (CAPIO_POSIX_SYSCALL_SKIP, None, c))"

definition dup2_handler :: "kernel \<Rightarrow> fd \<Rightarrow> fd \<Rightarrow> client \<Rightarrow> outcome res" where
  "dup2_handler k d d2 c =
     (if exists_capio_fd d (cl_tables c) then
        let res = k_result k
        in if res = -1 then Inr (CAPIO_POSIX_SYSCALL_SUCCESS, Some (- cl_errno c), c)
           else rbind (if d \<noteq> res then on_tables (dup_capio_fd d res False) c else Inr c) (\<lambda>c1.
             Inr (CAPIO_POSIX_SYSCALL_SUCCESS, Some res, c1))
      else Inr (CAPIO_POSIX_SYSCALL_SKIP, None, c))"

definition dup3_handler :: "kernel \<Rightarrow> fd \<Rightarrow> fd \<Rightarrow> int \<Rightarrow> client \<Rightarrow> outcome res" where
  "dup3_handler k d d2 flags c =
     (if exists_capio_fd d (cl_tables c) then
        if d = d2 then Inr (0, Some (- EINVAL), set_errno EINVAL c)
        else
          let res = k_result k
          in if res = -1 then Inr (CAPIO_POSIX_SYSCALL_SUCCESS, Some (- cl_errno c), c)
             else rbind (on_tables (dup_capio_fd d res (O_CLOEXEC_set flags)) c) (\<lambda>c1.
               Inr (CAPIO_POSIX_SYSCALL_SUCCESS, Some res, c1))
      else Inr (CAPIO_POSIX_SYSCALL_SKIP, None, c))"

definition SEEK_CUR :: int where "SEEK_CUR = 1"

definition lseek_handler :: "fd \<Rightarrow> u64 \<Rightarrow> int \<Rightarrow> client \<Rightarrow> outcome res" where
  "lseek_handler d offset whence c =
     rbind (if exists_capio_fd d (cl_tables c) then
              rbind (if whence = SEEK_CUR then
                       rbind (get_capio_fd_offset d (cl_tables c)) (\<lambda>off. Inr (off + offset))
                     else Inr offset)
                (\<lambda>computed_offset. on_tables (set_capio_fd_offset d computed_offset) c)
            else Inr c)
       (\<lambda>c1. Inr (CAPIO_POSIX_SYSCALL_REQUEST_SKIP, None, c1))"

subsection \<open>Reading and writing\<close>

definition capio_read :: "client_env \<Rightarrow> fd \<Rightarrow> u64 \<Rightarrow> tid \<Rightarrow> client \<Rightarrow> client res" where
  \<comment> \<open>the common part of \<open>read_handler\<close> and \<open>readv_handler\<close>, for the number of bytes they compute\<close>
  "capio_read ce d count t c =
     (if exists_capio_fd d (cl_tables c) then
        rbind (get_capio_fd_offset d (cl_tables c)) (\<lambda>off.
        rbind (get_capio_fd_path d (cl_tables c)) (\<lambda>path.
        rbind (read_request ce path (off + count) t d c)
          (on_tables (set_capio_fd_offset d (off + count)))))
      else Inr c)"

definition posix_read_handler :: "client_env \<Rightarrow> fd \<Rightarrow> u64 \<Rightarrow> tid \<Rightarrow> client \<Rightarrow> outcome res" where
  "posix_read_handler ce d count t c =
     rbind (capio_read ce d count t c) (\<lambda>c1. Inr (CAPIO_POSIX_SYSCALL_REQUEST_SKIP, None, c1))"

definition sizeof_iovec :: u64 where "sizeof_iovec = 16"

definition readv_handler :: "client_env \<Rightarrow> fd \<Rightarrow> int \<Rightarrow> tid \<Rightarrow> client \<Rightarrow> outcome res" where
  "readv_handler ce d iovcnt t c =
     rbind (capio_read ce d (word_of_int iovcnt * sizeof_iovec) t c)
       (\<lambda>c1. Inr (CAPIO_POSIX_SYSCALL_REQUEST_SKIP, None, c1))"

text \<open>The arguments of \<open>write_request\<close> in the order \<open>capio_write\<close> passes them.\<close>

definition capio_write :: "client_env \<Rightarrow> fd \<Rightarrow> u64 \<Rightarrow> tid \<Rightarrow> client \<Rightarrow> (int \<times> client) res" where
  "capio_write ce d count t c =
     rbind (if exists_capio_fd d (cl_tables c) then
              rbind (get_capio_fd_path d (cl_tables c)) (\<lambda>path.
                write_request ce path (to_int32 (uint count)) t d c)
            else Inr c)
       (\<lambda>c1. Inr (CAPIO_POSIX_SYSCALL_REQUEST_SKIP, c1))"

definition posix_write_handler :: "client_env \<Rightarrow> fd \<Rightarrow> u64 \<Rightarrow> tid \<Rightarrow> client \<Rightarrow> outcome res" where
  "posix_write_handler ce d count t c =
     rbind (capio_write ce d count t c) (\<lambda>rc. Inr (posix_return_value rc))"

definition writev_handler :: "client_env \<Rightarrow> fd \<Rightarrow> int \<Rightarrow> tid \<Rightarrow> client \<Rightarrow> outcome res" where
  "writev_handler ce d iovcnt t c =
     rbind (capio_write ce d (word_of_int iovcnt) t c) (\<lambda>rc. Inr (posix_return_value rc))"

subsection \<open>Calls that wait for consent\<close>

definition consent_on_fd :: "string \<Rightarrow> fd \<Rightarrow> tid \<Rightarrow> client \<Rightarrow> client res" where
  \<comment> \<open>the common part of the handlers of a descriptor\<close>
  "consent_on_fd source_func d t c =
     (if exists_capio_fd d (cl_tables c) then
        rbind (get_capio_fd_path d (cl_tables c)) (\<lambda>path.
          consent_to_proceed_request path t source_func c)
      else Inr c)"

definition fd_handler :: "int \<Rightarrow> string \<Rightarrow> fd \<Rightarrow> tid \<Rightarrow> client \<Rightarrow> outcome res" where
  "fd_handler code source_func d t c =
     rbind (consent_on_fd source_func d t c) (\<lambda>c1. Inr (code, None, c1))"

definition fchmod_handler :: "fd \<Rightarrow> tid \<Rightarrow> client \<Rightarrow> outcome res" where
  "fchmod_handler = fd_handler CAPIO_POSIX_SYSCALL_SKIP ''fchmod_handler''"

definition fchown_handler :: "fd \<Rightarrow> tid \<Rightarrow> client \<Rightarrow> outcome res" where
  "fchown_handler = fd_handler CAPIO_POSIX_SYSCALL_SKIP ''fchown_handler''"

definition fgetxattr_handler :: "fd \<Rightarrow> tid \<Rightarrow> client \<Rightarrow> outcome res" where
  "fgetxattr_handler = fd_handler CAPIO_POSIX_SYSCALL_SKIP ''fgetxattr_handler''"

definition fcntl_handler :: "fd \<Rightarrow> tid \<Rightarrow> client \<Rightarrow> outcome res" where
  "fcntl_handler = fd_handler CAPIO_POSIX_SYSCALL_SKIP ''fcntl_handler''"

definition fstatfs_handler :: "fd \<Rightarrow> tid \<Rightarrow> client \<Rightarrow> outcome res" where
  "fstatfs_handler = fd_handler CAPIO_POSIX_SYSCALL_SKIP ''fstatfs_handler''"

definition ioctl_handler :: "fd \<Rightarrow> tid \<Rightarrow> client \<Rightarrow> outcome res" where
  "ioctl_handler = fd_handler CAPIO_POSIX_SYSCALL_REQUEST_SKIP ''ioctl_handler''"

definition getdents_handler :: "fd \<Rightarrow> tid \<Rightarrow> client \<Rightarrow> outcome res" where
  "getdents_handler = fd_handler CAPIO_POSIX_SYSCALL_SKIP ''getdents_handler_impl''"

definition capio_fstat :: "fd \<Rightarrow> tid \<Rightarrow> client \<Rightarrow> (int \<times> client) res" where
  "capio_fstat d t c =
     rbind (consent_on_fd ''capio_fstat'' d t c) (\<lambda>c1. Inr (CAPIO_POSIX_SYSCALL_REQUEST_SKIP, c1))"

definition capio_lstat :: "client_env \<Rightarrow> string \<Rightarrow> tid \<Rightarrow> client \<Rightarrow> (int \<times> client) res" where
  "capio_lstat ce pathname t c =
     (if is_forbidden_path pathname then Inr (CAPIO_POSIX_SYSCALL_REQUEST_SKIP, c)
      else rbind (if is_capio_path (ce_capio_dir ce) pathname
                  then consent_to_proceed_request pathname t ''capio_lstat'' c else Inr c)
             (\<lambda>c1. Inr (CAPIO_POSIX_SYSCALL_REQUEST_SKIP, c1)))"

definition capio_lstat_wrapper ::
    "client_env \<Rightarrow> kernel \<Rightarrow> string \<Rightarrow> tid \<Rightarrow> client \<Rightarrow> (int \<times> client) res" where
  "capio_lstat_wrapper ce k pathname t c =
     (if is_forbidden_path pathname then Inr (CAPIO_POSIX_SYSCALL_REQUEST_SKIP, c)
      else
        let absolute_path = capio_posix_realpath ce k pathname c
        in if absolute_path = [] then Inr (CAPIO_POSIX_SYSCALL_ERRNO, set_errno ENOENT c)
           else capio_lstat ce absolute_path t c)"

definition capio_fstatat ::
    "client_env \<Rightarrow> kernel \<Rightarrow> fd \<Rightarrow> string \<Rightarrow> int \<Rightarrow> tid \<Rightarrow> client \<Rightarrow> (int \<times> client) res" where
  "capio_fstatat ce k dirfd pathname flags t c =
     (if is_forbidden_path pathname then Inr (CAPIO_POSIX_SYSCALL_REQUEST_SKIP, c)
      else if pathname = [] \<and> AT_EMPTY_PATH_set flags then
        (if dirfd = AT_FDCWD then capio_lstat ce (current_dir (cl_tables c)) t c
         else capio_fstat dirfd t c)
      else if \<not> is_absolute pathname then
        (if dirfd = AT_FDCWD then capio_lstat_wrapper ce k pathname t c
         else if \<not> is_directory k dirfd then Inr (CAPIO_POSIX_SYSCALL_ERRNO, set_errno ENOTDIR c)
         else if get_dir_path k dirfd c = [] then Inr (CAPIO_POSIX_SYSCALL_REQUEST_SKIP, c)
         else capio_lstat ce (lexically_normal (path_append (get_dir_path k dirfd c) pathname)) t c)
      else capio_lstat ce pathname t c)"

definition fstat_handler :: "fd \<Rightarrow> tid \<Rightarrow> client \<Rightarrow> outcome res" where
  "fstat_handler d t c = rbind (capio_fstat d t c) (\<lambda>rc. Inr (posix_return_value rc))"

definition fstatat_handler ::
    "client_env \<Rightarrow> kernel \<Rightarrow> fd \<Rightarrow> string \<Rightarrow> int \<Rightarrow> tid \<Rightarrow> client \<Rightarrow> outcome res" where
  "fstatat_handler ce k dirfd pathname flags t c =
     rbind (capio_fstatat ce k dirfd pathname flags t c) (\<lambda>rc. Inr (posix_return_value rc))"

definition lstat_handler :: "client_env \<Rightarrow> kernel \<Rightarrow> string \<Rightarrow> tid \<Rightarrow> client \<Rightarrow> outcome res" where
  "lstat_handler ce k pathname t c =
     rbind (capio_lstat_wrapper ce k pathname t c) (\<lambda>rc. Inr (posix_return_value rc))"

definition stat_handler :: "client_env \<Rightarrow> kernel \<Rightarrow> string \<Rightarrow> tid \<Rightarrow> client \<Rightarrow> outcome res" where
  "stat_handler ce k pathname t c =
     rbind (capio_lstat_wrapper ce k pathname t c) (\<lambda>rc. Inr (posix_return_value rc))"

definition capio_statx :: "client_env \<Rightarrow> string \<Rightarrow> tid \<Rightarrow> client \<Rightarrow> (int \<times> client) res" where
  "capio_statx ce pathname t c =
     (if is_forbidden_path pathname then Inr (CAPIO_POSIX_SYSCALL_REQUEST_SKIP, c)
      else rbind (if is_capio_path (ce_capio_dir ce) pathname
                  then consent_to_proceed_request pathname t ''capio_statx'' c else Inr c)
             (\<lambda>c1. Inr (CAPIO_POSIX_SYSCALL_REQUEST_SKIP, c1)))"

definition statx_handler :: "client_env \<Rightarrow> string \<Rightarrow> tid \<Rightarrow> client \<Rightarrow> outcome res" where
  "statx_handler ce pathname t c =
     rbind (capio_statx ce pathname t c) (\<lambda>rc. Inr (posix_return_value rc))"

definition access_handler :: "client_env \<Rightarrow> kernel \<Rightarrow> string \<Rightarrow> tid \<Rightarrow> client \<Rightarrow> outcome res" where
  "access_handler ce k pathname t c =
     (if is_forbidden_path pathname then Inr (CAPIO_POSIX_SYSCALL_REQUEST_SKIP, None, c)
      else
        let path = (if is_absolute pathname then pathname else capio_posix_realpath ce k pathname c)
        in rbind (consent_to_proceed_request path t ''access_handler'' c)
             (\<lambda>c1. Inr (CAPIO_POSIX_SYSCALL_REQUEST_SKIP, None, c1)))"

definition faccessat_handler ::
    "client_env \<Rightarrow> kernel \<Rightarrow> fd \<Rightarrow> string \<Rightarrow> tid \<Rightarrow> client \<Rightarrow> outcome res" where
  "faccessat_handler ce k dirfd pathname t c =
     (if is_forbidden_path pathname then Inr (CAPIO_POSIX_SYSCALL_REQUEST_SKIP, None, c)
      else
        let ask = (\<lambda>path. rbind (consent_to_proceed_request path t ''faccessat_handler'' c)
              (\<lambda>c1. Inr (CAPIO_POSIX_SYSCALL_REQUEST_SKIP, None, c1)))
        in if is_absolute pathname then ask pathname
           else if dirfd = AT_FDCWD then
             (let path = capio_posix_realpath ce k pathname c
              in if path = [] then Inr (CAPIO_POSIX_SYSCALL_ERRNO, None, set_errno ENONET c)
                 else ask path)
           else if \<not> is_directory k dirfd then Inr (CAPIO_POSIX_SYSCALL_REQUEST_SKIP, None, c)
           else if get_dir_path k dirfd c = [] then Inr (CAPIO_POSIX_SYSCALL_REQUEST_SKIP, None, c)
           else ask (lexically_normal (path_append (get_dir_path k dirfd c) pathname)))"

definition chdir_handler :: "client_env \<Rightarrow> kernel \<Rightarrow> string \<Rightarrow> tid \<Rightarrow> client \<Rightarrow> outcome res" where
  "chdir_handler ce k pathname t c =
     (if is_forbidden_path pathname then Inr (CAPIO_POSIX_SYSCALL_SKIP, None, c)
      else
        let path = (if is_absolute pathname then pathname else capio_posix_realpath ce k pathname c)
        in rbind (consent_to_proceed_request path t ''chdir_handler'' c)
             (\<lambda>c1. Inr (CAPIO_POSIX_SYSCALL_SKIP, None, c1)))"

subsection \<open>Directories and names\<close>

definition capio_mkdirat ::
    "client_env \<Rightarrow> kernel \<Rightarrow> fd \<Rightarrow> string \<Rightarrow> tid \<Rightarrow> client \<Rightarrow> (int \<times> client) res" where
  "capio_mkdirat ce k dirfd pathname t c =
     (if is_forbidden_path pathname then Inr (CAPIO_POSIX_SYSCALL_REQUEST_SKIP, c)
      else
        let make = (\<lambda>path. rbind (if is_capio_path (ce_capio_dir ce) path
                then create_request (-1) path t c else Inr c)
              (\<lambda>c1. Inr (CAPIO_POSIX_SYSCALL_REQUEST_SKIP, c1)))
        in if is_absolute pathname then make pathname
           else if dirfd = AT_FDCWD then
             (let path = capio_posix_realpath ce k pathname c
              in if path = [] then Inr (CAPIO_POSIX_SYSCALL_REQUEST_SKIP, c) else make path)
           else if \<not> is_directory k dirfd then Inr (CAPIO_POSIX_SYSCALL_REQUEST_SKIP, c)
           else if get_dir_path k dirfd c = [] then Inr (CAPIO_POSIX_SYSCALL_REQUEST_SKIP, c)
           else make (lexically_normal (path_append (get_dir_path k dirfd c) pathname)))"

definition mkdirat_handler ::
    "client_env \<Rightarrow> kernel \<Rightarrow> fd \<Rightarrow> string \<Rightarrow> tid \<Rightarrow> client \<Rightarrow> outcome res" where
  "mkdirat_handler ce k dirfd pathname t c =
     rbind (capio_mkdirat ce k dirfd pathname t c) (\<lambda>rc. Inr (posix_return_value rc))"

definition capio_rmdir :: "string \<Rightarrow> tid \<Rightarrow> client \<Rightarrow> int \<times> client" where
  "capio_rmdir pathname t c = (CAPIO_POSIX_SYSCALL_REQUEST_SKIP, c)"

definition rmdir_handler :: "string \<Rightarrow> tid \<Rightarrow> client \<Rightarrow> outcome" where
  "rmdir_handler pathname t c = posix_return_value (capio_rmdir pathname t c)"

definition mkdir_handler :: "client_env \<Rightarrow> kernel \<Rightarrow> string \<Rightarrow> tid \<Rightarrow> client \<Rightarrow> outcome res" where
  "mkdir_handler ce k pathname t c = mkdirat_handler ce k AT_FDCWD pathname t c"

definition posix_rename_handler ::
    "client_env \<Rightarrow> kernel \<Rightarrow> string \<Rightarrow> string \<Rightarrow> tid \<Rightarrow> client \<Rightarrow> outcome res" where
  "posix_rename_handler ce k oldpath newpath t c =
     (let oldpath_abs = capio_absolute ce k oldpath c; newpath_abs = capio_absolute ce k newpath c
      in if is_prefix oldpath_abs newpath_abs
         then Inr (CAPIO_POSIX_SYSCALL_SUCCESS, Some (- EINVAL), set_errno EINVAL c)
         else
           rbind (if is_capio_path (ce_capio_dir ce) oldpath_abs
                  then on_tables (rename_capio_path oldpath_abs newpath_abs) c else Inr c) (\<lambda>c1.
           rbind (if is_capio_path (ce_capio_dir ce) oldpath_abs \<or>
                     is_capio_path (ce_capio_dir ce) newpath_abs
                  then rename_request oldpath_abs newpath_abs t c1 else Inr c1) (\<lambda>c2.
             Inr (CAPIO_POSIX_SYSCALL_SKIP, None, c2))))"

definition unlink_handler :: "client_env \<Rightarrow> string \<Rightarrow> client \<Rightarrow> outcome res" where
  "unlink_handler ce pathname c =
     rbind (if is_capio_path (ce_capio_dir ce) pathname
            then on_tables (delete_capio_path pathname) c else Inr c)
       (\<lambda>c1. Inr (CAPIO_POSIX_SYSCALL_SKIP, None, c1))"

definition unlinkat_handler :: "client_env \<Rightarrow> kernel \<Rightarrow> string \<Rightarrow> client \<Rightarrow> outcome res" where
  "unlinkat_handler ce k pathname c =
     (let path = capio_posix_realpath ce k pathname c
      in rbind (if is_capio_path (ce_capio_dir ce) path then on_tables (delete_capio_path path) c
                else Inr c)
           (\<lambda>c1. Inr (CAPIO_POSIX_SYSCALL_SKIP, None, c1)))"

subsection \<open>Processes and threads\<close>

definition is_capio_tid :: "tid \<Rightarrow> client \<Rightarrow> bool" where
  "is_capio_tid t c = (t \<in> set (cl_tids c))"

definition register_capio_tid :: "tid \<Rightarrow> client \<Rightarrow> client" where
  "register_capio_tid t c = c\<lparr>cl_tids := List.insert t (cl_tids c)\<rparr>"

definition remove_capio_tid :: "tid \<Rightarrow> client \<Rightarrow> client" where
  "remove_capio_tid t c = c\<lparr>cl_tids := removeAll t (cl_tids c)\<rparr>"

text \<open>\<open>get_capio_app_name\<close> never returns null; what is sent as the process is the caller's thread id.\<close>

definition init_process :: "client_env \<Rightarrow> tid \<Rightarrow> tid \<Rightarrow> client \<Rightarrow> client res" where
  "init_process ce caller t c =
     handshake_named_request t caller (ce_app_name ce) (register_listener t c)"

definition fork_handler :: "client_env \<Rightarrow> kernel \<Rightarrow> tid \<Rightarrow> client \<Rightarrow> outcome res" where
  \<comment> \<open>in the process the call returns in; \<open>t\<close> is the thread id there\<close>
  "fork_handler ce k t c =
     (if k_result k = 0 then
        rbind (init_process ce t t c) (\<lambda>c1. Inr (CAPIO_POSIX_SYSCALL_SUCCESS, Some 0, c1))
      else Inr (CAPIO_POSIX_SYSCALL_SUCCESS, Some (k_result k), c))"

text \<open>Deleting the write cache flushes it.\<close>

definition posix_exit_handler :: "tid \<Rightarrow> client \<Rightarrow> outcome res" where
  "posix_exit_handler t c =
     rbind (if is_capio_tid t c then
              rbind (exit_group_request t c) (\<lambda>c1. Inr (remove_capio_tid t c1)) else Inr c) (\<lambda>c1.
     rbind (flush t c1) (\<lambda>c2. Inr (CAPIO_POSIX_SYSCALL_SKIP, None, c2)))"

subsection \<open>Properties\<close>

lemma on_tables_Inr: "on_tables f c = Inr c' \<longleftrightarrow> (\<exists>T. f (cl_tables c) = Inr T \<and> c' = c\<lparr>cl_tables := T\<rparr>)"
  by (auto simp: on_tables_def res_simps)

lemma create_request_sends:
  "create_request d p t c = Inr c' \<Longrightarrow> cl_tables c' = cl_tables c \<and> cl_sent c' = cl_sent c @ [Create t d p]"
  by (auto simp: create_request_def send_Inr)

lemma open_request_sends:
  assumes "open_request d p t c = Inr c'"
  shows "cl_tables c' = cl_tables c \<and>
    (\<exists>ws v. cl_sent c' = cl_sent c @ ws @ [Open t d p] \<and> cl_answers c = v # cl_answers c')"
proof -
  from assms obtain c0 c1 v where c0: "flush t c = Inr c0" and c1: "send (Open t d p) c0 = Inr c1"
    and c': "await t c1 = Inr (v, c')"
    by (auto simp: open_request_def res_simps)
  from flush_sends[OF c0] obtain ws where "cl_sent c0 = cl_sent c @ ws" by auto
  with flush_keeps[OF c0] c1 c' show ?thesis by (auto simp: send_Inr await_Inr)
qed

text \<open>C22: An open of a CAPIO path asks the server first, \<open>create\<close> with \<open>O_CREAT\<close> and otherwise \<open>open\<close>, which
  takes one answer; then the descriptor the kernel returned is in the tables with the absolute path,
  offset zero and the close-on-exec flag, the tables stay consistent and no other descriptor
  changes.\<close>

theorem open_registers_descriptor:
  assumes "openat_handler ce k dirfd pathname flags t c = Inr (code, r, c')"
    and "compute_abs_path ce k pathname dirfd c = p" and "is_capio_path (ce_capio_dir ce) p"
    and "k_result k = d" and "0 \<le> d"
    and "fd_wf (cl_tables c)" and "\<not> exists_capio_fd d (cl_tables c)"
  shows "code = CAPIO_POSIX_SYSCALL_SUCCESS \<and> r = Some d \<and> fd_wf (cl_tables c') \<and>
    get_capio_fd_path d (cl_tables c') = Inr p \<and> get_capio_fd_offset d (cl_tables c') = Inr 0 \<and>
    get_capio_fd_cloexec d (cl_tables c') = Inr (O_CLOEXEC_set flags) \<and>
    (\<forall>e. e \<noteq> d \<longrightarrow> get_capio_fd_path e (cl_tables c') = get_capio_fd_path e (cl_tables c) \<and>
       get_capio_fd_offset e (cl_tables c') = get_capio_fd_offset e (cl_tables c)) \<and>
    last (cl_sent c') = (if O_CREAT_set flags then Create t (-1) p else Open t (-1) p) \<and>
    (\<exists>as. cl_answers c = as @ cl_answers c' \<and> (O_CREAT_set flags \<longrightarrow> length as = 0) \<and>
       (\<not> O_CREAT_set flags \<longrightarrow> length as = 1))"
proof -
  from assms(1-5) obtain c1 T where
    ask: "(if O_CREAT_set flags then create_request (-1) p t c else open_request (-1) p t c) = Inr c1"
    and add: "add_capio_fd p d 0 (O_CLOEXEC_set flags) (cl_tables c1) = Inr T"
    and r: "code = CAPIO_POSIX_SYSCALL_SUCCESS" "r = Some d" "c' = c1\<lparr>cl_tables := T\<rparr>"
    by (auto simp: openat_handler_def Let_def res_simps on_tables_Inr)
  have c1: "cl_tables c1 = cl_tables c"
      "last (cl_sent c1) = (if O_CREAT_set flags then Create t (-1) p else Open t (-1) p)"
      "\<exists>as. cl_answers c = as @ cl_answers c1 \<and> length as = (if O_CREAT_set flags then 0 else 1)"
    using ask create_request_sends[of "-1" p t c c1] open_request_sends[of "-1" p t c c1]
    by (auto simp: create_request_def send_Inr split: if_splits)
  from add_capio_fd_ok[OF assms(7,6), of p 0 "O_CLOEXEC_set flags"] add c1(1) have
    "fd_wf T \<and> get_capio_fd_path d T = Inr p \<and> get_capio_fd_offset d T = Inr 0 \<and>
     get_capio_fd_cloexec d T = Inr (O_CLOEXEC_set flags) \<and>
     (\<forall>e. e \<noteq> d \<longrightarrow> get_capio_fd_path e T = get_capio_fd_path e (cl_tables c) \<and>
        get_capio_fd_offset e T = get_capio_fd_offset e (cl_tables c))" by auto
  with r c1 show ?thesis by auto
qed

definition sample_kernel :: kernel where
  "sample_kernel = \<lparr>k_realpath = (\<lambda>_. None), k_readlink_fd = (\<lambda>_. None), k_fstat_dir = (\<lambda>_. None),
     k_result = 3\<rparr>"

lemma fresh_tables: "fd_wf (cl_tables fresh_client)" "\<not> exists_capio_fd d (cl_tables fresh_client)"
  by (simp_all add: fresh_client_def fd_wf_init) (simp add: exists_capio_fd_def init_filesystem_def)

lemma sample_open:
  "case openat_handler sample_client_env sample_kernel (-100) ''f'' 0 1 fresh_client of
     Inl _ \<Rightarrow> False | Inr _ \<Rightarrow> True"
  by code_simp

lemma open_registers_descriptor_witness:
  "\<exists>c'. openat_handler sample_client_env sample_kernel (-100) ''f'' 0 1 fresh_client = Inr (0, Some 3, c') \<and>
     get_capio_fd_path 3 (cl_tables c') = Inr ''/d/f'' \<and> last (cl_sent c') = Open 1 (-1) ''/d/f''"
proof -
  obtain code r c' where
    o: "openat_handler sample_client_env sample_kernel (-100) ''f'' 0 1 fresh_client = Inr (code, r, c')"
    using sample_open by (auto split: sum.splits)
  have p: "compute_abs_path sample_client_env sample_kernel ''f'' (-100) fresh_client = ''/d/f''"
    and q: "is_capio_path (ce_capio_dir sample_client_env) ''/d/f''"
    and f: "\<not> O_CREAT_set 0"
    by code_simp+
  from open_registers_descriptor[OF o p q, of 3] fresh_tables f o show ?thesis
    by (auto simp: sample_kernel_def CAPIO_POSIX_SYSCALL_SUCCESS_def)
qed

text \<open>\<open>open\<close> and \<open>creat\<close> pass no directory, so a relative name is never recognised as a CAPIO path,
  wherever the process stands: the server is not asked, nothing waits, and the descriptor is not
  registered.\<close>

theorem relative_open_bypasses_server:
  assumes "\<not> is_absolute pathname" and "k_readlink_fd k (-1) = None"
    and "get_capio_fd_path (-1) (cl_tables c) = Inl OutOfRange" and "is_absolute (ce_capio_dir ce)"
  shows "posix_open_handler ce k pathname flags t c =
      Inr (CAPIO_POSIX_SYSCALL_SUCCESS, Some (k_result k), c) \<and>
    creat_handler ce k pathname t c = Inr (CAPIO_POSIX_SYSCALL_SUCCESS, Some (k_result k), c)"
proof -
  have "map_of (capio_files_descriptors (cl_tables c)) (-1) = None"
    using assms(3) by (auto simp: get_capio_fd_path_def at_or_throw_def split: option.splits)
  with assms(1,2) have "compute_abs_path ce k pathname (-1) c = []"
    by (simp add: compute_abs_path_def AT_FDCWD_def get_dir_path_def)
  moreover have "\<not> is_capio_path (ce_capio_dir ce) []"
    using assms(4) by (simp add: is_capio_path_def is_prefix_def lexically_relative_def is_absolute_def)
  ultimately show ?thesis
    by (simp add: posix_open_handler_def openat_handler_def creat_handler_def Let_def)
qed

lemma relative_open_bypasses_server_witness:
  "posix_open_handler sample_client_env sample_kernel ''f'' 0 1 fresh_client = Inr (0, Some 3, fresh_client) \<and>
   openat_handler sample_client_env sample_kernel (-100) ''f'' 0 1 fresh_client \<noteq> Inr (0, Some 3, fresh_client)"
proof -
  have "posix_open_handler sample_client_env sample_kernel ''f'' 0 1 fresh_client = Inr (0, Some 3, fresh_client)"
    using relative_open_bypasses_server[of "''f''" sample_kernel fresh_client sample_client_env 0 1]
    by (simp add: is_absolute_def sample_kernel_def fresh_client_def get_capio_fd_path_def
        init_filesystem_def sample_client_env_def CAPIO_POSIX_SYSCALL_SUCCESS_def)
  moreover have "case openat_handler sample_client_env sample_kernel (-100) ''f'' 0 1 fresh_client of
      Inl _ \<Rightarrow> True | Inr (_, _, c) \<Rightarrow> cl_sent c \<noteq> []"
    by code_simp
  ultimately show ?thesis by (auto simp: fresh_client_def)
qed

text \<open>The write cache collects the numbers of descriptors where it means to collect bytes: once a
  thread's writes are in the cache, a write of any number of bytes adds the number of the descriptor,
  and while the sum is at most the size of the cache the server is told nothing.\<close>

theorem write_count_not_collected:
  assumes "exists_capio_fd d (cl_tables c)" and "get_capio_fd_path d (cl_tables c) = Inr p"
    and "wc_fd (cl_wcache c) = t" and "path_eq p (wc_path (cl_wcache c))"
    and "word_of_int (wc_size (cl_wcache c) + d) \<le> ce_cache_size ce"
  shows "posix_write_handler ce d count t c = Inr (CAPIO_POSIX_SYSCALL_SKIP, None,
    c\<lparr>cl_wcache := (cl_wcache c)\<lparr>wc_size := wc_size (cl_wcache c) + d\<rparr>\<rparr>)"
  using assms leD[OF assms(5)]
  by (simp add: posix_write_handler_def capio_write_def write_request_def posix_return_value_def Let_def)

definition writing_client :: client where
  "writing_client = fresh_client\<lparr>cl_tables := two_fds,
     cl_wcache := \<lparr>wc_fd = 1, wc_size = 3, wc_path = ''/d/a''\<rparr>\<rparr>"

lemma write_count_not_collected_witness:
  "\<exists>c'. posix_write_handler sample_client_env 3 1000000 1 writing_client = Inr (CAPIO_POSIX_SYSCALL_SKIP, None, c') \<and>
     wc_size (cl_wcache c') = 6 \<and> cl_sent c' = []"
  using write_count_not_collected[of 3 writing_client "''/d/a''" 1 sample_client_env 1000000]
  by (simp add: writing_client_def two_fds_def exists_capio_fd_def get_capio_fd_path_def
      sample_client_env_def fresh_client_def)

end
