(* ===== verification/SharedMemory.thy ===== *)
theory SharedMemory
  imports CapioPrelude
begin

text \<open>
  The named objects a CAPIO server and the processes share: shared memory
  (\<open>src/common/capio/shm.hpp\<close>), semaphores (\<open>src/common/capio/semaphore.hpp\<close>), and the ones that
  make up a ring, from its constructor to its destructor (\<open>src/common/capio/queue.hpp\<close>; what a ring
  does in between is in \<open>RingQueue\<close>). Which calls the kernel refuses is a parameter; a refused call
  ends in \<open>ERR_EXIT\<close> except where the source goes on. Messages are left out.
\<close>

subsection \<open>Shared memory\<close>

text \<open>What is stored in an object; a new one is filled with zeros.\<close>

datatype shm_content = Zeros | Fds "int list" | Numbers "u64 list" | Path string | Offset nat | Bytes string

record shm_object =
  so_size :: nat
  so_content :: shm_content

record shm_space =
  shm_objects :: "(string, shm_object) umap"
  shm_mapped :: "string list"                 \<comment> \<open>names of the objects mapped into the process\<close>
  semaphores :: "(string, nat) umap"

datatype shm_call = ShmOpen | Ftruncate | Fstat | Mmap | CloseFd | Munmap | ShmUnlink | SemOpen | SemUnlink

type_synonym refusals = "shm_call \<Rightarrow> string \<Rightarrow> bool"

definition or_quit :: "bool \<Rightarrow> 'a res \<Rightarrow> 'a res" where
  "or_quit refused r = (if refused then Inl ErrExit else r)"

definition map_object :: "string \<Rightarrow> shm_space \<Rightarrow> shm_space" where
  "map_object name ss = ss\<lparr>shm_mapped := List.insert name (shm_mapped ss)\<rparr>"

definition create_shm :: "refusals \<Rightarrow> string \<Rightarrow> nat \<Rightarrow> shm_space \<Rightarrow> shm_space res" where
  "create_shm k shm_name sz ss =
     or_quit (k ShmOpen shm_name)
       (let ob = (case map_of (shm_objects ss) shm_name of
                    None \<Rightarrow> \<lparr>so_size = 0, so_content = Zeros\<rparr> | Some ob \<Rightarrow> ob)
        in or_quit (k Ftruncate shm_name) (or_quit (k Mmap shm_name) (or_quit (k CloseFd shm_name)
             (Inr (map_object shm_name (ss\<lparr>shm_objects :=
                AList.update shm_name (ob\<lparr>so_size := sz\<rparr>) (shm_objects ss)\<rparr>))))))"

text \<open>An object that is not there is the error \<open>ENOENT\<close>.\<close>

definition get_shm :: "refusals \<Rightarrow> string \<Rightarrow> shm_space \<Rightarrow> shm_space res" where
  "get_shm k shm_name ss =
     or_quit (map_of (shm_objects ss) shm_name = None \<or> k ShmOpen shm_name)
       (or_quit (k Fstat shm_name) (or_quit (k Mmap shm_name) (or_quit (k CloseFd shm_name)
         (Inr (map_object shm_name ss)))))"

definition get_shm_if_exist :: "refusals \<Rightarrow> string \<Rightarrow> shm_space \<Rightarrow> (bool \<times> shm_space) res" where
  "get_shm_if_exist k shm_name ss =
     (if map_of (shm_objects ss) shm_name = None then Inr (False, ss)
      else rbind (get_shm k shm_name ss) (\<lambda>ss'. Inr (True, ss')))"

definition munmap :: "refusals \<Rightarrow> string \<Rightarrow> shm_space \<Rightarrow> shm_space res" where
  "munmap k name ss = or_quit (k Munmap name) (Inr (ss\<lparr>shm_mapped := removeAll name (shm_mapped ss)\<rparr>))"

text \<open>\<open>shm_unlink (name) == -1\<close>, and what is left when it succeeds.\<close>

definition shm_unlink_fails :: "refusals \<Rightarrow> string \<Rightarrow> shm_space \<Rightarrow> bool" where
  "shm_unlink_fails k name ss \<longleftrightarrow> map_of (shm_objects ss) name = None \<or> k ShmUnlink name"

definition unlinked :: "string \<Rightarrow> shm_space \<Rightarrow> shm_space" where
  "unlinked name ss = ss\<lparr>shm_objects := AList.delete name (shm_objects ss)\<rparr>"

definition shm_unlink :: "refusals \<Rightarrow> string \<Rightarrow> shm_space \<Rightarrow> shm_space res" where
  "shm_unlink k name ss = or_quit (shm_unlink_fails k name ss) (Inr (unlinked name ss))"

text \<open>\<open>SHM_DESTROY_CHECK\<close> of the server, which only prints a warning.\<close>

definition SHM_DESTROY_CHECK :: "refusals \<Rightarrow> string \<Rightarrow> shm_space \<Rightarrow> shm_space" where
  "SHM_DESTROY_CHECK k name ss = (if shm_unlink_fails k name ss then ss else unlinked name ss)"

text \<open>Reading and writing through a pointer: the object has to be mapped.\<close>

definition shm_load :: "string \<Rightarrow> shm_space \<Rightarrow> shm_content res" where
  "shm_load name ss =
     (if name \<notin> set (shm_mapped ss) then Inl Undefined
      else case map_of (shm_objects ss) name of None \<Rightarrow> Inl Undefined | Some ob \<Rightarrow> Inr (so_content ob))"

definition shm_store :: "string \<Rightarrow> shm_content \<Rightarrow> shm_space \<Rightarrow> shm_space res" where
  "shm_store name v ss =
     (if name \<notin> set (shm_mapped ss) then Inl Undefined
      else case map_of (shm_objects ss) name of None \<Rightarrow> Inl Undefined
        | Some ob \<Rightarrow> Inr (ss\<lparr>shm_objects := AList.update name (ob\<lparr>so_content := v\<rparr>) (shm_objects ss)\<rparr>))"

subsection \<open>The canary of a workflow\<close>

definition CapioShmCanary_open :: "refusals \<Rightarrow> string \<Rightarrow> string \<Rightarrow> shm_space \<Rightarrow> (string \<times> shm_space) res" where
  "CapioShmCanary_open k env_name capio_workflow_name ss =
     (let canary_name = (if capio_workflow_name = [] then env_name else capio_workflow_name)
      in or_quit (map_of (shm_objects ss) canary_name \<noteq> None \<or> k ShmOpen canary_name)
           (Inr (canary_name, ss\<lparr>shm_objects :=
              AList.update canary_name \<lparr>so_size = 0, so_content = Zeros\<rparr> (shm_objects ss)\<rparr>)))"

definition CapioShmCanary_close :: "refusals \<Rightarrow> string \<Rightarrow> shm_space \<Rightarrow> shm_space" where
  "CapioShmCanary_close k canary_name ss = SHM_DESTROY_CHECK k canary_name ss"

subsection \<open>Semaphores\<close>

definition SEM_VALUE_MAX :: nat where "SEM_VALUE_MAX = 2147483647"

text \<open>The counts: \<open>sem_wait\<close> blocks at zero, \<open>sem_post\<close> fails at the largest value.\<close>

definition sem_wait :: "nat \<Rightarrow> nat res" where
  "sem_wait n = (case n of 0 \<Rightarrow> Inl Blocked | Suc m \<Rightarrow> Inr m)"

definition sem_post :: "nat \<Rightarrow> nat res" where
  "sem_post n = (if n = SEM_VALUE_MAX then Inl ErrExit else Inr (n + 1))"

text \<open>\<open>Semaphore\<close>, which is not named: its count.\<close>

definition Semaphore_init :: "nat \<Rightarrow> nat res" where
  "Semaphore_init init_value = or_quit (SEM_VALUE_MAX < init_value) (Inr init_value)"

definition Semaphore_lock :: "nat \<Rightarrow> nat res" where "Semaphore_lock = sem_wait"
definition Semaphore_unlock :: "nat \<Rightarrow> nat res" where "Semaphore_unlock = sem_post"

text \<open>\<open>NoLock\<close>.\<close>

definition NoLock_lock :: "unit \<Rightarrow> unit res" where "NoLock_lock u = Inr ()"
definition NoLock_unlock :: "unit \<Rightarrow> unit res" where "NoLock_unlock u = Inr ()"

text \<open>\<open>NamedSemaphore\<close>: an existing semaphore keeps its count.\<close>

definition NamedSemaphore_open :: "refusals \<Rightarrow> string \<Rightarrow> nat \<Rightarrow> shm_space \<Rightarrow> shm_space res" where
  "NamedSemaphore_open k name init_value ss =
     or_quit (k SemOpen name) (Inr (ss\<lparr>semaphores := emplace name init_value (semaphores ss)\<rparr>))"

definition on_semaphore :: "(nat \<Rightarrow> nat res) \<Rightarrow> string \<Rightarrow> shm_space \<Rightarrow> shm_space res" where
  "on_semaphore f name ss =
     (case map_of (semaphores ss) name of
        None \<Rightarrow> Inl Undefined
      | Some n \<Rightarrow> rbind (f n) (\<lambda>m. Inr (ss\<lparr>semaphores := AList.update name m (semaphores ss)\<rparr>)))"

definition NamedSemaphore_lock :: "string \<Rightarrow> shm_space \<Rightarrow> shm_space res" where
  "NamedSemaphore_lock = on_semaphore sem_wait"

definition NamedSemaphore_unlock :: "string \<Rightarrow> shm_space \<Rightarrow> shm_space res" where
  "NamedSemaphore_unlock = on_semaphore sem_post"

text \<open>\<open>sem_destroy\<close> of the C library has no effect and succeeds; then the name goes.\<close>

definition NamedSemaphore_close :: "refusals \<Rightarrow> string \<Rightarrow> shm_space \<Rightarrow> shm_space res" where
  "NamedSemaphore_close k name ss =
     or_quit (map_of (semaphores ss) name = None \<or> k SemUnlink name)
       (Inr (ss\<lparr>semaphores := AList.delete name (semaphores ss)\<rparr>))"

subsection \<open>The objects of a ring\<close>

definition SHM_FIRST_ELEM :: string where "SHM_FIRST_ELEM = ''_first_elem_''"
definition SHM_LAST_ELEM :: string where "SHM_LAST_ELEM = ''_last_elem_''"
definition SHM_MUTEX_PREFIX :: string where "SHM_MUTEX_PREFIX = ''_mutex_''"
definition SHM_SEM_ELEMS :: string where "SHM_SEM_ELEMS = ''_sem_num_elems_''"
definition SHM_SEM_EMPTY :: string where "SHM_SEM_EMPTY = ''_sem_num_empty_''"

record queue_names =
  q_shm_name :: string
  q_first_elem_name :: string
  q_last_elem_name :: string
  q_mutex :: string
  q_sem_num_elems :: string
  q_sem_num_empty :: string

definition queue_names_of :: "string \<Rightarrow> string \<Rightarrow> queue_names" where
  "queue_names_of workflow_name shm_name =
     \<lparr>q_shm_name = workflow_name @ ''_'' @ shm_name,
      q_first_elem_name = workflow_name @ SHM_FIRST_ELEM @ shm_name,
      q_last_elem_name = workflow_name @ SHM_LAST_ELEM @ shm_name,
      q_mutex = workflow_name @ SHM_MUTEX_PREFIX @ shm_name,
      q_sem_num_elems = workflow_name @ SHM_SEM_ELEMS @ shm_name,
      q_sem_num_empty = workflow_name @ SHM_SEM_EMPTY @ shm_name\<rparr>"

text \<open>The constructor: the members in the order of their declaration, then the body.\<close>

definition queue_open ::
    "refusals \<Rightarrow> string \<Rightarrow> string \<Rightarrow> nat \<Rightarrow> nat \<Rightarrow> shm_space \<Rightarrow> (queue_names \<times> shm_space) res" where
  "queue_open k workflow_name shm_name max_num es ss =
     (let q = queue_names_of workflow_name shm_name in
      rbind (NamedSemaphore_open k (q_mutex q) 1 ss) (\<lambda>ss1.
      rbind (NamedSemaphore_open k (q_sem_num_elems q) 0 ss1) (\<lambda>ss2.
      rbind (NamedSemaphore_open k (q_sem_num_empty q) max_num ss2) (\<lambda>ss3.
      rbind (create_shm k (q_first_elem_name q) 8 ss3) (\<lambda>ss4.
      rbind (create_shm k (q_last_elem_name q) 8 ss4) (\<lambda>ss5.
      rbind (get_shm_if_exist k (q_shm_name q) ss5) (\<lambda>(found, ss6).
        if found then Inr (q, ss6)
        else
          rbind (shm_store (q_first_elem_name q) (Offset 0) ss6) (\<lambda>ss7.
          rbind (shm_store (q_last_elem_name q) (Offset 0) ss7) (\<lambda>ss8.
          rbind (create_shm k (q_shm_name q) (max_num * es) ss8) (\<lambda>ss9.
            Inr (q, ss9)))))))))))"

text \<open>The destructor in the server: the body, then the members in reverse order.\<close>

definition queue_close :: "refusals \<Rightarrow> queue_names \<Rightarrow> shm_space \<Rightarrow> shm_space res" where
  "queue_close k q ss =
     (let ss1 = SHM_DESTROY_CHECK k (q_last_elem_name q)
                  (SHM_DESTROY_CHECK k (q_first_elem_name q) (SHM_DESTROY_CHECK k (q_shm_name q) ss))
      in rbind (NamedSemaphore_close k (q_sem_num_empty q) ss1) (\<lambda>ss2.
         rbind (NamedSemaphore_close k (q_sem_num_elems q) ss2) (\<lambda>ss3.
           NamedSemaphore_close k (q_mutex q) ss3)))"

subsection \<open>What the calls do when nothing is refused\<close>

definition willing :: refusals where "willing c name = False"

lemma or_quit_simps [simp]: "or_quit True r = Inl ErrExit" "or_quit False r = r"
  by (simp_all add: or_quit_def)

lemma or_quit_Inr [res_simps]: "or_quit b r = Inr x \<longleftrightarrow> \<not> b \<and> r = Inr x"
  by (simp add: or_quit_def)

lemma willing_simps [simp]: "willing c n = False"
  by (simp add: willing_def)

lemma map_object_simps [simp]:
  "shm_objects (map_object n ss) = shm_objects ss" "semaphores (map_object n ss) = semaphores ss"
  "set (shm_mapped (map_object n ss)) = insert n (set (shm_mapped ss))"
  by (simp_all add: map_object_def)

lemma create_shm_Inr:
  "create_shm k n sz ss = Inr ss' \<Longrightarrow> semaphores ss' = semaphores ss \<and>
     set (shm_mapped ss') = insert n (set (shm_mapped ss)) \<and>
     (\<forall>m. map_of (shm_objects ss') m = (if m = n then Some (case map_of (shm_objects ss) n of
        None \<Rightarrow> \<lparr>so_size = sz, so_content = Zeros\<rparr> | Some ob \<Rightarrow> ob\<lparr>so_size := sz\<rparr>)
      else map_of (shm_objects ss) m))"
  by (auto simp: create_shm_def Let_def res_simps umap_simps split: option.splits)

lemma shm_store_Inr:
  "shm_store n v ss = Inr ss' \<Longrightarrow> semaphores ss' = semaphores ss \<and> shm_mapped ss' = shm_mapped ss \<and>
     (\<exists>ob. map_of (shm_objects ss) n = Some ob \<and>
       (\<forall>m. map_of (shm_objects ss') m = (if m = n then Some (ob\<lparr>so_content := v\<rparr>) else map_of (shm_objects ss) m)))"
  by (auto simp: shm_store_def umap_simps split: if_splits option.splits)

lemma get_shm_if_exist_Inr:
  "get_shm_if_exist k n ss = Inr (found, ss') \<Longrightarrow> semaphores ss' = semaphores ss \<and>
     shm_objects ss' = shm_objects ss \<and> (found \<longleftrightarrow> map_of (shm_objects ss) n \<noteq> None) \<and>
     set (shm_mapped ss') = (if found then insert n (set (shm_mapped ss)) else set (shm_mapped ss))"
  by (auto simp: get_shm_if_exist_def get_shm_def res_simps split: if_splits)

lemma NamedSemaphore_open_Inr:
  "NamedSemaphore_open k n i ss = Inr ss' \<Longrightarrow> shm_objects ss' = shm_objects ss \<and> shm_mapped ss' = shm_mapped ss \<and>
     (\<forall>m. map_of (semaphores ss') m =
        (if m = n then (case map_of (semaphores ss) n of None \<Rightarrow> Some i | Some v \<Rightarrow> Some v) else map_of (semaphores ss) m))"
  by (auto simp: NamedSemaphore_open_def res_simps umap_simps split: option.splits)

definition same_objects :: "shm_space \<Rightarrow> shm_space \<Rightarrow> bool" where
  "same_objects ss ss' \<longleftrightarrow> (\<forall>n. map_of (shm_objects ss) n = map_of (shm_objects ss') n) \<and>
     (\<forall>n. map_of (semaphores ss) n = map_of (semaphores ss') n)"

lemma same_objects_refl [simp]: "same_objects ss ss"
  by (simp add: same_objects_def)

lemma same_objects_trans [trans]: "same_objects a b \<Longrightarrow> same_objects b c \<Longrightarrow> same_objects a c"
  by (simp add: same_objects_def)

text \<open>A ring that exists: all its objects, with the sizes the constructor gives them.\<close>

definition queue_present :: "queue_names \<Rightarrow> shm_space \<Rightarrow> bool" where
  "queue_present q ss \<longleftrightarrow> map_of (shm_objects ss) (q_shm_name q) \<noteq> None \<and>
     (\<exists>a b. map_of (shm_objects ss) (q_first_elem_name q) = Some a \<and> so_size a = 8 \<and>
        map_of (shm_objects ss) (q_last_elem_name q) = Some b \<and> so_size b = 8) \<and>
     map_of (semaphores ss) (q_mutex q) \<noteq> None \<and> map_of (semaphores ss) (q_sem_num_elems q) \<noteq> None \<and>
     map_of (semaphores ss) (q_sem_num_empty q) \<noteq> None"

definition queue_objects :: "queue_names \<Rightarrow> string set" where
  "queue_objects q = {q_shm_name q, q_first_elem_name q, q_last_elem_name q}"

definition queue_semaphores :: "queue_names \<Rightarrow> string set" where
  "queue_semaphores q = {q_mutex q, q_sem_num_elems q, q_sem_num_empty q}"

lemma queue_names_distinct:
  "q_mutex (queue_names_of w n) \<noteq> q_sem_num_elems (queue_names_of w n)"
  "q_mutex (queue_names_of w n) \<noteq> q_sem_num_empty (queue_names_of w n)"
  "q_sem_num_elems (queue_names_of w n) \<noteq> q_sem_num_empty (queue_names_of w n)"
  "q_first_elem_name (queue_names_of w n) \<noteq> q_last_elem_name (queue_names_of w n)"
  "q_shm_name (queue_names_of w n) \<noteq> q_first_elem_name (queue_names_of w n)"
  "q_shm_name (queue_names_of w n) \<noteq> q_last_elem_name (queue_names_of w n)"
  by (auto simp: queue_names_of_def SHM_FIRST_ELEM_def SHM_LAST_ELEM_def SHM_MUTEX_PREFIX_def
      SHM_SEM_ELEMS_def SHM_SEM_EMPTY_def dest: arg_cong[where f = length])

lemma willing_opens [simp]:
  "NamedSemaphore_open willing n i ss = Inr (ss\<lparr>semaphores := emplace n i (semaphores ss)\<rparr>)"
  by (simp add: NamedSemaphore_open_def)

lemma queue_open_present:
  assumes "queue_present (queue_names_of w n) ss"
  shows "\<exists>ss'. queue_open willing w n max_num es ss = Inr (queue_names_of w n, ss') \<and> same_objects ss ss'"
proof -
  let ?q = "queue_names_of w n"
  from assms obtain a b where p: "map_of (shm_objects ss) (q_first_elem_name ?q) = Some a" "so_size a = 8"
      "map_of (shm_objects ss) (q_last_elem_name ?q) = Some b" "so_size b = 8"
      "map_of (shm_objects ss) (q_shm_name ?q) \<noteq> None"
    by (auto simp: queue_present_def)
  have same_size: "a\<lparr>so_size := 8\<rparr> = a" "b\<lparr>so_size := 8\<rparr> = b" using p(2,4) by simp_all
  show ?thesis
    using assms p same_size
    by (auto simp: queue_open_def Let_def create_shm_def get_shm_if_exist_def get_shm_def same_objects_def
        umap_simps queue_present_def)
qed

lemma queue_open_total:
  "\<exists>ss'. queue_open willing w n max_num es ss = Inr (queue_names_of w n, ss') \<and>
     queue_present (queue_names_of w n) ss' \<and>
     (\<forall>m. m \<notin> queue_objects (queue_names_of w n) \<longrightarrow> map_of (shm_objects ss') m = map_of (shm_objects ss) m) \<and>
     (\<forall>m. m \<notin> queue_semaphores (queue_names_of w n) \<longrightarrow> map_of (semaphores ss') m = map_of (semaphores ss) m)"
  using queue_names_distinct[of w n]
  by (auto simp: queue_open_def Let_def create_shm_def get_shm_if_exist_def get_shm_def shm_store_def
      umap_simps queue_present_def queue_objects_def queue_semaphores_def split: option.splits)

lemma destroy_objects:
  "map_of (shm_objects (SHM_DESTROY_CHECK willing n ss)) m = (if m = n then None else map_of (shm_objects ss) m)"
  "semaphores (SHM_DESTROY_CHECK willing n ss) = semaphores ss"
  by (auto simp: SHM_DESTROY_CHECK_def shm_unlink_fails_def unlinked_def umap_simps)

lemma queue_close_total:
  assumes "queue_present (queue_names_of w n) ss"
  shows "\<exists>ss'. queue_close willing (queue_names_of w n) ss = Inr ss' \<and>
     (\<forall>m. map_of (shm_objects ss') m =
        (if m \<in> queue_objects (queue_names_of w n) then None else map_of (shm_objects ss) m)) \<and>
     (\<forall>m. map_of (semaphores ss') m =
        (if m \<in> queue_semaphores (queue_names_of w n) then None else map_of (semaphores ss) m))"
  using assms queue_names_distinct[of w n]
  by (auto simp: queue_close_def Let_def NamedSemaphore_close_def or_quit_def destroy_objects umap_simps
      queue_present_def queue_objects_def queue_semaphores_def)

text \<open>A counter with a lock that waits for it: what a mutex and the counts of a ring are.\<close>

datatype sem_op = Wait | Post

definition weight :: "sem_op \<Rightarrow> int" where "weight a = (case a of Wait \<Rightarrow> -1 | Post \<Rightarrow> 1)"

fun run_sem :: "('s \<Rightarrow> 's res) \<Rightarrow> ('s \<Rightarrow> 's res) \<Rightarrow> sem_op list \<Rightarrow> 's \<Rightarrow> 's res" where
  "run_sem lock unlock [] s = Inr s"
| "run_sem lock unlock (Wait # as) s = rbind (lock s) (run_sem lock unlock as)"
| "run_sem lock unlock (Post # as) s = rbind (unlock s) (run_sem lock unlock as)"

text \<open>The counts after every prefix.\<close>

fun counts_from :: "int \<Rightarrow> sem_op list \<Rightarrow> int list" where
  "counts_from n [] = [n]"
| "counts_from n (a # as) = n # counts_from (n + weight a) as"

locale counting =
  fixes lock :: "'s \<Rightarrow> 's res" and unlock :: "'s \<Rightarrow> 's res" and count :: "'s \<Rightarrow> nat option"
  assumes lock_zero: "count s = Some 0 \<Longrightarrow> lock s = Inl Blocked"
    and lock_some: "count s = Some (Suc n) \<Longrightarrow> \<exists>s'. lock s = Inr s' \<and> count s' = Some n"
    and unlock_max: "count s = Some SEM_VALUE_MAX \<Longrightarrow> unlock s = Inl ErrExit"
    and unlock_some: "count s = Some n \<Longrightarrow> n < SEM_VALUE_MAX \<Longrightarrow> \<exists>s'. unlock s = Inr s' \<and> count s' = Some (Suc n)"
begin

lemma run_iff:
  "count s = Some n \<Longrightarrow> n \<le> SEM_VALUE_MAX \<Longrightarrow>
     (\<exists>s'. run_sem lock unlock as s = Inr s') \<longleftrightarrow>
     (\<forall>c \<in> set (counts_from (int n) as). 0 \<le> c \<and> c \<le> int SEM_VALUE_MAX)"
proof (induction as arbitrary: s n)
  case (Cons a as)
  have head: "m \<in> set (counts_from m bs)" for m bs by (cases bs) auto
  show ?case
  proof (cases a)
    case Wait
    show ?thesis
    proof (cases n)
      case 0
      with Cons.prems lock_zero head[of "-1" as] Wait show ?thesis by (simp add: weight_def) force
    next
      case (Suc m)
      with Cons.prems lock_some obtain s' where "lock s = Inr s'" "count s' = Some m" by blast
      with Cons.IH[of s' m] Cons.prems Wait Suc show ?thesis by (simp add: weight_def)
    qed
  next
    case Post
    show ?thesis
    proof (cases "n = SEM_VALUE_MAX")
      case True
      with Cons.prems unlock_max head[of "int n + 1" as] Post show ?thesis by (simp add: weight_def) force
    next
      case False
      with Cons.prems have "n < SEM_VALUE_MAX" by simp
      with Cons.prems unlock_some obtain s' where "unlock s = Inr s'" "count s' = Some (Suc n)" by blast
      with Cons.IH[of s' "Suc n"] Cons.prems Post False show ?thesis by (simp add: weight_def add.commute)
    qed
  qed
qed simp

lemma run_count:
  "count s = Some n \<Longrightarrow> n \<le> SEM_VALUE_MAX \<Longrightarrow> run_sem lock unlock as s = Inr s' \<Longrightarrow>
     \<exists>m \<le> SEM_VALUE_MAX. count s' = Some m \<and> int m = int n + sum_list (map weight as)"
proof (induction as arbitrary: s n)
  case (Cons a as)
  show ?case
  proof (cases a)
    case Wait
    with Cons.prems lock_zero obtain m where n: "n = Suc m" by (cases n) auto
    with Cons.prems lock_some obtain s1 where "lock s = Inr s1" "count s1 = Some m" by blast
    with Cons.IH[of s1 m] Cons.prems Wait n show ?thesis by (auto simp: weight_def)
  next
    case Post
    with Cons.prems unlock_max have "n < SEM_VALUE_MAX" by (cases "n = SEM_VALUE_MAX") auto
    with Cons.prems unlock_some obtain s1 where "unlock s = Inr s1" "count s1 = Some (Suc n)" by blast
    with Cons.IH[of s1 "Suc n"] Cons.prems Post \<open>n < SEM_VALUE_MAX\<close> show ?thesis
      by (auto simp: weight_def)
  qed
qed auto

end

interpretation sm: counting Semaphore_lock Semaphore_unlock Some
  by unfold_locales (auto simp: Semaphore_lock_def Semaphore_unlock_def sem_wait_def sem_post_def)

interpretation nsm: counting "NamedSemaphore_lock name" "NamedSemaphore_unlock name"
    "\<lambda>ss. map_of (semaphores ss) name" for name
  by unfold_locales
    (auto simp: NamedSemaphore_lock_def NamedSemaphore_unlock_def on_semaphore_def sem_wait_def sem_post_def umap_simps)

text \<open>The rule rewrites under an abstraction too; outside this theory it is given by name.\<close>

declare willing_simps [simp del]

subsection \<open>Properties\<close>

definition queue_absent :: "queue_names \<Rightarrow> shm_space \<Rightarrow> bool" where
  "queue_absent q ss \<longleftrightarrow> (\<forall>m \<in> queue_objects q. map_of (shm_objects ss) m = None) \<and>
     (\<forall>m \<in> queue_semaphores q. map_of (semaphores ss) m = None)"

text \<open>Rings come and go without a trace: where none of its objects exists, the constructor makes all of
  them; a second constructor with the same names, in another process, finds them and changes none;
  and the destructor leaves every named object as it was before the first constructor.\<close>

theorem ring_objects_restored:
  assumes "queue_absent (queue_names_of w n) ss"
  shows "\<exists>ss1 ss2 ss3. queue_open willing w n max_num es ss = Inr (queue_names_of w n, ss1) \<and>
    queue_present (queue_names_of w n) ss1 \<and>
    queue_open willing w n max_num es ss1 = Inr (queue_names_of w n, ss2) \<and> same_objects ss1 ss2 \<and>
    queue_close willing (queue_names_of w n) ss2 = Inr ss3 \<and> same_objects ss ss3"
proof -
  let ?q = "queue_names_of w n"
  from queue_open_total[of w n max_num es ss] obtain ss1 where
    o1: "queue_open willing w n max_num es ss = Inr (?q, ss1)" "queue_present ?q ss1"
      "\<forall>m. m \<notin> queue_objects ?q \<longrightarrow> map_of (shm_objects ss1) m = map_of (shm_objects ss) m"
      "\<forall>m. m \<notin> queue_semaphores ?q \<longrightarrow> map_of (semaphores ss1) m = map_of (semaphores ss) m" by blast
  from queue_open_present[OF o1(2)] obtain ss2 where
    o2: "queue_open willing w n max_num es ss1 = Inr (?q, ss2)" "same_objects ss1 ss2" by blast
  then have "queue_present ?q ss2" using o1(2) by (simp add: queue_present_def same_objects_def)
  from queue_close_total[OF this] obtain ss3 where
    o3: "queue_close willing ?q ss2 = Inr ss3"
      "\<forall>m. map_of (shm_objects ss3) m = (if m \<in> queue_objects ?q then None else map_of (shm_objects ss2) m)"
      "\<forall>m. map_of (semaphores ss3) m = (if m \<in> queue_semaphores ?q then None else map_of (semaphores ss2) m)"
    by blast
  have "same_objects ss ss3"
    using o1(3,4) o2(2) o3(2,3) assms unfolding same_objects_def queue_absent_def by auto
  with o1 o2 o3 show ?thesis by blast
qed

definition no_shm :: shm_space where
  "no_shm = \<lparr>shm_objects = [], shm_mapped = [], semaphores = []\<rparr>"

lemma ring_objects_restored_witness:
  "\<exists>ss1 ss2 ss3. queue_open willing ''CAPIO'' ''request_buffer'' 512 256 no_shm =
       Inr (queue_names_of ''CAPIO'' ''request_buffer'', ss1) \<and>
     queue_open willing ''CAPIO'' ''request_buffer'' 512 256 ss1 =
       Inr (queue_names_of ''CAPIO'' ''request_buffer'', ss2) \<and> same_objects ss1 ss2 \<and>
     queue_close willing (queue_names_of ''CAPIO'' ''request_buffer'') ss2 = Inr ss3 \<and> same_objects no_shm ss3"
  using ring_objects_restored[of "''CAPIO''" "''request_buffer''" no_shm 512 256]
  by (auto simp: queue_absent_def no_shm_def)

text \<open>The count of a named semaphore is exact and bounded: a sequence of \<open>lock\<close> and \<open>unlock\<close> runs through,
  without blocking and without an error, if and only if the count stays between zero and the largest
  value after every step, and then it has moved by the difference.\<close>

theorem semaphore_within_bounds:
  assumes "map_of (semaphores ss) name = Some n" and "n \<le> SEM_VALUE_MAX"
  shows "((\<exists>ss'. run_sem (NamedSemaphore_lock name) (NamedSemaphore_unlock name) as ss = Inr ss') \<longleftrightarrow>
      (\<forall>c \<in> set (counts_from (int n) as). 0 \<le> c \<and> c \<le> int SEM_VALUE_MAX)) \<and>
    (\<forall>ss'. run_sem (NamedSemaphore_lock name) (NamedSemaphore_unlock name) as ss = Inr ss' \<longrightarrow>
      (\<exists>m \<le> SEM_VALUE_MAX. map_of (semaphores ss') name = Some m \<and> int m = int n + sum_list (map weight as)))"
  using nsm.run_iff[OF assms] nsm.run_count[OF assms] by blast

lemma semaphore_within_bounds_witness:
  "(\<nexists>ss'. run_sem (NamedSemaphore_lock ''m'') (NamedSemaphore_unlock ''m'') [Wait, Wait]
      (no_shm\<lparr>semaphores := [(''m'', 1)]\<rparr>) = Inr ss') \<and>
   (\<exists>ss'. run_sem (NamedSemaphore_lock ''m'') (NamedSemaphore_unlock ''m'') [Wait, Post, Wait]
      (no_shm\<lparr>semaphores := [(''m'', 1)]\<rparr>) = Inr ss')"
  using semaphore_within_bounds[of "no_shm\<lparr>semaphores := [(''m'', 1)]\<rparr>" "''m''" 1 "[Wait, Wait]"]
    semaphore_within_bounds[of "no_shm\<lparr>semaphores := [(''m'', 1)]\<rparr>" "''m''" 1 "[Wait, Post, Wait]"]
  by (simp add: weight_def SEM_VALUE_MAX_def)

end
