(* ===== verification/Snapshot.thy ===== *)
theory Snapshot
  imports PosixHandlers SharedMemory
begin

text \<open>
  \<open>src/posix/utils/snapshot.hpp\<close>: before an \<open>execve\<close> the descriptor tables are copied into named
  shared memory objects, and the library loaded into the new program is to read them back. Reading
  through a pointer whose object has been unmapped is undefined behaviour.
\<close>

definition snapshot_name :: "tid \<Rightarrow> string" where
  "snapshot_name t = ''capio_snapshot_'' @ show_int t"

definition snapshot_fd_name :: "tid \<Rightarrow> fd \<Rightarrow> string" where
  "snapshot_fd_name t d = ''capio_snapshot_'' @ show_int t @ ''_'' @ show_int d"

definition snapshot_path_name :: "tid \<Rightarrow> fd \<Rightarrow> string" where
  "snapshot_path_name t d = ''capio_snapshot_path_'' @ show_int t @ ''_'' @ show_int d"

subsection \<open>Taking the snapshot\<close>

text \<open>\<open>strcpy\<close> of a path that does not fit writes past the object.\<close>

fun snapshot_fds :: "refusals \<Rightarrow> tid \<Rightarrow> fd_tables \<Rightarrow> fd list \<Rightarrow> shm_space \<Rightarrow> shm_space res" where
  "snapshot_fds k t T [] ss = Inr ss"
| "snapshot_fds k t T (d # ds) ss =
     rbind (create_shm k (snapshot_fd_name t d) 24 ss) (\<lambda>ss1.
     rbind (get_capio_fd_offset d T) (\<lambda>off.
     rbind (get_capio_fd_cloexec d T) (\<lambda>cloexec.
     rbind (shm_store (snapshot_fd_name t d) (Numbers [word_of_int d, off, of_bool cloexec]) ss1) (\<lambda>ss2.
     rbind (create_shm k (snapshot_path_name t d) PATH_MAX ss2) (\<lambda>ss3.
     rbind (get_capio_fd_path d T) (\<lambda>path.
       if PATH_MAX \<le> length path then Inl Undefined
       else rbind (shm_store (snapshot_path_name t d) (Path path) ss3) (snapshot_fds k t T ds)))))))"

text \<open>The list of descriptors is written one by one; here at once, when it is complete.\<close>

definition create_snapshot :: "refusals \<Rightarrow> tid \<Rightarrow> fd_tables \<Rightarrow> shm_space \<Rightarrow> shm_space res" where
  "create_snapshot k t T ss =
     (let fds = get_capio_fds T
      in if fds = [] then Inr ss
         else rbind (create_shm k (snapshot_name t) (4 * (length fds + 1)) ss) (\<lambda>ss1.
              rbind (snapshot_fds k t T fds ss1) (\<lambda>ss2.
                shm_store (snapshot_name t) (Fds (fds @ [-1])) ss2)))"

definition execve_handler :: "refusals \<Rightarrow> tid \<Rightarrow> client \<Rightarrow> shm_space \<Rightarrow> (outcome \<times> shm_space) res" where
  "execve_handler k t c ss =
     rbind (create_snapshot k t (cl_tables c) ss) (\<lambda>ss'. Inr ((CAPIO_POSIX_SYSCALL_SKIP, None, c), ss'))"

subsection \<open>Reading it back\<close>

text \<open>\<open>path_shm\<close> is unmapped as soon as it has been mapped, and read when the descriptor is added.\<close>

definition restore_fd :: "refusals \<Rightarrow> tid \<Rightarrow> fd \<Rightarrow> fd_tables \<times> shm_space \<Rightarrow> (fd_tables \<times> shm_space) res" where
  "restore_fd k t d = (\<lambda>(T, ss).
     rbind (get_shm k (snapshot_path_name t d) ss) (\<lambda>ss1.
     rbind (munmap k (snapshot_path_name t d) ss1) (\<lambda>ss2.
     rbind (shm_unlink k (snapshot_path_name t d) ss2) (\<lambda>ss3.
     rbind (get_shm k (snapshot_fd_name t d) ss3) (\<lambda>ss4.
     rbind (shm_load (snapshot_path_name t d) ss4) (\<lambda>path_shm.
     rbind (shm_load (snapshot_fd_name t d) ss4) (\<lambda>p_shm.
       case (path_shm, p_shm) of
         (Path path, Numbers [_, off, cloexec]) \<Rightarrow>
           rbind (add_capio_fd path d off (cloexec \<noteq> 0) T) (\<lambda>T'.
           rbind (munmap k (snapshot_fd_name t d) ss4) (\<lambda>ss5.
           rbind (shm_unlink k (snapshot_fd_name t d) ss5) (\<lambda>ss6.
             Inr (T', ss6))))
       | _ \<Rightarrow> Inl Undefined)))))))"

fun restore_fds :: "refusals \<Rightarrow> tid \<Rightarrow> int list \<Rightarrow> fd_tables \<times> shm_space \<Rightarrow> (fd_tables \<times> shm_space) res" where
  "restore_fds k t [] st = Inl Undefined"
| "restore_fds k t (d # ds) st =
     (if d = -1 then Inr st else rbind (restore_fd k t d st) (restore_fds k t ds))"

definition get_fd_snapshot :: "refusals \<Rightarrow> tid \<Rightarrow> shm_space \<Rightarrow> (bool \<times> shm_space) res" where
  "get_fd_snapshot k t ss = get_shm_if_exist k (snapshot_name t) ss"

definition initialize_from_snapshot ::
    "refusals \<Rightarrow> tid \<Rightarrow> fd_tables \<times> shm_space \<Rightarrow> (fd_tables \<times> shm_space) res" where
  "initialize_from_snapshot k t = (\<lambda>(T, ss).
     rbind (shm_load (snapshot_name t) ss) (\<lambda>fd_shm.
       case fd_shm of
         Fds ds \<Rightarrow> rbind (restore_fds k t ds (T, ss)) (\<lambda>(T', ss').
           rbind (shm_unlink k (snapshot_name t) ss') (\<lambda>ss''. Inr (T', ss'')))
       | _ \<Rightarrow> Inl Undefined))"

subsection \<open>The names are different\<close>

lemma show_int_inj: "show_int i = show_int j \<Longrightarrow> i = j"
  using scan_int_show_int[of "[]" i] scan_int_show_int[of "[]" j] by (simp add: no_digit_next_def)

lemma digit_char_not_p: "d < 10 \<Longrightarrow> digit_char d \<noteq> CHR ''p''"
  by (simp add: digit_char_def digits_def less_Suc_eq numeral_eq_Suc) (auto simp: less_Suc_eq)

lemma hd_show_nat_not_p: "hd (show_nat n) \<noteq> CHR ''p''"
proof -
  have "hd (show_nat n) \<in> set (show_nat n)" by (simp add: hd_in_set)
  from show_nat_digits[OF this] digit_char_not_p show ?thesis by metis
qed

lemma show_int_not_p: "show_int t @ xs \<noteq> CHR ''p'' # ys"
  using hd_show_nat_not_p[of "nat t"]
  by (cases "show_nat (nat t)") (auto simp: show_int_def)

lemma names_distinct [simp]:
  "snapshot_path_name t d = snapshot_path_name t e \<longleftrightarrow> d = e"
  "snapshot_fd_name t d = snapshot_fd_name t e \<longleftrightarrow> d = e"
  "snapshot_path_name t d \<noteq> snapshot_fd_name t e" "snapshot_fd_name t e \<noteq> snapshot_path_name t d"
  "snapshot_path_name t d \<noteq> snapshot_name t" "snapshot_name t \<noteq> snapshot_path_name t d"
  "snapshot_fd_name t d \<noteq> snapshot_name t" "snapshot_name t \<noteq> snapshot_fd_name t d"
  using show_int_not_p[of t "''_'' @ show_int e"] show_int_not_p[of t "[]"]
    not_sym[OF show_int_not_p[of t "''_'' @ show_int e"]] not_sym[OF show_int_not_p[of t "[]"]]
  by (auto simp: snapshot_path_name_def snapshot_fd_name_def snapshot_name_def dest: show_int_inj)

subsection \<open>What the snapshot holds\<close>

definition content :: "shm_space \<Rightarrow> string \<Rightarrow> shm_content option" where
  "content ss n = map_option so_content (map_of (shm_objects ss) n)"

definition described :: "tid \<Rightarrow> fd_tables \<Rightarrow> shm_space \<Rightarrow> fd \<Rightarrow> bool" where
  "described t T ss d \<longleftrightarrow> (\<exists>path off cloexec. get_capio_fd_path d T = Inr path \<and>
     get_capio_fd_offset d T = Inr off \<and> get_capio_fd_cloexec d T = Inr cloexec \<and>
     content ss (snapshot_path_name t d) = Some (Path path) \<and>
     content ss (snapshot_fd_name t d) = Some (Numbers [word_of_int d, off, of_bool cloexec]))"

lemma create_then_store:
  "\<exists>ss1. create_shm willing n sz ss = Inr ss1 \<and> n \<in> set (shm_mapped ss1) \<and> map_of (shm_objects ss1) n \<noteq> None \<and>
     (\<forall>m. m \<noteq> n \<longrightarrow> content ss1 m = content ss m) \<and> set (shm_mapped ss) \<subseteq> set (shm_mapped ss1)"
  by (auto simp: create_shm_def Let_def content_def umap_simps willing_simps)

lemma store_content:
  "n \<in> set (shm_mapped ss) \<Longrightarrow> map_of (shm_objects ss) n \<noteq> None \<Longrightarrow>
     \<exists>ss1. shm_store n v ss = Inr ss1 \<and> shm_mapped ss1 = shm_mapped ss \<and>
       (\<forall>m. content ss1 m = (if m = n then Some v else content ss m))"
  by (auto simp: shm_store_def content_def umap_simps)

lemma content_object: "content ss n = Some v \<longleftrightarrow> (\<exists>ob. map_of (shm_objects ss) n = Some ob \<and> so_content ob = v)"
  by (auto simp: content_def)

lemma content_some: "map_of (shm_objects ss) n \<noteq> None \<longleftrightarrow> content ss n \<noteq> None"
  by (simp add: content_def)

lemma create_store:
  "\<exists>ss1 ss2. create_shm willing n sz ss = Inr ss1 \<and> shm_store n v ss1 = Inr ss2 \<and>
     set (shm_mapped ss) \<subseteq> set (shm_mapped ss2) \<and>
     (\<forall>m. content ss2 m = (if m = n then Some v else content ss m))"
proof -
  from create_then_store[of n sz ss] obtain ss1 where
    1: "create_shm willing n sz ss = Inr ss1" "n \<in> set (shm_mapped ss1)" "map_of (shm_objects ss1) n \<noteq> None"
      "\<forall>m. m \<noteq> n \<longrightarrow> content ss1 m = content ss m" "set (shm_mapped ss) \<subseteq> set (shm_mapped ss1)" by blast
  from store_content[OF 1(2,3), of v] 1 show ?thesis by auto
qed

text \<open>The snapshot succeeds where nothing is refused, every descriptor is in the tables and its path fits.\<close>

lemma snapshot_fds_describe:
  "\<forall>d \<in> set ds. exists_capio_fd d T \<and> (\<exists>p. get_capio_fd_path d T = Inr p \<and> length p < PATH_MAX) \<Longrightarrow>
     \<exists>ss'. snapshot_fds willing t T ds ss = Inr ss' \<and> set (shm_mapped ss) \<subseteq> set (shm_mapped ss') \<and>
       (\<forall>d. d \<in> set ds \<or> described t T ss d \<longrightarrow> described t T ss' d) \<and>
       content ss' (snapshot_name t) = content ss (snapshot_name t)"
proof (induction ds arbitrary: ss)
  case (Cons d ds)
  then obtain i path where "map_of (files T) d = Some i"
    and p: "get_capio_fd_path d T = Inr path" "length path < PATH_MAX"
    by (auto simp: exists_capio_fd_def)
  then obtain off cloexec where v: "get_capio_fd_offset d T = Inr off" "get_capio_fd_cloexec d T = Inr cloexec"
    by (auto simp: get_capio_fd_offset_def get_capio_fd_cloexec_def)
  let ?nums = "Numbers [word_of_int d, off, of_bool cloexec]"
  from create_store[of "snapshot_fd_name t d" 24 ss ?nums] obtain ss1 ss2 where
    1: "create_shm willing (snapshot_fd_name t d) 24 ss = Inr ss1"
      "shm_store (snapshot_fd_name t d) ?nums ss1 = Inr ss2" "set (shm_mapped ss) \<subseteq> set (shm_mapped ss2)"
      "\<forall>m. content ss2 m = (if m = snapshot_fd_name t d then Some ?nums else content ss m)" by blast
  from create_store[of "snapshot_path_name t d" PATH_MAX ss2 "Path path"] obtain ss3 ss4 where
    2: "create_shm willing (snapshot_path_name t d) PATH_MAX ss2 = Inr ss3"
      "shm_store (snapshot_path_name t d) (Path path) ss3 = Inr ss4" "set (shm_mapped ss2) \<subseteq> set (shm_mapped ss4)"
      "\<forall>m. content ss4 m = (if m = snapshot_path_name t d then Some (Path path) else content ss2 m)" by blast
  have new: "described t T ss4 d" using v p 1(4) 2(4) by (simp add: described_def)
  have old: "described t T ss4 e" if "described t T ss e" for e
    using that v p 1(4) 2(4) by (cases "e = d") (auto simp: described_def)
  have "\<forall>d \<in> set ds. exists_capio_fd d T \<and> (\<exists>p. get_capio_fd_path d T = Inr p \<and> length p < PATH_MAX)"
    using Cons.prems by simp
  from Cons.IH[OF this, of ss4] obtain ss' where
    3: "snapshot_fds willing t T ds ss4 = Inr ss'" "set (shm_mapped ss4) \<subseteq> set (shm_mapped ss')"
      "\<forall>d. d \<in> set ds \<or> described t T ss4 d \<longrightarrow> described t T ss' d"
      "content ss' (snapshot_name t) = content ss4 (snapshot_name t)" by blast
  have "snapshot_fds willing t T (d # ds) ss = Inr ss'"
    using v p 1(1,2) 2(1,2) 3(1) by (simp add: not_le)
  moreover have "content ss' (snapshot_name t) = content ss (snapshot_name t)"
    using 1(4) 2(4) 3(4) by simp
  ultimately show ?case using new old 1(3) 2(3) 3(2,3) by auto
qed simp

lemma known_in_snapshot: "exists_capio_fd d T \<longleftrightarrow> d \<in> set (get_capio_fds T)"
  by (auto simp: exists_capio_fd_def get_capio_fds_def map_of_eq_None_iff)

definition short_paths :: "fd_tables \<Rightarrow> bool" where
  "short_paths T \<longleftrightarrow> (\<forall>d p. get_capio_fd_path d T = Inr p \<longrightarrow> length p < PATH_MAX)"

lemma create_snapshot_describes:
  assumes "fd_wf T" and "short_paths T" and "get_capio_fds T \<noteq> []"
  shows "\<exists>ss'. create_snapshot willing t T ss = Inr ss' \<and>
    content ss' (snapshot_name t) = Some (Fds (get_capio_fds T @ [-1])) \<and>
    (\<forall>d \<in> set (get_capio_fds T). described t T ss' d)"
proof -
  let ?fds = "get_capio_fds T"
  have known: "\<forall>d \<in> set ?fds. exists_capio_fd d T \<and> (\<exists>p. get_capio_fd_path d T = Inr p \<and> length p < PATH_MAX)"
  proof
    fix d assume "d \<in> set ?fds"
    then have e: "exists_capio_fd d T" by (simp add: known_in_snapshot)
    with fd_wfD(1)[OF assms(1), of d] obtain p where "get_capio_fd_path d T = Inr p"
      by (cases "map_of (capio_files_descriptors T) d") (auto simp: exists_capio_fd_def get_capio_fd_path_def)
    with e assms(2) show "exists_capio_fd d T \<and> (\<exists>p. get_capio_fd_path d T = Inr p \<and> length p < PATH_MAX)"
      by (auto simp: short_paths_def)
  qed
  from create_then_store[of "snapshot_name t" "4 * (length ?fds + 1)" ss] obtain ss1 where
    1: "create_shm willing (snapshot_name t) (4 * (length ?fds + 1)) ss = Inr ss1"
      "snapshot_name t \<in> set (shm_mapped ss1)" "map_of (shm_objects ss1) (snapshot_name t) \<noteq> None" by blast
  from snapshot_fds_describe[OF known, of t ss1] obtain ss2 where
    2: "snapshot_fds willing t T ?fds ss1 = Inr ss2" "set (shm_mapped ss1) \<subseteq> set (shm_mapped ss2)"
      "\<forall>d \<in> set ?fds. described t T ss2 d"
      "content ss2 (snapshot_name t) = content ss1 (snapshot_name t)" by blast
  have "map_of (shm_objects ss2) (snapshot_name t) \<noteq> None" using 1(3) 2(4) unfolding content_some by simp
  with store_content[of "snapshot_name t" ss2 "Fds (?fds @ [-1])"] 1(2) 2(2) obtain ss' where
    3: "shm_store (snapshot_name t) (Fds (?fds @ [-1])) ss2 = Inr ss'"
      "\<forall>m. content ss' m = (if m = snapshot_name t then Some (Fds (?fds @ [-1])) else content ss2 m)" by blast
  have "\<forall>d \<in> set ?fds. described t T ss' d" using 2(3) 3(2) by (auto simp: described_def)
  with 1(1) 2(1) 3 assms(3) show ?thesis by (simp add: create_snapshot_def Let_def)
qed

text \<open>The first descriptor of the list is enough for the new program to read unmapped memory.\<close>

lemma restore_fd_undefined:
  assumes "content ss (snapshot_path_name t d) = Some v" and "content ss (snapshot_fd_name t d) = Some w"
  shows "restore_fd willing t d (T, ss) = Inl Undefined"
  using assms
  by (auto simp: restore_fd_def get_shm_def munmap_def shm_unlink_def shm_unlink_fails_def unlinked_def
      shm_load_def content_def map_object_def umap_simps willing_simps)

subsection \<open>Properties\<close>

text \<open>C32: The snapshot taken before an \<open>execve\<close> lists every descriptor of the tables, those with
  close-on-exec included, ended by \<open>-1\<close>, and holds the path, the offset and the flag of each under
  names of its own.\<close>

theorem snapshot_describes_descriptors:
  assumes "fd_wf (cl_tables c)" and "short_paths (cl_tables c)" and "get_capio_fds (cl_tables c) \<noteq> []"
  shows "\<exists>ss'. execve_handler willing t c ss = Inr ((CAPIO_POSIX_SYSCALL_SKIP, None, c), ss') \<and>
    content ss' (snapshot_name t) = Some (Fds (get_capio_fds (cl_tables c) @ [-1])) \<and>
    (\<forall>d. exists_capio_fd d (cl_tables c) \<longrightarrow>
      d \<in> set (get_capio_fds (cl_tables c)) \<and> described t (cl_tables c) ss' d)"
  using create_snapshot_describes[OF assms, of t ss] by (auto simp: execve_handler_def known_in_snapshot)

definition two_fds_client :: client where
  "two_fds_client = fresh_client\<lparr>cl_tables := two_fds\<rparr>"

lemma two_fds_client_ok:
  "fd_wf (cl_tables two_fds_client)" "short_paths (cl_tables two_fds_client)"
  "get_capio_fds (cl_tables two_fds_client) = [3, 4]"
  using fd_runs_wf[OF two_fds_runs]
  by (auto simp: two_fds_client_def short_paths_def get_capio_fd_path_def get_capio_fds_def two_fds_def
      PATH_MAX_def split: if_splits)

lemma snapshot_describes_descriptors_witness:
  "\<exists>ss'. execve_handler willing 9 two_fds_client no_shm = Inr ((CAPIO_POSIX_SYSCALL_SKIP, None, two_fds_client), ss') \<and>
     content ss' (snapshot_name 9) = Some (Fds [3, 4, -1]) \<and>
     content ss' (snapshot_path_name 9 4) = Some (Path ''/d/b'')"
proof -
  have p: "get_capio_fd_path 4 (cl_tables two_fds_client) = Inr ''/d/b''" "exists_capio_fd 4 (cl_tables two_fds_client)"
    by (simp_all add: get_capio_fd_path_def two_fds_client_def two_fds_def exists_capio_fd_def)
  with snapshot_describes_descriptors[OF two_fds_client_ok(1,2), of 9 no_shm] two_fds_client_ok(3)
  show ?thesis by (auto simp: described_def)
qed

end
