(* ===== verification/Threads.thy ===== *)
theory Threads
  imports PosixHandlers
begin

text \<open>
  The threads of a process (\<open>src/posix/utils/clone.hpp\<close>): the hook of the interception library in
  the parent announces a new thread to the server and then registers it, the hook in the child waits
  on a condition variable until its thread id is registered and then makes the caches of the thread,
  which are thread local. A step relation interleaves the calls of the parents' hooks, the hooks of the
  children and the exits of any number of threads. The caches in \<open>th_client\<close> are those of the thread
  whose call is being made.
\<close>

text \<open>What is left of \<open>hook_clone_parent\<close>: its calls in the order of the source.\<close>

datatype parent_call = Init_process tid | Register_capio_tid tid

definition hook_clone_parent :: "int \<Rightarrow> parent_call list" where
  "hook_clone_parent child_tid =
     (if child_tid < 0 then [] else [Init_process child_tid, Register_capio_tid child_tid])"

fun parent_does :: "client_env \<Rightarrow> tid \<Rightarrow> parent_call \<Rightarrow> client \<Rightarrow> client res" where
  "parent_does ce parent_tid (Init_process t) c = init_process ce parent_tid t c"
| "parent_does ce parent_tid (Register_capio_tid t) c = Inr (register_capio_tid t c)"

record threads =
  th_client :: client
  th_parents :: "(tid, parent_call list) umap"            \<comment> \<open>inside \<open>hook_clone_parent\<close>, or done with it\<close>
  th_waiting :: "tid list"                                \<comment> \<open>inside \<open>clone_cv.wait\<close>\<close>
  th_caches :: "(tid, write_cache \<times> read_cache) umap"

definition parent_enter :: "tid \<Rightarrow> int \<Rightarrow> threads \<Rightarrow> threads" where
  "parent_enter p child_tid s = s\<lparr>th_parents := AList.update p (hook_clone_parent child_tid) (th_parents s)\<rparr>"

definition parent_goes_on :: "client_env \<Rightarrow> tid \<Rightarrow> threads \<Rightarrow> threads res" where
  "parent_goes_on ce p s =
     (case map_of (th_parents s) p of
        Some (x # xs) \<Rightarrow>
          rbind (parent_does ce p x (th_client s)) (\<lambda>c.
            Inr (s\<lparr>th_client := c, th_parents := AList.update p xs (th_parents s)\<rparr>))
      | _ \<Rightarrow> Inr s)"

text \<open>\<open>hook_clone_child\<close> up to the wait, and from the moment its condition holds.\<close>

definition hook_clone_child_enter :: "tid \<Rightarrow> threads \<Rightarrow> threads" where
  "hook_clone_child_enter t s = s\<lparr>th_waiting := th_waiting s @ [t]\<rparr>"

definition hook_clone_child_resume :: "tid \<Rightarrow> threads \<Rightarrow> threads option" where
  "hook_clone_child_resume t s =
     (if t \<in> set (th_waiting s) \<and> is_capio_tid t (th_client s)
      then Some (s\<lparr>th_waiting := removeAll t (th_waiting s),
                   th_caches := AList.update t (new_write_cache, new_read_cache) (th_caches s)\<rparr>)
      else None)"

text \<open>
  A call of a thread with its own caches. A thread that never went through the hook has null pointers
  for them: using them is undefined, and deleting them, on its exit, does nothing.
\<close>

definition with_caches :: "tid \<Rightarrow> (client \<Rightarrow> outcome res) \<Rightarrow> threads \<Rightarrow> threads res" where
  "with_caches t f s =
     (case map_of (th_caches s) t of
        None \<Rightarrow> Inl Undefined
      | Some (w, r) \<Rightarrow>
          rbind (f ((th_client s)\<lparr>cl_wcache := w, cl_rcache := r\<rparr>)) (\<lambda>(_, _, c).
            Inr (s\<lparr>th_client := c, th_caches := AList.update t (cl_wcache c, cl_rcache c) (th_caches s)\<rparr>)))"

definition thread_exit :: "tid \<Rightarrow> threads \<Rightarrow> threads res" where
  "thread_exit t s =
     (case map_of (th_caches s) t of
        None \<Rightarrow> if is_capio_tid t (th_client s) then Inl Undefined else Inr s
      | Some (w, r) \<Rightarrow>
          rbind (posix_exit_handler t ((th_client s)\<lparr>cl_wcache := w, cl_rcache := r\<rparr>)) (\<lambda>(_, _, c).
            Inr (s\<lparr>th_client := c, th_caches := AList.delete t (th_caches s)\<rparr>)))"

text \<open>A thread is in one hook at a time.\<close>

inductive clone_step :: "client_env \<Rightarrow> threads \<Rightarrow> threads \<Rightarrow> bool" for ce where
  clones: "map_of (th_parents s) p \<in> {None, Some []} \<Longrightarrow> clone_step ce s (parent_enter p child_tid s)"
| parent: "parent_goes_on ce p s = Inr s' \<Longrightarrow> clone_step ce s s'"
| enter: "clone_step ce s (hook_clone_child_enter t s)"
| resume: "hook_clone_child_resume t s = Some s' \<Longrightarrow> clone_step ce s s'"
| exits: "thread_exit t s = Inr s' \<Longrightarrow> clone_step ce s s'"

text \<open>The first thread \<open>t\<close> of a process, after the start of the library.\<close>

definition threads_of :: "tid \<Rightarrow> client \<Rightarrow> threads" where
  "threads_of t c =
     \<lparr>th_client = c, th_parents = [], th_waiting = [], th_caches = [(t, cl_wcache c, cl_rcache c)]\<rparr>"

subsection \<open>A registered thread is known to the server\<close>

definition announced :: "client_env \<Rightarrow> client \<Rightarrow> tid \<Rightarrow> bool" where
  "announced ce c t \<longleftrightarrow> t \<in> set (cl_listening c) \<and>
     (\<exists>pid. HandshakeNamed t pid (ce_app_name ce) \<in> set (cl_sent c))"

text \<open>A parent stands before its hook, inside it, or behind it; it registers only whom it has announced.\<close>

definition parent_at :: "client_env \<Rightarrow> client \<Rightarrow> parent_call list \<Rightarrow> bool" where
  "parent_at ce c xs \<longleftrightarrow> xs = [] \<or>
     (\<exists>t. xs = [Init_process t, Register_capio_tid t] \<or> xs = [Register_capio_tid t] \<and> announced ce c t)"

definition threads_ok :: "client_env \<Rightarrow> threads \<Rightarrow> bool" where
  "threads_ok ce s \<longleftrightarrow> (\<forall>t \<in> set (cl_tids (th_client s)). announced ce (th_client s) t) \<and>
     (\<forall>t. map_of (th_caches s) t \<noteq> None \<longrightarrow> announced ce (th_client s) t) \<and>
     (\<forall>p xs. map_of (th_parents s) p = Some xs \<longrightarrow> parent_at ce (th_client s) xs)"

text \<open>What a client has sent and whom it listens for only grows.\<close>

definition grows :: "client \<Rightarrow> client \<Rightarrow> bool" where
  "grows c c' \<longleftrightarrow> set (cl_listening c) \<subseteq> set (cl_listening c') \<and> set (cl_sent c) \<subseteq> set (cl_sent c')"

lemma announced_grows: "announced ce c t \<Longrightarrow> grows c c' \<Longrightarrow> announced ce c' t"
  unfolding announced_def grows_def by blast

lemma parent_at_grows: "parent_at ce c xs \<Longrightarrow> grows c c' \<Longrightarrow> parent_at ce c' xs"
  unfolding parent_at_def by (blast intro: announced_grows)

lemma send_grows: "send m c = Inr c' \<Longrightarrow> grows c c' \<and> cl_tids c' = cl_tids c"
  by (auto simp: send_Inr grows_def)

lemma grows_trans: "grows a b \<Longrightarrow> grows b c \<Longrightarrow> grows a c"
  unfolding grows_def by blast

lemma grows_caches [simp]: "grows (c\<lparr>cl_wcache := w\<rparr>) c' = grows c c'" "grows c (c'\<lparr>cl_wcache := w\<rparr>) = grows c c'"
  "grows (c\<lparr>cl_wcache := w, cl_rcache := r\<rparr>) c' = grows c c'" "grows c c"
  by (simp_all add: grows_def)

lemma flush_grows: "flush t c = Inr c' \<Longrightarrow> grows c c' \<and> cl_tids c' = cl_tids c"
  by (auto simp: flush_def send_write_request_def res_simps dest!: send_grows split: if_splits)

lemma exit_request_grows: "exit_group_request t c = Inr c' \<Longrightarrow> grows c c' \<and> cl_tids c' = cl_tids c"
  by (auto simp: exit_group_request_def res_simps dest!: flush_grows send_grows intro: grows_trans)

lemma exit_handler_grows:
  assumes "posix_exit_handler t c = Inr (r, v, c')"
  shows "grows c c' \<and> set (cl_tids c') \<subseteq> set (cl_tids c)"
proof -
  from assms obtain c1 where
    1: "(if is_capio_tid t c then rbind (exit_group_request t c) (\<lambda>c1. Inr (remove_capio_tid t c1)) else Inr c) = Inr c1"
    and 2: "flush t c1 = Inr c'"
    unfolding posix_exit_handler_def by (auto simp: res_simps)
  from 1 have "grows c c1 \<and> set (cl_tids c1) \<subseteq> set (cl_tids c)"
    by (auto simp: res_simps remove_capio_tid_def grows_def dest!: exit_request_grows split: if_splits)
  with flush_grows[OF 2] show ?thesis by (auto intro: grows_trans)
qed

lemma init_announces:
  assumes "init_process ce p t c = Inr c'"
  shows "grows c c'" "announced ce c' t" "cl_tids c' = cl_tids c"
  using assms
  by (auto simp: init_process_def handshake_named_request_def register_listener_def send_Inr grows_def announced_def)

lemma parent_enter_at: "parent_at ce c (hook_clone_parent t)"
  by (simp add: hook_clone_parent_def parent_at_def)

text \<open>What one call of the hook of a parent does.\<close>

lemma parent_goes_on_cases:
  assumes "parent_goes_on ce p s = Inr s'" and "s' \<noteq> s"
  obtains x xs c where "map_of (th_parents s) p = Some (x # xs)" "parent_does ce p x (th_client s) = Inr c"
    "s' = s\<lparr>th_client := c, th_parents := AList.update p xs (th_parents s)\<rparr>"
  using assms by (auto simp: parent_goes_on_def res_simps split: option.splits list.splits)

lemma thread_exit_changes:
  assumes "thread_exit t s = Inr s'" and "s' \<noteq> s"
  shows "\<exists>w r x y c. posix_exit_handler t ((th_client s)\<lparr>cl_wcache := w, cl_rcache := r\<rparr>) = Inr (x, y, c) \<and>
    s' = s\<lparr>th_client := c, th_caches := AList.delete t (th_caches s)\<rparr>"
proof (cases "map_of (th_caches s) t")
  case None
  with assms show ?thesis by (simp add: thread_exit_def split: if_splits)
next
  case (Some wr)
  obtain w r where wr: "wr = (w, r)" by (cases wr)
  from assms(1) Some wr obtain x y c where
    "posix_exit_handler t ((th_client s)\<lparr>cl_wcache := w, cl_rcache := r\<rparr>) = Inr (x, y, c)"
    "s' = s\<lparr>th_client := c, th_caches := AList.delete t (th_caches s)\<rparr>"
    by (auto simp: thread_exit_def rbind_Inr_iff)
  then show ?thesis by blast
qed

lemma parent_step_ok:
  assumes ok: "threads_ok ce s" and at: "map_of (th_parents s) p = Some (x # xs)"
    and does: "parent_does ce p x (th_client s) = Inr c"
  shows "threads_ok ce (s\<lparr>th_client := c, th_parents := AList.update p xs (th_parents s)\<rparr>)"
proof -
  from ok at have "parent_at ce (th_client s) (x # xs)" unfolding threads_ok_def by blast
  then consider (init) t where "x = Init_process t" "xs = [Register_capio_tid t]"
    | (reg) t where "x = Register_capio_tid t" "xs = []" "announced ce (th_client s) t"
    unfolding parent_at_def by auto
  then show ?thesis
  proof cases
    case init
    with does have i: "init_process ce p t (th_client s) = Inr c" by simp
    note g = init_announces[OF i]
    have "parent_at ce c xs" using init g(2) by (simp add: parent_at_def)
    with ok g show ?thesis
      by (auto simp: threads_ok_def umap_simps intro: announced_grows[OF _ g(1)] parent_at_grows[OF _ g(1)])
  next
    case reg
    with does have c: "c = register_capio_tid t (th_client s)" by simp
    have g: "grows (th_client s) c" by (simp add: c register_capio_tid_def grows_def)
    have "set (cl_tids c) = insert t (set (cl_tids (th_client s)))" by (simp add: c register_capio_tid_def)
    with ok reg g show ?thesis
      by (auto simp: threads_ok_def umap_simps parent_at_def[of _ _ "[]"]
          intro: announced_grows[OF _ g] parent_at_grows[OF _ g])
  qed
qed

lemma clone_step_ok: "clone_step ce s s' \<Longrightarrow> threads_ok ce s \<Longrightarrow> threads_ok ce s'"
proof (induction rule: clone_step.induct)
  case (clones s p t)
  then show ?case by (auto simp: threads_ok_def parent_enter_def umap_simps parent_enter_at)
next
  case (parent p s s')
  show ?case
  proof (cases "s' = s")
    case True
    with parent.prems show ?thesis by simp
  next
    case False
    with parent.hyps show ?thesis
      by (rule parent_goes_on_cases) (use parent.prems parent_step_ok in blast)
  qed
next
  case (enter s t)
  then show ?case by (simp add: threads_ok_def hook_clone_child_enter_def)
next
  case (resume t s s')
  then show ?case
    by (auto simp: threads_ok_def hook_clone_child_resume_def is_capio_tid_def umap_simps split: if_splits)
next
  case (exits t s s')
  show ?case
  proof (cases "s' = s")
    case True
    with exits.prems show ?thesis by simp
  next
    case False
    with thread_exit_changes[OF exits.hyps] obtain w r x y c where
      c: "posix_exit_handler t ((th_client s)\<lparr>cl_wcache := w, cl_rcache := r\<rparr>) = Inr (x, y, c)"
      and s': "s' = s\<lparr>th_client := c, th_caches := AList.delete t (th_caches s)\<rparr>" by blast
    from exit_handler_grows[OF c] have g: "grows (th_client s) c" "set (cl_tids c) \<subseteq> set (cl_tids (th_client s))"
      by simp_all
    with exits.prems s' show ?thesis
      by (auto simp: threads_ok_def umap_simps intro: announced_grows[OF _ g(1)] parent_at_grows[OF _ g(1)])
  qed
qed

lemma threads_reach_ok: "(clone_step ce)\<^sup>*\<^sup>* s0 s \<Longrightarrow> threads_ok ce s0 \<Longrightarrow> threads_ok ce s"
  by (induction rule: rtranclp_induct) (auto intro: clone_step_ok)

text \<open>The last call of the hook of a parent lets the child go on.\<close>

lemma resume_enabled:
  assumes "t \<in> set (th_waiting s)" and "map_of (th_parents s) p = Some [Register_capio_tid t]"
  shows "\<exists>s'. parent_goes_on ce p s = Inr s' \<and> map_of (th_parents s') p = Some [] \<and>
    (\<exists>s''. hook_clone_child_resume t s' = Some s'' \<and> map_of (th_caches s'') t \<noteq> None)"
  using assms
  by (simp add: parent_goes_on_def hook_clone_child_resume_def is_capio_tid_def register_capio_tid_def umap_simps)

subsection \<open>Properties\<close>

text \<open>C29: For every interleaving of the single calls of the hooks in parents, of the hooks in children and of
  exits. A new thread that goes on after its hook has a ring for answers and the server has been told of it.
  A parent that is inside its hook has announced its child before it registers it, never the other way
  round; and its last call, the registration, succeeds and lets the child that waits go on, with caches of
  its own.\<close>

theorem child_waits_for_handshake:
  assumes "(clone_step ce)\<^sup>*\<^sup>* (threads_of t0 c) s" and "t0 \<in> set (cl_tids c)"
    and "\<forall>t \<in> set (cl_tids c). announced ce c t"
  shows "(\<forall>t. map_of (th_caches s) t \<noteq> None \<longrightarrow> announced ce (th_client s) t) \<and>
    (\<forall>p xs. map_of (th_parents s) p = Some xs \<longrightarrow>
      xs = [] \<or> (\<exists>t. xs = [Init_process t, Register_capio_tid t] \<or>
        xs = [Register_capio_tid t] \<and> announced ce (th_client s) t)) \<and>
    (\<forall>p t. t \<in> set (th_waiting s) \<and> map_of (th_parents s) p = Some [Register_capio_tid t] \<longrightarrow>
      (\<exists>s'. parent_goes_on ce p s = Inr s' \<and> map_of (th_parents s') p = Some [] \<and>
        (\<exists>s''. hook_clone_child_resume t s' = Some s'' \<and> map_of (th_caches s'') t \<noteq> None)))"
proof -
  have "threads_ok ce (threads_of t0 c)" using assms(2,3) by (simp add: threads_ok_def threads_of_def)
  with assms(1) have "threads_ok ce s" by (rule threads_reach_ok)
  then show ?thesis unfolding threads_ok_def parent_at_def by (meson resume_enabled)
qed

definition first_client :: client where
  "first_client = fresh_client\<lparr>cl_tids := [7], cl_listening := [7],
     cl_sent := [HandshakeNamed 7 7 (ce_app_name sample_client_env)]\<rparr>"

lemma first_client_announced:
  "7 \<in> set (cl_tids first_client)" "\<forall>t \<in> set (cl_tids first_client). announced sample_client_env first_client t"
  by (auto simp: first_client_def announced_def)

text \<open>Thread 7 makes thread 8, which is in its hook before the server has been told of it.\<close>

lemma child_waits_for_handshake_witness:
  "\<exists>s s' s''. (clone_step sample_client_env)\<^sup>*\<^sup>* (threads_of 7 first_client) s \<and>
     hook_clone_child_resume 8 s = None \<and> announced sample_client_env (th_client s) 8 \<and>
     parent_goes_on sample_client_env 7 s = Inr s' \<and> hook_clone_child_resume 8 s' = Some s''"
proof -
  let ?s0 = "threads_of 7 first_client"
  let ?s1 = "parent_enter 7 8 ?s0"
  let ?s2 = "hook_clone_child_enter 8 ?s1"
  have "case parent_goes_on sample_client_env 7 ?s2 of Inl _ \<Rightarrow> False | Inr s \<Rightarrow>
      map_of (th_parents s) 7 = Some [Register_capio_tid 8] \<and> th_waiting s = [8] \<and>
      hook_clone_child_resume 8 s = None" by code_simp
  then obtain s3 where s3: "parent_goes_on sample_client_env 7 ?s2 = Inr s3"
      "map_of (th_parents s3) 7 = Some [Register_capio_tid 8]" "th_waiting s3 = [8]"
      "hook_clone_child_resume 8 s3 = None" by (auto split: sum.splits)
  have "clone_step sample_client_env ?s0 ?s1" by (rule clones) (simp add: threads_of_def)
  moreover have "clone_step sample_client_env ?s1 ?s2" by (rule enter)
  moreover from s3(1) have "clone_step sample_client_env ?s2 s3" by (rule parent)
  ultimately have r: "(clone_step sample_client_env)\<^sup>*\<^sup>* ?s0 s3"
    by (meson converse_rtranclp_into_rtranclp rtranclp.rtrancl_refl)
  from child_waits_for_handshake[OF r first_client_announced] s3(2,3)
  have "announced sample_client_env (th_client s3) 8"
    "\<exists>s' s''. parent_goes_on sample_client_env 7 s3 = Inr s' \<and> hook_clone_child_resume 8 s' = Some s''"
    by fastforce+
  with r s3(4) show ?thesis by blast
qed

end
