(* ===== verification/LibCapio.thy ===== *)
theory LibCapio
  imports Snapshot Threads Environment
begin

text \<open>
  \<open>src/posix/libcapio_posix.cpp\<close>: the table of system call handlers, the hook the interception
  library calls for every system call of the process, and the constructor that runs when the library
  is loaded, with \<open>init_client\<close> of \<open>src/posix/utils/requests.hpp\<close>. The numbers of the system calls
  are those of the architecture, a parameter: \<open>None\<close> where the macro is not defined. Strings the
  process passes are behind a pointer; what a pointer points to is a parameter too.
\<close>

subsection \<open>The table\<close>

datatype syscall =
    SYS_access | SYS_chdir | SYS_chmod | SYS_chown | SYS_close | SYS_creat | SYS_dup | SYS_dup2
    | SYS_dup3 | SYS_execve | SYS_exit | SYS_exit_group | SYS_faccessat | SYS_faccessat2 |
    SYS_fcntl | SYS_fgetxattr | SYS_flistxattr | SYS_fork | SYS_fstat | SYS_fstatfs | SYS_getcwd
    | SYS_getdents | SYS_getdents64 | SYS_getxattr | SYS_ioctl | SYS_lgetxattr | SYS_lseek |
    SYS_lstat | SYS_mkdir | SYS_mkdirat | SYS_newfstatat | SYS_open | SYS_openat | SYS_read |
    SYS_readv | SYS_rename | SYS_rmdir | SYS_stat | SYS_statx | SYS_unlink | SYS_unlinkat |
    SYS_write | SYS_writev | SYS_fchmod | SYS_fchmodat | SYS_fchown | SYS_fchownat | SYS_futex

type_synonym numbers = "syscall \<Rightarrow> nat option"

text \<open>The calls whose numbers bound the table, in the order of the source.\<close>

definition bounding_calls :: "syscall list" where
  "bounding_calls =
    [SYS_access, SYS_chdir, SYS_chmod, SYS_chown, SYS_close, SYS_creat, SYS_dup, SYS_dup2,
     SYS_dup3, SYS_execve, SYS_exit, SYS_exit_group, SYS_faccessat, SYS_faccessat2, SYS_fcntl,
     SYS_fgetxattr, SYS_flistxattr, SYS_fork, SYS_fstat, SYS_fstatfs, SYS_getcwd, SYS_getdents,
     SYS_getdents64, SYS_getxattr, SYS_ioctl, SYS_lgetxattr, SYS_lseek, SYS_lstat, SYS_mkdir,
     SYS_mkdirat, SYS_newfstatat, SYS_open, SYS_openat, SYS_read, SYS_readv, SYS_rename,
     SYS_rmdir, SYS_stat, SYS_statx, SYS_unlink, SYS_unlinkat, SYS_write, SYS_writev]"

definition CAPIO_NR_SYSCALLS :: "numbers \<Rightarrow> nat" where
  "CAPIO_NR_SYSCALLS nr = 1 + foldr max (List.map_filter nr bounding_calls) 0"

datatype handler =
    Do_Not_handled | Do_Not_implemented | Do_Access | Do_Chdir | Do_Fchmod | Do_Fchown |
    Do_Close | Do_Creat | Do_Dup | Do_Dup2 | Do_Dup3 | Do_Execve | Do_Exit | Do_Faccessat |
    Do_Fcntl | Do_Fgetxattr | Do_Fork | Do_Fstat | Do_Fstatfs | Do_Getcwd | Do_Getdents |
    Do_Getdents64 | Do_Ioctl | Do_Lseek | Do_Lstat | Do_Mkdir | Do_Mkdirat | Do_Fstatat |
    Do_Open | Do_Openat | Do_Read | Do_Readv | Do_Rename | Do_Rmdir | Do_Stat | Do_Statx |
    Do_Unlink | Do_Unlinkat | Do_Write | Do_Writev

definition table_entries :: "(syscall \<times> handler) list" where
  "table_entries =
    [(SYS_access, Do_Access), (SYS_chdir, Do_Chdir), (SYS_chmod, Do_Fchmod),
     (SYS_fchmod, Do_Fchmod), (SYS_fchmodat, Do_Fchmod), (SYS_chown, Do_Fchown),
     (SYS_fchown, Do_Fchown), (SYS_fchownat, Do_Fchown), (SYS_close, Do_Close),
     (SYS_creat, Do_Creat), (SYS_dup, Do_Dup), (SYS_dup2, Do_Dup2), (SYS_dup3, Do_Dup3),
     (SYS_execve, Do_Execve), (SYS_exit, Do_Exit), (SYS_exit_group, Do_Exit),
     (SYS_faccessat, Do_Faccessat), (SYS_faccessat2, Do_Faccessat), (SYS_fcntl, Do_Fcntl),
     (SYS_fgetxattr, Do_Fgetxattr), (SYS_flistxattr, Do_Not_implemented), (SYS_fork, Do_Fork),
     (SYS_fstat, Do_Fstat), (SYS_fstatfs, Do_Fstatfs), (SYS_getcwd, Do_Getcwd),
     (SYS_getdents, Do_Getdents), (SYS_getdents64, Do_Getdents64),
     (SYS_getxattr, Do_Not_implemented), (SYS_ioctl, Do_Ioctl),
     (SYS_lgetxattr, Do_Not_implemented), (SYS_lseek, Do_Lseek), (SYS_lstat, Do_Lstat),
     (SYS_mkdir, Do_Mkdir), (SYS_mkdirat, Do_Mkdirat), (SYS_newfstatat, Do_Fstatat),
     (SYS_open, Do_Open), (SYS_openat, Do_Openat), (SYS_read, Do_Read), (SYS_readv, Do_Readv),
     (SYS_rename, Do_Rename), (SYS_rmdir, Do_Rmdir), (SYS_stat, Do_Stat), (SYS_statx, Do_Statx),
     (SYS_unlink, Do_Unlink), (SYS_unlinkat, Do_Unlinkat), (SYS_write, Do_Write),
     (SYS_writev, Do_Writev)]"

text \<open>An assignment past the end of the array is not a constant expression.\<close>

fun assign_all :: "numbers \<Rightarrow> (syscall \<times> handler) list \<Rightarrow> handler list \<Rightarrow> handler list res" where
  "assign_all nr [] tbl = Inr tbl"
| "assign_all nr ((s, h) # es) tbl =
     (case nr s of
        None \<Rightarrow> assign_all nr es tbl
      | Some n \<Rightarrow> if n < length tbl then assign_all nr es (tbl[n := h]) else Inl Undefined)"

definition build_syscall_table :: "numbers \<Rightarrow> handler list res" where
  "build_syscall_table nr =
     assign_all nr table_entries (replicate (CAPIO_NR_SYSCALLS nr) Do_Not_handled)"

subsection \<open>The handlers on raw arguments\<close>

text \<open>What is outside the process, and the six arguments of a call.\<close>

record world =
  w_env :: client_env
  w_kernel :: kernel
  w_refusals :: refusals
  w_cstr :: "int \<Rightarrow> string"        \<comment> \<open>the text a pointer points to\<close>

record call_args =
  arg0 :: int
  arg1 :: int
  arg2 :: int
  arg3 :: int

definition not_handled_handler :: "client \<Rightarrow> outcome" where
  "not_handled_handler c = (1, None, c)"

definition ENOTSUP :: int where "ENOTSUP = 95"

definition not_implemented_handler :: "client \<Rightarrow> outcome" where
  "not_implemented_handler c = (0, Some (- ENOTSUP), set_errno ENOTSUP c)"

definition getcwd_handler :: "client \<Rightarrow> outcome" where
  "getcwd_handler c = (CAPIO_POSIX_SYSCALL_SKIP, None, c)"

text \<open>\<open>static_cast\<close> of a \<open>long\<close> to \<open>int\<close> and to \<open>capio_off64_t\<close>, and \<open>reinterpret_cast\<close> to a string.\<close>

definition run_file_handler :: "world \<Rightarrow> handler \<Rightarrow> call_args \<Rightarrow> tid \<Rightarrow> client \<Rightarrow> outcome res" where
  "run_file_handler w h a t c =
     (let ce = w_env w; k = w_kernel w; str = w_cstr w; int_of = to_int32; off_of = word_of_int in
      case h of
        Do_Not_handled \<Rightarrow> Inr (not_handled_handler c)
      | Do_Not_implemented \<Rightarrow> Inr (not_implemented_handler c)
      | Do_Access \<Rightarrow> access_handler ce k (str (arg0 a)) t c
      | Do_Chdir \<Rightarrow> chdir_handler ce k (str (arg0 a)) t c
      | Do_Fchmod \<Rightarrow> fchmod_handler (int_of (arg0 a)) t c
      | Do_Fchown \<Rightarrow> fchown_handler (int_of (arg0 a)) t c
      | Do_Close \<Rightarrow> posix_close_handler (int_of (arg0 a)) t c
      | Do_Creat \<Rightarrow> creat_handler ce k (str (arg0 a)) t c
      | Do_Dup \<Rightarrow> dup_handler k (int_of (arg0 a)) c
      | Do_Dup2 \<Rightarrow> dup2_handler k (int_of (arg0 a)) (int_of (arg1 a)) c
      | Do_Dup3 \<Rightarrow> dup3_handler k (int_of (arg0 a)) (int_of (arg1 a)) (int_of (arg2 a)) c
      | Do_Exit \<Rightarrow> posix_exit_handler t c
      | Do_Faccessat \<Rightarrow> faccessat_handler ce k (int_of (arg0 a)) (str (arg1 a)) t c
      | Do_Fcntl \<Rightarrow> fcntl_handler (int_of (arg0 a)) t c
      | Do_Fgetxattr \<Rightarrow> fgetxattr_handler (int_of (arg0 a)) t c
      | Do_Fork \<Rightarrow> fork_handler ce k t c
      | Do_Fstat \<Rightarrow> fstat_handler (int_of (arg0 a)) t c
      | Do_Fstatfs \<Rightarrow> fstatfs_handler (int_of (arg0 a)) t c
      | Do_Getcwd \<Rightarrow> Inr (getcwd_handler c)
      | Do_Getdents \<Rightarrow> getdents_handler (int_of (arg0 a)) t c
      | Do_Getdents64 \<Rightarrow> getdents_handler (int_of (arg0 a)) t c
      | Do_Ioctl \<Rightarrow> ioctl_handler (int_of (arg0 a)) t c
      | Do_Lseek \<Rightarrow> lseek_handler (int_of (arg0 a)) (off_of (arg1 a)) (int_of (arg2 a)) c
      | Do_Lstat \<Rightarrow> lstat_handler ce k (str (arg0 a)) t c
      | Do_Mkdir \<Rightarrow> mkdir_handler ce k (str (arg0 a)) t c
      | Do_Mkdirat \<Rightarrow> mkdirat_handler ce k (int_of (arg0 a)) (str (arg1 a)) t c
      | Do_Fstatat \<Rightarrow> fstatat_handler ce k (int_of (arg0 a)) (str (arg1 a)) (int_of (arg3 a)) t c
      | Do_Open \<Rightarrow> posix_open_handler ce k (str (arg0 a)) (int_of (arg1 a)) t c
      | Do_Openat \<Rightarrow> openat_handler ce k (int_of (arg0 a)) (str (arg1 a)) (int_of (arg2 a)) t c
      | Do_Read \<Rightarrow> posix_read_handler ce (int_of (arg0 a)) (off_of (arg2 a)) t c
      | Do_Readv \<Rightarrow> readv_handler ce (int_of (arg0 a)) (int_of (arg2 a)) t c
      | Do_Rename \<Rightarrow> posix_rename_handler ce k (str (arg0 a)) (str (arg1 a)) t c
      | Do_Rmdir \<Rightarrow> Inr (rmdir_handler (str (arg0 a)) t c)
      | Do_Stat \<Rightarrow> stat_handler ce k (str (arg0 a)) t c
      | Do_Statx \<Rightarrow> statx_handler ce (str (arg1 a)) t c
      | Do_Unlink \<Rightarrow> unlink_handler ce (str (arg0 a)) c
      | Do_Unlinkat \<Rightarrow> unlinkat_handler ce k (str (arg1 a)) c
      | Do_Write \<Rightarrow> posix_write_handler ce (int_of (arg0 a)) (off_of (arg2 a)) t c
      | Do_Writev \<Rightarrow> writev_handler ce (int_of (arg0 a)) (int_of (arg2 a)) t c
      | Do_Execve \<Rightarrow> Inl Undefined)"

text \<open>\<open>execve_handler\<close> is the one that reaches the shared memory.\<close>

definition run_handler ::
    "world \<Rightarrow> handler \<Rightarrow> call_args \<Rightarrow> tid \<Rightarrow> client \<times> shm_space \<Rightarrow> (outcome \<times> shm_space) res" where
  "run_handler w h a t = (\<lambda>(c, ss).
     if h = Do_Execve then execve_handler (w_refusals w) t c ss
     else rbind (run_file_handler w h a t c) (\<lambda>r. Inr (r, ss)))"

subsection \<open>The hook\<close>

text \<open>
  \<open>realpath\<close> of the C library makes system calls of its own, which pass through the hook while the
  flag is set; afterwards the flag is cleared, also for a caller that had set it.
\<close>

definition syscall_no_intercept_realpath ::
    "(bool \<Rightarrow> string \<Rightarrow> string option) \<Rightarrow> string \<Rightarrow> bool \<Rightarrow> string option \<times> bool" where
  "syscall_no_intercept_realpath realpath path flag = (realpath True path, False)"

text \<open>
  \<open>flag\<close> is \<open>syscall_no_intercept_flag\<close>, \<open>dir\<close> the static variable initialised with
  \<open>getenv ("CAPIO_DIR")\<close>. The index is not tested from below.
\<close>

definition hook ::
    "numbers \<Rightarrow> world \<Rightarrow> string option \<Rightarrow> bool \<Rightarrow> int \<Rightarrow> call_args \<Rightarrow> tid \<Rightarrow> client \<times> shm_space \<Rightarrow>
     (outcome \<times> shm_space) res" where
  "hook nr w dir flag syscall_number a t = (\<lambda>(c, ss).
     rbind (build_syscall_table nr) (\<lambda>syscallTable.
       if map_option int (nr SYS_futex) = Some syscall_number then Inr ((1, None, c), ss)
       else if flag then Inr ((1, None, c), ss)
       else if int (CAPIO_NR_SYSCALLS nr) \<le> syscall_number then Inr ((1, None, c), ss)
       else if dir = None then Inr ((1, None, c), ss)
       else if syscall_number < 0 then Inl Undefined
       else run_handler w (syscallTable ! nat syscall_number) a t (c, ss)))"

subsection \<open>The entries of the table\<close>

lemma assign_all_ok:
  assumes "distinct (map fst es)"
    and "\<forall>s s' n. nr s = Some n \<and> nr s' = Some n \<longrightarrow> s = s'"
    and "\<forall>s \<in> set (map fst es). \<forall>n. nr s = Some n \<longrightarrow> n < length tbl"
  shows "\<exists>tbl'. assign_all nr es tbl = Inr tbl' \<and> length tbl' = length tbl \<and>
    (\<forall>(s, h) \<in> set es. \<forall>n. nr s = Some n \<longrightarrow> tbl' ! n = h) \<and>
    (\<forall>n < length tbl. (\<forall>s \<in> set (map fst es). nr s \<noteq> Some n) \<longrightarrow> tbl' ! n = tbl ! n)"
  using assms
proof (induction es arbitrary: tbl)
  case (Cons e es)
  obtain s h where e: "e = (s, h)" by (cases e)
  show ?case
  proof (cases "nr s")
    case None
    with Cons.IH[of tbl] Cons.prems show ?thesis by (auto simp: e)
  next
    case (Some n)
    with Cons.prems(3) e have n: "n < length tbl" by simp
    from Cons.IH[of "tbl[n := h]"] Cons.prems obtain tbl' where
      t: "assign_all nr es (tbl[n := h]) = Inr tbl'" "length tbl' = length tbl"
        "\<forall>(s, h) \<in> set es. \<forall>n. nr s = Some n \<longrightarrow> tbl' ! n = h"
        "\<forall>m < length tbl. (\<forall>s \<in> set (map fst es). nr s \<noteq> Some m) \<longrightarrow> tbl' ! m = tbl[n := h] ! m"
      by auto
    have "nr s' \<noteq> Some n" if "s' \<in> set (map fst es)" for s'
      using that Cons.prems(1,2) Some e by auto
    with t(4) n have "tbl' ! n = h" by simp
    with t n Some show ?thesis by (auto simp: e)
  qed
qed simp

lemma table_entries_distinct: "distinct (map fst table_entries)"
  by code_simp

lemma bounded_by_max:
  fixes nr :: numbers
  shows "nr s = Some n \<Longrightarrow> s \<in> set cs \<Longrightarrow> n \<le> foldr max (List.map_filter nr cs) 0"
  by (induction cs) (auto simp: map_filter_simps split: option.splits intro: max.coboundedI1 max.coboundedI2)

text \<open>The four calls the bound forgets.\<close>

lemma table_calls: "set (map fst table_entries) = set bounding_calls \<union> {SYS_fchmod, SYS_fchmodat, SYS_fchown, SYS_fchownat}"
  by (auto simp: table_entries_def bounding_calls_def)

text \<open>An architecture: different calls have different numbers, and the calls the bound leaves out are
  below one it takes in.\<close>

definition numbers_ok :: "numbers \<Rightarrow> bool" where
  "numbers_ok nr \<longleftrightarrow> (\<forall>s s' n. nr s = Some n \<and> nr s' = Some n \<longrightarrow> s = s') \<and>
     (\<forall>s \<in> {SYS_fchmod, SYS_fchmodat, SYS_fchown, SYS_fchownat}. \<forall>n. nr s = Some n \<longrightarrow>
        n < CAPIO_NR_SYSCALLS nr)"

definition x86_64_numbers :: "(syscall \<times> nat) list" where
  "x86_64_numbers =
    [(SYS_read, 0), (SYS_write, 1), (SYS_open, 2), (SYS_close, 3), (SYS_stat, 4), (SYS_fstat, 5),
     (SYS_lstat, 6), (SYS_lseek, 8), (SYS_ioctl, 16), (SYS_readv, 19), (SYS_writev, 20), (SYS_access, 21),
     (SYS_dup, 32), (SYS_dup2, 33), (SYS_fork, 57), (SYS_execve, 59), (SYS_exit, 60), (SYS_fcntl, 72),
     (SYS_getdents, 78), (SYS_getcwd, 79), (SYS_chdir, 80), (SYS_rename, 82), (SYS_mkdir, 83),
     (SYS_rmdir, 84), (SYS_creat, 85), (SYS_unlink, 87), (SYS_chmod, 90), (SYS_fchmod, 91),
     (SYS_chown, 92), (SYS_fchown, 93), (SYS_fstatfs, 138), (SYS_getxattr, 191), (SYS_lgetxattr, 192),
     (SYS_fgetxattr, 193), (SYS_flistxattr, 196), (SYS_futex, 202), (SYS_getdents64, 217),
     (SYS_exit_group, 231), (SYS_openat, 257), (SYS_mkdirat, 258), (SYS_fchownat, 260),
     (SYS_newfstatat, 262), (SYS_unlinkat, 263), (SYS_fchmodat, 268), (SYS_faccessat, 269),
     (SYS_dup3, 292), (SYS_statx, 332), (SYS_faccessat2, 439)]"

definition x86_64 :: numbers where "x86_64 = map_of x86_64_numbers"

lemma map_of_inj:
  "distinct (map snd xs) \<Longrightarrow> map_of xs a = Some n \<Longrightarrow> map_of xs b = Some n \<Longrightarrow> a = b"
  by (induction xs) (auto simp: rev_image_eqI dest!: map_of_SomeD split: if_splits)

lemma x86_64_size: "CAPIO_NR_SYSCALLS x86_64 = 440"
  by (simp add: CAPIO_NR_SYSCALLS_def x86_64_def x86_64_numbers_def bounding_calls_def map_filter_simps)

lemma x86_64_ok: "numbers_ok x86_64"
proof -
  have d: "distinct (map snd x86_64_numbers)" by (simp add: x86_64_numbers_def)
  have "x86_64 s = Some n \<Longrightarrow> x86_64 s' = Some n \<Longrightarrow> s = s'" for s s' n
    unfolding x86_64_def by (rule map_of_inj[OF d])
  moreover have "\<forall>s \<in> {SYS_fchmod, SYS_fchmodat, SYS_fchown, SYS_fchownat}. \<forall>n. x86_64 s = Some n \<longrightarrow> n < 440"
    by (simp add: x86_64_def x86_64_numbers_def)
  ultimately show ?thesis by (auto simp: numbers_ok_def x86_64_size)
qed

lemma table_built:
  assumes "numbers_ok nr"
  shows "\<exists>tbl. build_syscall_table nr = Inr tbl \<and> length tbl = CAPIO_NR_SYSCALLS nr \<and>
    (\<forall>(s, h) \<in> set table_entries. \<forall>n. nr s = Some n \<longrightarrow> n < CAPIO_NR_SYSCALLS nr \<and> tbl ! n = h) \<and>
    (\<forall>n < CAPIO_NR_SYSCALLS nr. (\<forall>s \<in> set (map fst table_entries). nr s \<noteq> Some n) \<longrightarrow> tbl ! n = Do_Not_handled)"
proof -
  let ?tbl = "replicate (CAPIO_NR_SYSCALLS nr) Do_Not_handled"
  have inj: "\<forall>s s' n. nr s = Some n \<and> nr s' = Some n \<longrightarrow> s = s'" using assms unfolding numbers_ok_def by blast
  have below: "n < CAPIO_NR_SYSCALLS nr" if "s \<in> set (map fst table_entries)" "nr s = Some n" for s n
  proof (cases "s \<in> set bounding_calls")
    case True
    with bounded_by_max[of nr s n] that(2) show ?thesis by (simp add: CAPIO_NR_SYSCALLS_def less_Suc_eq_le)
  next
    case False
    with that(1) have "s \<in> {SYS_fchmod, SYS_fchmodat, SYS_fchown, SYS_fchownat}" unfolding table_calls by blast
    with assms that(2) show ?thesis unfolding numbers_ok_def by blast
  qed
  then have "\<forall>s \<in> set (map fst table_entries). \<forall>n. nr s = Some n \<longrightarrow> n < length ?tbl" by simp
  from assign_all_ok[OF table_entries_distinct inj this] obtain tbl where
    t: "assign_all nr table_entries ?tbl = Inr tbl" "length tbl = CAPIO_NR_SYSCALLS nr"
      "\<forall>(s, h) \<in> set table_entries. \<forall>n. nr s = Some n \<longrightarrow> tbl ! n = h"
      "\<forall>n < CAPIO_NR_SYSCALLS nr. (\<forall>s \<in> set (map fst table_entries). nr s \<noteq> Some n) \<longrightarrow> tbl ! n = ?tbl ! n"
    by auto
  have "\<forall>(s, h) \<in> set table_entries. \<forall>n. nr s = Some n \<longrightarrow> n < CAPIO_NR_SYSCALLS nr"
  proof clarify
    fix s h n assume "(s, h) \<in> set table_entries" "nr s = Some n"
    moreover from this(1) have "s \<in> set (map fst table_entries)" by force
    ultimately show "n < CAPIO_NR_SYSCALLS nr" using below by blast
  qed
  with t show ?thesis unfolding build_syscall_table_def by fastforce
qed

lemma assign_all_undefined:
  "(s, h) \<in> set es \<Longrightarrow> nr s = Some n \<Longrightarrow> length tbl \<le> n \<Longrightarrow> assign_all nr es tbl = Inl Undefined"
proof (induction es arbitrary: tbl)
  case (Cons e es)
  obtain s' h' where e: "e = (s', h')" by (cases e)
  show ?case
  proof (cases "nr s'")
    case None
    with Cons e show ?thesis by auto
  next
    case (Some m)
    with Cons.prems Cons.IH[of "tbl[m := h']"] e show ?thesis by auto
  qed
qed simp

lemma hook_handled:
  assumes "numbers_ok nr" and "(s, h) \<in> set table_entries" and "nr s = Some n"
  shows "hook nr w (Some d) False (int n) a t st = run_handler w h a t st"
proof -
  from table_built[OF assms(1)] obtain tbl where
    t: "build_syscall_table nr = Inr tbl" "n < CAPIO_NR_SYSCALLS nr" "tbl ! n = h"
    using assms(2,3) by fastforce
  have "s \<noteq> SYS_futex" using assms(2) by (auto simp: table_entries_def)
  with assms(1,3) have "nr SYS_futex \<noteq> Some n" unfolding numbers_ok_def by blast
  with t show ?thesis by (auto simp: hook_def split: prod.split)
qed

lemma hook_unhandled:
  assumes "numbers_ok nr" and "0 \<le> n" and "\<forall>s \<in> set (map fst table_entries). nr s \<noteq> Some (nat n)"
  shows "hook nr w dir flag n a t (c, ss) = Inr ((1, None, c), ss)"
proof -
  from table_built[OF assms(1)] obtain tbl where
    t: "build_syscall_table nr = Inr tbl"
      "nat n < CAPIO_NR_SYSCALLS nr \<Longrightarrow> tbl ! nat n = Do_Not_handled"
    using assms(3) by blast
  have "run_handler w Do_Not_handled a t (c, ss) = Inr ((1, None, c), ss)"
    by (simp add: run_handler_def run_file_handler_def not_handled_handler_def)
  with t assms(2) show ?thesis by (auto simp: hook_def nat_less_iff not_le)
qed

lemma hook_switched_off:
  assumes "numbers_ok nr" and "flag \<or> dir = None"
  shows "hook nr w dir flag n a t (c, ss) = Inr ((1, None, c), ss)"
proof -
  from table_built[OF assms(1)] obtain tbl where "build_syscall_table nr = Inr tbl" by blast
  with assms(2) show ?thesis by (auto simp: hook_def)
qed

text \<open>Extended attributes are refused for every file, whoever it belongs to.\<close>

lemma xattr_refused_everywhere:
  assumes "numbers_ok nr" and "s \<in> {SYS_getxattr, SYS_lgetxattr, SYS_flistxattr}" and "nr s = Some n"
  shows "hook nr w (Some d) False (int n) a t (c, ss) = Inr ((0, Some (- ENOTSUP), set_errno ENOTSUP c), ss)"
proof -
  have "(s, Do_Not_implemented) \<in> set table_entries" using assms(2) by (auto simp: table_entries_def)
  from hook_handled[OF assms(1) this assms(3)] show ?thesis
    by (simp add: run_handler_def run_file_handler_def not_implemented_handler_def)
qed

subsection \<open>Loading the library\<close>

definition SHM_COMM_CHAN_NAME :: string where "SHM_COMM_CHAN_NAME = ''request_buffer''"
definition SHM_COMM_CHAN_NAME_RESP :: string where "SHM_COMM_CHAN_NAME_RESP = ''response_buffer_''"

text \<open>\<open>wname\<close> is \<open>get_capio_workflow_name ()\<close>, \<open>cwd\<close> the directory the process is started in.\<close>

definition init_client :: "refusals \<Rightarrow> string \<Rightarrow> string \<Rightarrow> u64 list \<Rightarrow> shm_space \<Rightarrow> (client \<times> shm_space) res" where
  "init_client k wname cwd answers ss =
     rbind (queue_open k wname SHM_COMM_CHAN_NAME CAPIO_REQ_BUFF_CNT CAPIO_REQ_MAX_SIZE ss) (\<lambda>(_, ss').
       Inr (\<lparr>cl_tables = init_filesystem cwd, cl_wcache = new_write_cache, cl_rcache = new_read_cache,
             cl_listening = [], cl_tids = [], cl_sent = [], cl_answers = answers, cl_errno = 0\<rparr>, ss'))"

definition register_listener_ring :: "refusals \<Rightarrow> string \<Rightarrow> tid \<Rightarrow> shm_space \<Rightarrow> shm_space res" where
  "register_listener_ring k wname t ss =
     rbind (queue_open k wname (SHM_COMM_CHAN_NAME_RESP @ show_int t) CAPIO_REQ_BUFF_CNT 8 ss) (\<lambda>(_, ss'). Inr ss')"

definition init ::
    "refusals \<Rightarrow> client_env \<Rightarrow> string \<Rightarrow> string \<Rightarrow> u64 list \<Rightarrow> tid \<Rightarrow> shm_space \<Rightarrow> (client \<times> shm_space) res" where
  "init k ce wname cwd answers t ss =
     rbind (init_client k wname cwd answers ss) (\<lambda>(c, ss1).
     rbind (get_fd_snapshot k t ss1) (\<lambda>(found, ss2).
     rbind (if found then initialize_from_snapshot k t (cl_tables c, ss2) else Inr (cl_tables c, ss2)) (\<lambda>(T, ss3).
     rbind (register_listener_ring k wname t ss3) (\<lambda>ss4.
     rbind (init_process ce t t (c\<lparr>cl_tables := T\<rparr>)) (\<lambda>c1.
       Inr (register_capio_tid t c1, ss4))))))"

text \<open>The names of a ring end as its own name does, those of a snapshot with a digit.\<close>

lemma queue_names_last:
  assumes "m \<in> queue_objects (queue_names_of w n) \<union> queue_semaphores (queue_names_of w n)" and "n \<noteq> []"
  shows "last m = last n"
  using assms by (auto simp: queue_objects_def queue_semaphores_def queue_names_of_def SHM_FIRST_ELEM_def
      SHM_LAST_ELEM_def SHM_MUTEX_PREFIX_def SHM_SEM_ELEMS_def SHM_SEM_EMPTY_def)

lemma digit_char_not_r: "d < 10 \<Longrightarrow> digit_char d \<noteq> CHR ''r''"
  by (simp add: digit_char_def digits_def less_Suc_eq numeral_eq_Suc) (auto simp: less_Suc_eq)

lemma show_int_last: "last (show_int t) \<noteq> CHR ''r''"
proof -
  have "last (show_nat n) \<noteq> CHR ''r''" for n
    using show_nat_digits[OF last_in_set[OF show_nat_nonempty[of n]]] digit_char_not_r by metis
  then show ?thesis by (simp add: show_int_def)
qed

lemma show_int_nonempty [simp]: "show_int t \<noteq> []"
  by (simp add: show_int_def)

lemma snapshot_names_last:
  "last (snapshot_name t) \<noteq> CHR ''r''" "last (snapshot_fd_name t d) \<noteq> CHR ''r''"
  "last (snapshot_path_name t d) \<noteq> CHR ''r''" "last (SHM_COMM_CHAN_NAME_RESP @ show_int t) \<noteq> CHR ''r''"
  by (simp_all add: snapshot_name_def snapshot_fd_name_def snapshot_path_name_def show_int_last)

lemma request_ring_last:
  assumes "m \<in> queue_objects (queue_names_of w SHM_COMM_CHAN_NAME) \<union> queue_semaphores (queue_names_of w SHM_COMM_CHAN_NAME)"
  shows "last m = CHR ''r''"
  using queue_names_last[OF assms] by (simp add: SHM_COMM_CHAN_NAME_def)

lemma queue_open_content:
  "\<exists>ss'. queue_open willing w n mx es ss = Inr (queue_names_of w n, ss') \<and> queue_present (queue_names_of w n) ss' \<and>
     (\<forall>m. m \<notin> queue_objects (queue_names_of w n) \<longrightarrow> map_of (shm_objects ss') m = map_of (shm_objects ss) m \<and>
        content ss' m = content ss m) \<and>
     (\<forall>m. m \<notin> queue_semaphores (queue_names_of w n) \<longrightarrow> map_of (semaphores ss') m = map_of (semaphores ss) m)"
  using queue_open_total[of w n mx es ss] unfolding content_def by fastforce

lemma init_client_willing:
  "\<exists>c ss'. init_client willing wname cwd answers ss = Inr (c, ss') \<and>
     c = \<lparr>cl_tables = init_filesystem cwd, cl_wcache = new_write_cache, cl_rcache = new_read_cache,
       cl_listening = [], cl_tids = [], cl_sent = [], cl_answers = answers, cl_errno = 0\<rparr> \<and>
     queue_present (queue_names_of wname SHM_COMM_CHAN_NAME) ss' \<and>
     (\<forall>m. last m \<noteq> CHR ''r'' \<longrightarrow> map_of (shm_objects ss') m = map_of (shm_objects ss) m \<and> content ss' m = content ss m)"
  using queue_open_content[of wname SHM_COMM_CHAN_NAME CAPIO_REQ_BUFF_CNT CAPIO_REQ_MAX_SIZE ss] request_ring_last
  unfolding init_client_def by fastforce

lemma present_kept:
  assumes "queue_present q ss" and "\<forall>m \<in> queue_objects q. map_of (shm_objects ss') m = map_of (shm_objects ss) m"
    and "\<forall>m \<in> queue_semaphores q. map_of (semaphores ss') m = map_of (semaphores ss) m"
  shows "queue_present q ss'"
  using assms by (simp add: queue_present_def queue_objects_def queue_semaphores_def)

lemma register_listener_ring_willing:
  assumes "queue_present (queue_names_of wname SHM_COMM_CHAN_NAME) ss"
  shows "\<exists>ss'. register_listener_ring willing wname t ss = Inr ss' \<and>
    queue_present (queue_names_of wname SHM_COMM_CHAN_NAME) ss' \<and>
    queue_present (queue_names_of wname (SHM_COMM_CHAN_NAME_RESP @ show_int t)) ss'"
proof -
  let ?n = "SHM_COMM_CHAN_NAME_RESP @ show_int t"
  from queue_open_content[of wname ?n CAPIO_REQ_BUFF_CNT 8 ss] obtain ss' where
    s: "queue_open willing wname ?n CAPIO_REQ_BUFF_CNT 8 ss = Inr (queue_names_of wname ?n, ss')"
      "queue_present (queue_names_of wname ?n) ss'"
      "\<forall>m. m \<notin> queue_objects (queue_names_of wname ?n) \<longrightarrow> map_of (shm_objects ss') m = map_of (shm_objects ss) m"
      "\<forall>m. m \<notin> queue_semaphores (queue_names_of wname ?n) \<longrightarrow> map_of (semaphores ss') m = map_of (semaphores ss) m"
    by blast
  have other: "m \<notin> queue_objects (queue_names_of wname ?n) \<union> queue_semaphores (queue_names_of wname ?n)"
    if "last m = CHR ''r''" for m
    using queue_names_last[of m wname ?n] snapshot_names_last(4)[of t] that by fastforce
  have "queue_present (queue_names_of wname SHM_COMM_CHAN_NAME) ss'"
    using present_kept[OF assms, of ss'] s(3,4) other request_ring_last[of _ wname] by blast
  with s(1,2) show ?thesis by (simp add: register_listener_ring_def)
qed

subsection \<open>Properties\<close>

text \<open>C28: The table can be built if and only if \<open>fchmod\<close>, \<open>fchmodat\<close>, \<open>fchown\<close> and \<open>fchownat\<close>, which its size
  does not take into account, have numbers below it; then every number that is assigned is inside the
  table and holds its handler, and all others hold the one that passes the call on.\<close>

theorem table_within_bounds:
  assumes "\<forall>s s' n. nr s = Some n \<and> nr s' = Some n \<longrightarrow> s = s'"
  shows "((\<exists>tbl. build_syscall_table nr = Inr tbl) \<longleftrightarrow>
      (\<forall>s \<in> {SYS_fchmod, SYS_fchmodat, SYS_fchown, SYS_fchownat}. \<forall>n. nr s = Some n \<longrightarrow> n < CAPIO_NR_SYSCALLS nr)) \<and>
    (\<forall>tbl. build_syscall_table nr = Inr tbl \<longrightarrow> length tbl = CAPIO_NR_SYSCALLS nr \<and>
      (\<forall>(s, h) \<in> set table_entries. \<forall>n. nr s = Some n \<longrightarrow> n < CAPIO_NR_SYSCALLS nr \<and> tbl ! n = h) \<and>
      (\<forall>n < CAPIO_NR_SYSCALLS nr. (\<forall>s \<in> set (map fst table_entries). nr s \<noteq> Some n) \<longrightarrow> tbl ! n = Do_Not_handled))"
proof -
  have out: "build_syscall_table nr = Inl Undefined" if "\<not> numbers_ok nr"
  proof -
    from that assms obtain s n where s: "s \<in> {SYS_fchmod, SYS_fchmodat, SYS_fchown, SYS_fchownat}"
        "nr s = Some n" "CAPIO_NR_SYSCALLS nr \<le> n" unfolding numbers_ok_def by (auto simp: not_less)
    then have "s \<in> set (map fst table_entries)" unfolding table_calls by blast
    then obtain h where "(s, h) \<in> set table_entries" by auto
    with s(2,3) show ?thesis unfolding build_syscall_table_def by (intro assign_all_undefined) simp_all
  qed
  show ?thesis
  proof (cases "numbers_ok nr")
    case True
    from table_built[OF True] obtain tbl where tbl: "build_syscall_table nr = Inr tbl" by blast
    show ?thesis using table_built[OF True] True unfolding tbl numbers_ok_def by blast
  next
    case False
    with out have "build_syscall_table nr = Inl Undefined" by blast
    with False assms show ?thesis unfolding numbers_ok_def by auto
  qed
qed

lemma table_within_bounds_witness:
  "\<exists>tbl. build_syscall_table x86_64 = Inr tbl \<and> length tbl = 440 \<and> tbl ! 257 = Do_Openat \<and> tbl ! 202 = Do_Not_handled"
proof -
  from x86_64_ok have inj: "\<forall>s s' n. x86_64 s = Some n \<and> x86_64 s' = Some n \<longrightarrow> s = s'"
    and ok: "\<forall>s \<in> {SYS_fchmod, SYS_fchmodat, SYS_fchown, SYS_fchownat}. \<forall>n. x86_64 s = Some n \<longrightarrow> n < CAPIO_NR_SYSCALLS x86_64"
    unfolding numbers_ok_def by blast+
  note th = table_within_bounds[OF inj]
  from th ok obtain tbl where tbl: "build_syscall_table x86_64 = Inr tbl" by blast
  have e: "(SYS_openat, Do_Openat) \<in> set table_entries" "x86_64 SYS_openat = Some 257"
    by (simp_all add: table_entries_def x86_64_def x86_64_numbers_def)
  have f: "\<forall>s \<in> set (map fst table_entries). x86_64 s \<noteq> Some 202"
    by (simp add: table_entries_def x86_64_def x86_64_numbers_def)
  from th tbl e f have "tbl ! 257 = Do_Openat" "tbl ! 202 = Do_Not_handled" "length tbl = 440"
    by (fastforce simp: x86_64_size)+
  with tbl show ?thesis by blast
qed

text \<open>C27: A system call of the process reaches exactly the handler the table names for it, with its arguments
  and the state as they are; a call that no entry is for, one made while the interception is
  switched off, and every call of a process without \<open>CAPIO_DIR\<close> go to the kernel and change nothing.\<close>

theorem hook_dispatches:
  assumes "numbers_ok nr"
  shows "(\<forall>(s, h) \<in> set table_entries. \<forall>n. nr s = Some n \<longrightarrow>
      hook nr w (Some d) False (int n) a t (c, ss) = run_handler w h a t (c, ss)) \<and>
    (\<forall>n \<ge> 0. (\<forall>s \<in> set (map fst table_entries). nr s \<noteq> Some (nat n)) \<longrightarrow>
      hook nr w dir flag n a t (c, ss) = Inr ((1, None, c), ss)) \<and>
    (\<forall>n. hook nr w dir True n a t (c, ss) = Inr ((1, None, c), ss) \<and>
      hook nr w None flag n a t (c, ss) = Inr ((1, None, c), ss))"
  using hook_handled[OF assms] by (auto simp: hook_unhandled[OF assms] hook_switched_off[OF assms])

definition sample_world :: world where
  "sample_world = \<lparr>w_env = sample_client_env, w_kernel = sample_kernel, w_refusals = willing,
     w_cstr = (\<lambda>p. if p = 1000 then ''/d/f'' else '''')\<rparr>"

definition call :: "int \<Rightarrow> int \<Rightarrow> int \<Rightarrow> int \<Rightarrow> call_args" where
  "call a b c d = \<lparr>arg0 = a, arg1 = b, arg2 = c, arg3 = d\<rparr>"

lemma x86_64_entries:
  "(SYS_open, Do_Open) \<in> set table_entries" "x86_64 SYS_open = Some 2"
  "(SYS_chmod, Do_Fchmod) \<in> set table_entries" "x86_64 SYS_chmod = Some 90" "x86_64 SYS_futex = Some 202"
  by (simp_all add: table_entries_def x86_64_def x86_64_numbers_def)

lemma hook_dispatches_witness:
  "hook x86_64 sample_world (Some ''/d'') False 2 (call 1000 0 0 0) 1 (fresh_client, no_shm) =
     run_handler sample_world Do_Open (call 1000 0 0 0) 1 (fresh_client, no_shm) \<and>
   hook x86_64 sample_world None False 2 (call 1000 0 0 0) 1 (fresh_client, no_shm) =
     Inr ((1, None, fresh_client), no_shm)"
  using hook_dispatches[OF x86_64_ok, of sample_world "''/d''" "call 1000 0 0 0" 1 fresh_client no_shm None False]
    x86_64_entries(1,2) by fastforce

text \<open>The number of a call is only tested from above: a negative one indexes the table out of its bounds.\<close>

theorem negative_number_undefined:
  assumes "numbers_ok nr" and "n < 0"
  shows "hook nr w (Some d) False n a t (c, ss) = Inl Undefined"
proof -
  from table_built[OF assms(1)] obtain tbl where "build_syscall_table nr = Inr tbl" by blast
  with assms(2) show ?thesis by (auto simp: hook_def)
qed

lemma negative_number_undefined_witness:
  "hook x86_64 sample_world (Some ''/d'') False (-1) (call 0 0 0 0) 1 (fresh_client, no_shm) = Inl Undefined"
  by (rule negative_number_undefined[OF x86_64_ok]) simp

text \<open>\<open>chmod\<close> has the handler of \<open>fchmod\<close>, which takes the pointer to the path for a descriptor. Whatever
  path is meant, no consent is asked for it: the call goes to the kernel at once unless the low bits of
  the pointer happen to be an open descriptor, and then it is the file of that descriptor that is
  waited for.\<close>

theorem chmod_takes_pointer_for_descriptor:
  assumes "numbers_ok nr" and "nr SYS_chmod = Some n"
  shows "(\<not> exists_capio_fd (to_int32 (arg0 a)) (cl_tables c) \<longrightarrow>
      hook nr w (Some d) False (int n) a t (c, ss) = Inr ((CAPIO_POSIX_SYSCALL_SKIP, None, c), ss)) \<and>
    (\<forall>p. get_capio_fd_path (to_int32 (arg0 a)) (cl_tables c) = Inr p \<and>
        exists_capio_fd (to_int32 (arg0 a)) (cl_tables c) \<longrightarrow>
      hook nr w (Some d) False (int n) a t (c, ss) =
        rbind (consent_to_proceed_request p t ''fchmod_handler'' c)
          (\<lambda>c'. Inr ((CAPIO_POSIX_SYSCALL_SKIP, None, c'), ss)))"
proof -
  have "(SYS_chmod, Do_Fchmod) \<in> set table_entries" by (simp add: table_entries_def)
  from hook_handled[OF assms(1) this assms(2)] have
    h: "hook nr w (Some d) False (int n) a t (c, ss) =
      rbind (fchmod_handler (to_int32 (arg0 a)) t c) (\<lambda>r. Inr (r, ss))"
    by (simp add: run_handler_def run_file_handler_def)
  show ?thesis
    unfolding h fchmod_handler_def fd_handler_def consent_on_fd_def
    by (auto simp: rbind_assoc)
qed

lemma chmod_takes_pointer_for_descriptor_witness:
  "hook x86_64 sample_world (Some ''/d'') False 90 (call 1000 0 0 0) 1 (fresh_client, no_shm) =
     Inr ((CAPIO_POSIX_SYSCALL_SKIP, None, fresh_client), no_shm)"
proof -
  have "\<not> exists_capio_fd (to_int32 (arg0 (call 1000 0 0 0))) (cl_tables fresh_client)"
    by (rule fresh_tables(2))
  with chmod_takes_pointer_for_descriptor[OF x86_64_ok x86_64_entries(4), of "call 1000 0 0 0" fresh_client]
  show ?thesis by simp
qed

text \<open>Loading the library into a program for which there is no snapshot makes or finds the ring of the
  requests and the ring for the answers of the thread, sends one handshake, listens for the thread
  and registers it, with empty tables: the state that the hooks of new threads start from.\<close>

theorem library_start_announces:
  assumes "map_of (shm_objects ss) (snapshot_name t) = None"
    and "length (request_text (HandshakeNamed t t (ce_app_name ce))) < CAPIO_REQ_MAX_SIZE"
  shows "\<exists>c ss'. init willing ce wname cwd answers t ss = Inr (c, ss') \<and>
    cl_tables c = init_filesystem cwd \<and> cl_sent c = [HandshakeNamed t t (ce_app_name ce)] \<and>
    cl_tids c = [t] \<and> announced ce c t \<and>
    queue_present (queue_names_of wname SHM_COMM_CHAN_NAME) ss' \<and>
    queue_present (queue_names_of wname (SHM_COMM_CHAN_NAME_RESP @ show_int t)) ss'"
proof -
  from init_client_willing[of wname cwd answers ss] obtain c1 ss1 where
    1: "init_client willing wname cwd answers ss = Inr (c1, ss1)"
      "c1 = \<lparr>cl_tables = init_filesystem cwd, cl_wcache = new_write_cache, cl_rcache = new_read_cache,
       cl_listening = [], cl_tids = [], cl_sent = [], cl_answers = answers, cl_errno = 0\<rparr>"
      "queue_present (queue_names_of wname SHM_COMM_CHAN_NAME) ss1"
      "\<forall>m. last m \<noteq> CHR ''r'' \<longrightarrow> map_of (shm_objects ss1) m = map_of (shm_objects ss) m" by blast
  then have "map_of (shm_objects ss1) (snapshot_name t) = None"
    using assms(1) snapshot_names_last(1) by simp
  then have 2: "get_fd_snapshot willing t ss1 = Inr (False, ss1)"
    by (simp add: get_fd_snapshot_def get_shm_if_exist_def)
  from register_listener_ring_willing[OF 1(3), of t] obtain ss2 where
    3: "register_listener_ring willing wname t ss1 = Inr ss2"
      "queue_present (queue_names_of wname SHM_COMM_CHAN_NAME) ss2"
      "queue_present (queue_names_of wname (SHM_COMM_CHAN_NAME_RESP @ show_int t)) ss2" by blast
  have "\<exists>c. init_process ce t t c1 = Inr c \<and> cl_tables c = init_filesystem cwd \<and>
      cl_sent c = [HandshakeNamed t t (ce_app_name ce)] \<and> cl_tids c = [] \<and> cl_listening c = [t]"
    using assms(2) by (simp add: 1(2) init_process_def handshake_named_request_def register_listener_def send_def)
  then obtain c where 4: "init_process ce t t c1 = Inr c" "cl_tables c = init_filesystem cwd"
      "cl_sent c = [HandshakeNamed t t (ce_app_name ce)]" "cl_tids c = []" "cl_listening c = [t]" by blast
  have "init willing ce wname cwd answers t ss = Inr (register_capio_tid t c, ss2)"
    using 1(1) 2 3(1) 4(1) by (simp add: init_def)
  with 3 4 show ?thesis by (simp add: register_capio_tid_def announced_def)
qed

lemma library_start_announces_witness:
  "\<exists>c ss'. init willing sample_client_env ''CAPIO'' ''/d'' [] 9 no_shm = Inr (c, ss') \<and>
     cl_sent c = [HandshakeNamed 9 9 ''app''] \<and>
     queue_present (queue_names_of ''CAPIO'' (SHM_COMM_CHAN_NAME_RESP @ show_int 9)) ss'"
proof -
  have "length (request_text (HandshakeNamed 9 9 (ce_app_name sample_client_env))) < CAPIO_REQ_MAX_SIZE"
    "ce_app_name sample_client_env = ''app''" by code_simp+
  with library_start_announces[of no_shm 9 sample_client_env "''CAPIO''" "''/d''" "[]"] show ?thesis
    by (auto simp: no_shm_def)
qed

text \<open>C39: Descriptors do not survive an \<open>execve\<close>: where the process had any, the library loaded into the new
  program reads the path of the first from memory it has just unmapped.\<close>

theorem init_after_execve_undefined:
  assumes "fd_wf (cl_tables c)" and "short_paths (cl_tables c)" and "get_capio_fds (cl_tables c) \<noteq> []"
    and "-1 \<notin> set (get_capio_fds (cl_tables c))"
    and "execve_handler willing t c ss = Inr (r, ss')"
  shows "init willing ce wname cwd answers t (ss'\<lparr>shm_mapped := []\<rparr>) = Inl Undefined"
proof -
  let ?fds = "get_capio_fds (cl_tables c)" and ?ss = "ss'\<lparr>shm_mapped := []\<rparr>"
  obtain e es where fds: "?fds = e # es" using assms(3) by (cases ?fds) auto
  have same: "content ?ss m = content ss' m" for m by (simp add: content_def)
  from create_snapshot_describes[OF assms(1-3), of t ss] assms(5) have
    s: "content ?ss (snapshot_name t) = Some (Fds (?fds @ [-1]))" "described t (cl_tables c) ss' e"
    unfolding same by (auto simp: execve_handler_def fds)
  from init_client_willing[of wname cwd answers ?ss] obtain c1 ss1 where
    1: "init_client willing wname cwd answers ?ss = Inr (c1, ss1)"
      "\<forall>m. last m \<noteq> CHR ''r'' \<longrightarrow> content ss1 m = content ?ss m" by blast
  have sn: "content ss1 (snapshot_name t) = Some (Fds (?fds @ [-1]))"
    using 1(2) s(1) snapshot_names_last(1) by simp
  from s(2) obtain v x where d: "content ss1 (snapshot_path_name t e) = Some v" "content ss1 (snapshot_fd_name t e) = Some x"
    using 1(2) snapshot_names_last(2,3) same by (auto simp: described_def)
  let ?ss2 = "map_object (snapshot_name t) ss1"
  have 2: "get_fd_snapshot willing t ss1 = Inr (True, ?ss2)"
    using sn by (auto simp: get_fd_snapshot_def get_shm_if_exist_def get_shm_def content_def willing_simps)
  have load: "shm_load (snapshot_name t) ?ss2 = Inr (Fds (?fds @ [-1]))"
    using sn by (auto simp: shm_load_def content_def)
  have "content ?ss2 m = content ss1 m" for m by (simp add: content_def)
  with d have "restore_fd willing t e (cl_tables c1, ?ss2) = Inl Undefined" by (intro restore_fd_undefined) auto
  then have "initialize_from_snapshot willing t (cl_tables c1, ?ss2) = Inl Undefined"
    using load assms(4) by (simp add: initialize_from_snapshot_def fds)
  with 1(1) 2 show ?thesis by (simp add: init_def)
qed

lemma init_after_execve_undefined_witness:
  "\<exists>r ss'. execve_handler willing 9 two_fds_client no_shm = Inr (r, ss') \<and>
     init willing sample_client_env ''CAPIO'' ''/d'' [] 9 (ss'\<lparr>shm_mapped := []\<rparr>) = Inl Undefined"
proof -
  have f: "get_capio_fds (cl_tables two_fds_client) \<noteq> []" "-1 \<notin> set (get_capio_fds (cl_tables two_fds_client))"
    using two_fds_client_ok(3) by simp_all
  from create_snapshot_describes[OF two_fds_client_ok(1,2) f(1), of 9 no_shm] obtain ss' where
    "execve_handler willing 9 two_fds_client no_shm = Inr ((CAPIO_POSIX_SYSCALL_SKIP, None, two_fds_client), ss')"
    by (auto simp: execve_handler_def)
  with init_after_execve_undefined[OF two_fds_client_ok(1,2) f this] show ?thesis by blast
qed

end
