(* ===== verification/ServerStart.thy ===== *)
theory ServerStart
  imports ServerSteps JsonParser Environment LibCapio
begin

text \<open>
  The start and the end of a server (\<open>src/server/capio_server.cpp\<close>, \<open>src/server/utils/signals.hpp\<close>,
  \<open>src/server/ctl-module/capio_ctl.hpp\<close>): the decisions of the command line, the components in the
  order \<open>main\<close> makes them, the named objects they leave in shared memory, and what the handler of a
  signal removes. The build without logging is modelled; the parsing of the command line is that of
  the \<open>args\<close> package, a parameter. Starting and cancelling threads and all output are left out.
\<close>

subsection \<open>The command line\<close>

record cli_options =
  cli_config :: "string option"
  cli_no_config :: bool

datatype cli = CliHelp | CliError | CliParsed cli_options

text \<open>The path of the configuration and the name of the workflow; \<open>None\<close>: the process has exited
  successfully. \<open>exit (EXIT_FAILURE)\<close> is the fault \<open>ErrExit\<close>.\<close>

definition parseCLI ::
    "variables \<Rightarrow> (string \<Rightarrow> string option) \<Rightarrow> cli \<Rightarrow> ((string \<times> string) option) res" where
  "parseCLI getenv realpath parsed =
     (case parsed of
        CliHelp \<Rightarrow> Inr None
      | CliError \<Rightarrow> Inl ErrExit
      | CliParsed opts \<Rightarrow>
          rbind (case cli_config opts of
                   Some token \<Rightarrow> Inr []
                 | None \<Rightarrow> if cli_no_config opts then Inr (get_capio_workflow_name getenv []) else Inl ErrExit)
            (\<lambda>workflow_name.
          rbind (get_capio_dir getenv realpath []) (\<lambda>_.
            Inr (Some (case cli_config opts of Some token \<Rightarrow> token | None \<Rightarrow> [], workflow_name)))))"

subsection \<open>The components\<close>

record running_server =
  rs_dir :: string
  rs_server :: server
  rs_workflow :: string
  rs_canary :: string
  rs_ctl_rx :: queue_names
  rs_ctl_tx :: queue_names
  rs_requests :: queue_names

definition CapioCTLModule_open :: "refusals \<Rightarrow> string \<Rightarrow> shm_space \<Rightarrow> ((queue_names \<times> queue_names) \<times> shm_space) res" where
  "CapioCTLModule_open k workflow_name ss =
     rbind (queue_open k workflow_name ''RX'' CAPIO_REQ_BUFF_CNT CAPIO_REQ_MAX_SIZE ss) (\<lambda>(readQueue, ss1).
     rbind (queue_open k workflow_name ''TX'' CAPIO_REQ_BUFF_CNT CAPIO_REQ_MAX_SIZE ss1) (\<lambda>(writeQueue, ss2).
       Inr ((readQueue, writeQueue), ss2)))"

definition CapioCTLModule_close :: "refusals \<Rightarrow> queue_names \<times> queue_names \<Rightarrow> shm_space \<Rightarrow> shm_space res" where
  "CapioCTLModule_close k = (\<lambda>(readQueue, writeQueue) ss.
     rbind (queue_close k readQueue ss) (queue_close k writeQueue))"

definition RequestHandlerEngine_open :: "refusals \<Rightarrow> string \<Rightarrow> shm_space \<Rightarrow> (queue_names \<times> shm_space) res" where
  "RequestHandlerEngine_open k workflow_name ss =
     queue_open k workflow_name SHM_COMM_CHAN_NAME CAPIO_REQ_BUFF_CNT CAPIO_REQ_MAX_SIZE ss"

definition RequestHandlerEngine_close :: "refusals \<Rightarrow> queue_names \<Rightarrow> shm_space \<Rightarrow> shm_space res" where
  "RequestHandlerEngine_close k = queue_close k"

definition empty_file_manager :: file_manager where
  "empty_file_manager = \<lparr>thread_awaiting_file_creation = [], thread_awaiting_data = []\<rparr>"

text \<open>\<open>main\<close> up to the loop over the requests: the objects, and before them the configuration. \<open>load\<close> reads a
  document, \<open>None\<close> if it cannot.\<close>

definition start_components ::
    "refusals \<Rightarrow> variables \<Rightarrow> string \<Rightarrow> string \<Rightarrow> engine \<Rightarrow> fs \<Rightarrow> shm_space \<Rightarrow> (running_server \<times> shm_space) res" where
  "start_components k getenv workflow_name dir capio_cl_engine f ss =
     rbind (CapioShmCanary_open k (get_capio_workflow_name getenv []) workflow_name ss) (\<lambda>(canary, ss1).
     rbind (CapioCTLModule_open k workflow_name ss1) (\<lambda>((rx, tx), ss2).
     rbind (RequestHandlerEngine_open k workflow_name ss2) (\<lambda>(requests, ss3).
       Inr (\<lparr>rs_dir = dir,
         rs_server = \<lparr>srv_engine = capio_cl_engine, srv_clients = client_manager_init,
                      srv_fm = empty_file_manager, srv_fs = f\<rparr>,
         rs_workflow = workflow_name, rs_canary = canary, rs_ctl_rx = rx, rs_ctl_tx = tx,
         rs_requests = requests\<rparr>, ss3))))"

definition server_main ::
    "refusals \<Rightarrow> variables \<Rightarrow> (string \<Rightarrow> string option) \<Rightarrow> (string \<Rightarrow> config_doc option) \<Rightarrow> cli \<Rightarrow> fs \<Rightarrow>
     shm_space \<Rightarrow> ((running_server \<times> shm_space) option) res" where
  "server_main k getenv realpath load parsed f ss =
     rbind (parseCLI getenv realpath parsed) (\<lambda>started.
       case started of
         None \<Rightarrow> Inr None
       | Some (config_path, name) \<Rightarrow>
           rbind (get_capio_dir getenv realpath []) (\<lambda>dir.
           rbind (parse dir (if config_path = [] then None else Some (load config_path))) (\<lambda>(doc_name, eng).
           rbind (start_components k getenv (case doc_name of None \<Rightarrow> name | Some wf_name \<Rightarrow> wf_name) dir eng f ss)
             (\<lambda>started. Inr (Some started)))))"

text \<open>The handler of the signals, up to the exit.\<close>

definition sig_term_handler :: "refusals \<Rightarrow> running_server \<Rightarrow> shm_space \<Rightarrow> shm_space res" where
  "sig_term_handler k rs ss =
     rbind (RequestHandlerEngine_close k (rs_requests rs) ss) (\<lambda>ss1.
     rbind (CapioCTLModule_close k (rs_ctl_rx rs, rs_ctl_tx rs) ss1) (\<lambda>ss2.
       Inr (CapioShmCanary_close k (rs_canary rs) ss2)))"

text \<open>The ring for the answers of a thread, made by \<open>register_new_client\<close> and destroyed by \<open>remove_client\<close>.\<close>

definition client_ring :: "string \<Rightarrow> tid \<Rightarrow> queue_names" where
  "client_ring workflow_name t = queue_names_of workflow_name (SHM_COMM_CHAN_NAME_RESP @ show_int t)"

definition register_client_ring :: "refusals \<Rightarrow> string \<Rightarrow> tid \<Rightarrow> shm_space \<Rightarrow> shm_space res" where
  "register_client_ring k workflow_name t ss =
     rbind (queue_open k workflow_name (SHM_COMM_CHAN_NAME_RESP @ show_int t) CAPIO_REQ_BUFF_CNT 8 ss)
       (\<lambda>(_, ss'). Inr ss')"

definition remove_client_ring :: "refusals \<Rightarrow> string \<Rightarrow> tid \<Rightarrow> shm_space \<Rightarrow> shm_space res" where
  "remove_client_ring k workflow_name t ss = queue_close k (client_ring workflow_name t) ss"

subsection \<open>The objects of different rings\<close>

lemma queue_names_suffix:
  "m \<in> queue_objects (queue_names_of w n) \<union> queue_semaphores (queue_names_of w n) \<Longrightarrow>
     \<exists>u. m = w @ CHR ''_'' # u @ n"
  by (auto simp: queue_objects_def queue_semaphores_def queue_names_of_def SHM_FIRST_ELEM_def
      SHM_LAST_ELEM_def SHM_MUTEX_PREFIX_def SHM_SEM_ELEMS_def SHM_SEM_EMPTY_def)

definition apart :: "queue_names \<Rightarrow> queue_names \<Rightarrow> bool" where
  "apart q q' \<longleftrightarrow> queue_objects q \<inter> queue_objects q' = {} \<and> queue_semaphores q \<inter> queue_semaphores q' = {}"

abbreviation queue_all :: "queue_names \<Rightarrow> string set" where
  "queue_all q \<equiv> queue_objects q \<union> queue_semaphores q"

lemma apartI: "(\<And>m. m \<in> queue_all q \<Longrightarrow> m \<in> queue_all q' \<Longrightarrow> False) \<Longrightarrow> apart q q'"
  unfolding apart_def by blast

lemma queue_names_end:
  "m \<in> queue_all (queue_names_of w n) \<Longrightarrow> 2 \<le> length n \<Longrightarrow> take 2 (rev m) = take 2 (rev n)"
  using queue_names_suffix[of m w n] by auto

lemma apart_names:
  assumes "take 2 (rev n) \<noteq> take 2 (rev n')" and "2 \<le> length n" and "2 \<le> length n'"
  shows "apart (queue_names_of w n) (queue_names_of w n')"
proof (rule apartI)
  fix m assume "m \<in> queue_all (queue_names_of w n)" "m \<in> queue_all (queue_names_of w n')"
  with assms queue_names_end[of m w n] queue_names_end[of m w n'] show False by simp
qed

lemma apart_last:
  assumes "last n \<noteq> last n'" and "n \<noteq> []" and "n' \<noteq> []"
  shows "apart (queue_names_of w n) (queue_names_of w n')"
proof (rule apartI)
  fix m assume "m \<in> queue_all (queue_names_of w n)" "m \<in> queue_all (queue_names_of w n')"
  with assms queue_names_last[of m w n] queue_names_last[of m w n'] show False by simp
qed

lemma digit_char_not_X: "d < 10 \<Longrightarrow> digit_char d \<noteq> CHR ''X''"
  by (simp add: digit_char_def digits_def less_Suc_eq numeral_eq_Suc) (auto simp: less_Suc_eq)

lemma show_int_last_X: "last (show_int t) \<noteq> CHR ''X''"
proof -
  have "last (show_nat n) \<noteq> CHR ''X''" for n
    using show_nat_digits[OF last_in_set[OF show_nat_nonempty[of n]]] digit_char_not_X by metis
  then show ?thesis by (simp add: show_int_def)
qed

text \<open>The rings of a server in the order they are made, and the canary, which is no object of a ring.\<close>

abbreviation rx_ring :: "string \<Rightarrow> queue_names" where "rx_ring w \<equiv> queue_names_of w ''RX''"
abbreviation tx_ring :: "string \<Rightarrow> queue_names" where "tx_ring w \<equiv> queue_names_of w ''TX''"
abbreviation request_ring :: "string \<Rightarrow> queue_names" where "request_ring w \<equiv> queue_names_of w SHM_COMM_CHAN_NAME"

lemma rings_apart:
  "apart (rx_ring w) (tx_ring w)" "apart (rx_ring w) (request_ring w)" "apart (tx_ring w) (request_ring w)"
  "apart (client_ring w t) (rx_ring w)" "apart (client_ring w t) (tx_ring w)" "apart (client_ring w t) (request_ring w)"
  unfolding client_ring_def
  by ((rule apart_names; simp add: SHM_COMM_CHAN_NAME_def; fail) |
      (rule apart_last; simp add: SHM_COMM_CHAN_NAME_def show_int_last_X show_int_last))+

lemma apart_sym: "apart q q' \<longleftrightarrow> apart q' q"
  by (auto simp: apart_def)

lemma canary_apart: "w \<notin> queue_objects (queue_names_of w n)"
  using queue_names_suffix[of w w n] by auto

text \<open>A ring that is opened or closed leaves rings that are apart from it, and other objects, alone.\<close>

lemma open_keeps_ring:
  assumes "queue_open willing w n mx es ss = Inr (q, ss')" and "queue_present q' ss" and "apart q' (queue_names_of w n)"
  shows "queue_present q' ss'"
proof -
  from queue_open_total[of w n mx es ss] assms(1) have
    "\<forall>m. m \<notin> queue_objects (queue_names_of w n) \<longrightarrow> map_of (shm_objects ss') m = map_of (shm_objects ss) m"
    "\<forall>m. m \<notin> queue_semaphores (queue_names_of w n) \<longrightarrow> map_of (semaphores ss') m = map_of (semaphores ss) m"
    by auto
  with assms(2,3) show ?thesis by (intro present_kept[OF assms(2)]) (auto simp: apart_def)
qed

lemma close_keeps_ring:
  assumes "queue_close willing (queue_names_of w n) ss = Inr ss'" and "queue_present (queue_names_of w n) ss"
    and "queue_present q' ss" and "apart q' (queue_names_of w n)"
  shows "queue_present q' ss' \<and> (\<forall>m \<in> queue_objects q'. map_of (shm_objects ss') m = map_of (shm_objects ss) m) \<and>
    (\<forall>m \<in> queue_semaphores q'. map_of (semaphores ss') m = map_of (semaphores ss) m)"
proof -
  from queue_close_total[OF assms(2)] assms(1) have
    c: "\<forall>m. map_of (shm_objects ss') m = (if m \<in> queue_objects (queue_names_of w n) then None else map_of (shm_objects ss) m)"
    "\<forall>m. map_of (semaphores ss') m = (if m \<in> queue_semaphores (queue_names_of w n) then None else map_of (semaphores ss) m)"
    by auto
  with assms(4) have k: "\<forall>m \<in> queue_objects q'. map_of (shm_objects ss') m = map_of (shm_objects ss) m"
    "\<forall>m \<in> queue_semaphores q'. map_of (semaphores ss') m = map_of (semaphores ss) m"
    by (auto simp: apart_def)
  with present_kept[OF assms(3) k] show ?thesis by blast
qed

subsection \<open>What a started server is\<close>

lemma queue_open_names: "queue_open k w n mx es ss = Inr (q, ss') \<Longrightarrow> q = queue_names_of w n"
  by (auto simp: queue_open_def Let_def res_simps split: if_splits)

lemma server_main_Inr:
  assumes "server_main k getenv realpath load parsed f ss = Inr (Some (rs, ss'))"
  shows "\<exists>config_path name doc_name eng ss1 ss2 ss3.
    parseCLI getenv realpath parsed = Inr (Some (config_path, name)) \<and>
    get_capio_dir getenv realpath [] = Inr (rs_dir rs) \<and>
    parse (rs_dir rs) (if config_path = [] then None else Some (load config_path)) = Inr (doc_name, eng) \<and>
    rs_server rs = server_start eng f \<and>
    rs_workflow rs = (case doc_name of None \<Rightarrow> name | Some n \<Rightarrow> n) \<and>
    CapioShmCanary_open k (get_capio_workflow_name getenv []) (rs_workflow rs) ss = Inr (rs_canary rs, ss1) \<and>
    queue_open k (rs_workflow rs) ''RX'' CAPIO_REQ_BUFF_CNT CAPIO_REQ_MAX_SIZE ss1 = Inr (rs_ctl_rx rs, ss2) \<and>
    queue_open k (rs_workflow rs) ''TX'' CAPIO_REQ_BUFF_CNT CAPIO_REQ_MAX_SIZE ss2 = Inr (rs_ctl_tx rs, ss3) \<and>
    queue_open k (rs_workflow rs) SHM_COMM_CHAN_NAME CAPIO_REQ_BUFF_CNT CAPIO_REQ_MAX_SIZE ss3 = Inr (rs_requests rs, ss')"
proof -
  from assms obtain config_path name where p: "parseCLI getenv realpath parsed = Inr (Some (config_path, name))"
    by (cases "parseCLI getenv realpath parsed") (auto simp: server_main_def split: option.splits)
  with assms obtain dir doc_name eng where
    d: "get_capio_dir getenv realpath [] = Inr dir"
      "parse dir (if config_path = [] then None else Some (load config_path)) = Inr (doc_name, eng)"
    and c: "start_components k getenv (case doc_name of None \<Rightarrow> name | Some n \<Rightarrow> n) dir eng f ss = Inr (rs, ss')"
      (is "start_components k getenv ?w dir eng f ss = _")
    by (auto simp: server_main_def res_simps split del: if_split)
  from c obtain canary ss1 rx tx ss3 requests where
    c: "CapioShmCanary_open k (get_capio_workflow_name getenv []) ?w ss = Inr (canary, ss1)"
      "CapioCTLModule_open k ?w ss1 = Inr ((rx, tx), ss3)"
      "RequestHandlerEngine_open k ?w ss3 = Inr (requests, ss')"
    and rs: "rs = \<lparr>rs_dir = dir, rs_server = server_start eng f, rs_workflow = ?w, rs_canary = canary,
      rs_ctl_rx = rx, rs_ctl_tx = tx, rs_requests = requests\<rparr>"
    unfolding start_components_def by (auto simp: res_simps server_start_def empty_file_manager_def)
  from c(2) obtain ss2 where "queue_open k ?w ''RX'' CAPIO_REQ_BUFF_CNT CAPIO_REQ_MAX_SIZE ss1 = Inr (rx, ss2)"
      "queue_open k ?w ''TX'' CAPIO_REQ_BUFF_CNT CAPIO_REQ_MAX_SIZE ss2 = Inr (tx, ss3)"
    unfolding CapioCTLModule_open_def by (auto simp: res_simps)
  with p d c(1,3) show ?thesis
    by (intro exI[of _ config_path] exI[of _ name] exI[of _ doc_name] exI[of _ eng] exI[of _ ss1] exI[of _ ss2]
        exI[of _ ss3]) (simp add: rs RequestHandlerEngine_open_def)
qed

lemma server_main_rings:
  assumes "server_main k getenv realpath load parsed f ss = Inr (Some (rs, ss'))"
  shows "rs_ctl_rx rs = rx_ring (rs_workflow rs)" "rs_ctl_tx rs = tx_ring (rs_workflow rs)"
    "rs_requests rs = request_ring (rs_workflow rs)"
    "rs_workflow rs \<noteq> [] \<Longrightarrow> rs_canary rs = rs_workflow rs"
  using server_main_Inr[OF assms]
  by (auto simp: CapioShmCanary_open_def Let_def res_simps dest!: queue_open_names)

definition server_objects :: "string \<Rightarrow> shm_space \<Rightarrow> bool" where
  "server_objects w ss \<longleftrightarrow> queue_present (rx_ring w) ss \<and> queue_present (tx_ring w) ss \<and>
     queue_present (request_ring w) ss \<and> map_of (shm_objects ss) w \<noteq> None"

lemma open_delta:
  assumes "queue_open willing w n mx es ss = Inr (q, ss')"
  shows "queue_present (queue_names_of w n) ss'"
    "m \<notin> queue_objects (queue_names_of w n) \<Longrightarrow> map_of (shm_objects ss') m = map_of (shm_objects ss) m"
    "m \<notin> queue_semaphores (queue_names_of w n) \<Longrightarrow> map_of (semaphores ss') m = map_of (semaphores ss) m"
  using queue_open_total[of w n mx es ss] assms by auto

lemma canary_open_delta:
  assumes "CapioShmCanary_open k env_name w ss = Inr (canary, ss')" and "w \<noteq> []"
  shows "canary = w" "map_of (shm_objects ss) w = None" "map_of (shm_objects ss') w \<noteq> None"
    "m \<noteq> w \<Longrightarrow> map_of (shm_objects ss') m = map_of (shm_objects ss) m" "semaphores ss' = semaphores ss"
  using assms by (auto simp: CapioShmCanary_open_def Let_def res_simps umap_simps)

text \<open>What the canary and the three rings leave, made one after the other.\<close>

lemma opens_objects:
  assumes c: "CapioShmCanary_open willing env_name w ss = Inr (canary, ss1)"
    and x: "queue_open willing w ''RX'' CAPIO_REQ_BUFF_CNT CAPIO_REQ_MAX_SIZE ss1 = Inr (rx, ss2)"
    and t: "queue_open willing w ''TX'' CAPIO_REQ_BUFF_CNT CAPIO_REQ_MAX_SIZE ss2 = Inr (tx, ss3)"
    and r: "queue_open willing w SHM_COMM_CHAN_NAME CAPIO_REQ_BUFF_CNT CAPIO_REQ_MAX_SIZE ss3 = Inr (requests, ss')"
    and w: "w \<noteq> []"
  shows "server_objects w ss'" "map_of (shm_objects ss) w = None"
    "m \<notin> queue_objects (rx_ring w) \<union> queue_objects (tx_ring w) \<union> queue_objects (request_ring w) \<union> {w} \<Longrightarrow>
       map_of (shm_objects ss') m = map_of (shm_objects ss) m"
    "m \<notin> queue_semaphores (rx_ring w) \<union> queue_semaphores (tx_ring w) \<union> queue_semaphores (request_ring w) \<Longrightarrow>
       map_of (semaphores ss') m = map_of (semaphores ss) m"
proof -
  have "queue_present (rx_ring w) ss'"
    using open_keeps_ring[OF r open_keeps_ring[OF t open_delta(1)[OF x]]] rings_apart by blast
  moreover have "queue_present (tx_ring w) ss'"
    using open_keeps_ring[OF r open_delta(1)[OF t]] rings_apart by blast
  ultimately show "server_objects w ss'"
    using open_delta(1)[OF r] open_delta(2)[OF r canary_apart] open_delta(2)[OF t canary_apart]
      open_delta(2)[OF x canary_apart] canary_open_delta(3)[OF c w]
    by (simp add: server_objects_def)
  show "map_of (shm_objects ss) w = None" by (rule canary_open_delta(2)[OF c w])
  show "map_of (shm_objects ss') m = map_of (shm_objects ss) m"
    if "m \<notin> queue_objects (rx_ring w) \<union> queue_objects (tx_ring w) \<union> queue_objects (request_ring w) \<union> {w}"
    using that open_delta(2)[OF r, of m] open_delta(2)[OF t, of m] open_delta(2)[OF x, of m]
      canary_open_delta(4)[OF c w, of m] by simp
  show "map_of (semaphores ss') m = map_of (semaphores ss) m"
    if "m \<notin> queue_semaphores (rx_ring w) \<union> queue_semaphores (tx_ring w) \<union> queue_semaphores (request_ring w)"
    using that open_delta(3)[OF r, of m] open_delta(3)[OF t, of m] open_delta(3)[OF x, of m]
      canary_open_delta(5)[OF c w] by simp
qed

text \<open>Starting from a space without the rings of the workflow.\<close>

lemma server_main_objects:
  assumes "server_main willing getenv realpath load parsed f ss = Inr (Some (rs, ss'))"
    and "rs_workflow rs \<noteq> []"
  shows "server_objects (rs_workflow rs) ss'"
    "map_of (shm_objects ss) (rs_workflow rs) = None"
    "m \<notin> queue_objects (rx_ring (rs_workflow rs)) \<union> queue_objects (tx_ring (rs_workflow rs)) \<union>
       queue_objects (request_ring (rs_workflow rs)) \<union> {rs_workflow rs} \<Longrightarrow>
       map_of (shm_objects ss') m = map_of (shm_objects ss) m"
    "m \<notin> queue_semaphores (rx_ring (rs_workflow rs)) \<union> queue_semaphores (tx_ring (rs_workflow rs)) \<union>
       queue_semaphores (request_ring (rs_workflow rs)) \<Longrightarrow> map_of (semaphores ss') m = map_of (semaphores ss) m"
proof -
  from server_main_Inr[OF assms(1)] obtain ss1 ss2 ss3 where o:
    "CapioShmCanary_open willing (get_capio_workflow_name getenv []) (rs_workflow rs) ss = Inr (rs_canary rs, ss1)"
    "queue_open willing (rs_workflow rs) ''RX'' CAPIO_REQ_BUFF_CNT CAPIO_REQ_MAX_SIZE ss1 = Inr (rs_ctl_rx rs, ss2)"
    "queue_open willing (rs_workflow rs) ''TX'' CAPIO_REQ_BUFF_CNT CAPIO_REQ_MAX_SIZE ss2 = Inr (rs_ctl_tx rs, ss3)"
    "queue_open willing (rs_workflow rs) SHM_COMM_CHAN_NAME CAPIO_REQ_BUFF_CNT CAPIO_REQ_MAX_SIZE ss3 = Inr (rs_requests rs, ss')"
    by blast
  note opens_objects[OF o assms(2)]
  then show "server_objects (rs_workflow rs) ss'"
    "map_of (shm_objects ss) (rs_workflow rs) = None"
    "m \<notin> queue_objects (rx_ring (rs_workflow rs)) \<union> queue_objects (tx_ring (rs_workflow rs)) \<union>
       queue_objects (request_ring (rs_workflow rs)) \<union> {rs_workflow rs} \<Longrightarrow>
       map_of (shm_objects ss') m = map_of (shm_objects ss) m"
    "m \<notin> queue_semaphores (rx_ring (rs_workflow rs)) \<union> queue_semaphores (tx_ring (rs_workflow rs)) \<union>
       queue_semaphores (request_ring (rs_workflow rs)) \<Longrightarrow> map_of (semaphores ss') m = map_of (semaphores ss) m"
    by blast+
qed

lemma start_components_willing:
  assumes "map_of (shm_objects ss) w = None" and "w \<noteq> []"
  shows "\<exists>rs ss'. start_components willing getenv w dir eng f ss = Inr (rs, ss') \<and> rs_workflow rs = w \<and> rs_dir rs = dir"
proof -
  from assms obtain ss1 where 1: "CapioShmCanary_open willing (get_capio_workflow_name getenv []) w ss = Inr (w, ss1)"
    by (simp add: CapioShmCanary_open_def willing_simps)
  from queue_open_total obtain ss2 where
    2: "queue_open willing w ''RX'' CAPIO_REQ_BUFF_CNT CAPIO_REQ_MAX_SIZE ss1 = Inr (rx_ring w, ss2)" by blast
  from queue_open_total obtain ss3 where
    3: "queue_open willing w ''TX'' CAPIO_REQ_BUFF_CNT CAPIO_REQ_MAX_SIZE ss2 = Inr (tx_ring w, ss3)" by blast
  from queue_open_total obtain ss4 where
    4: "queue_open willing w SHM_COMM_CHAN_NAME CAPIO_REQ_BUFF_CNT CAPIO_REQ_MAX_SIZE ss3 = Inr (request_ring w, ss4)" by blast
  from 1 2 3 4 show ?thesis
    by (simp add: start_components_def CapioCTLModule_open_def RequestHandlerEngine_open_def)
qed

text \<open>What the control module removes, and what the signal handler removes; and that they remove nothing else.\<close>

lemma ctl_close_removes:
  assumes "queue_present (rx_ring w) ss" and "queue_present (tx_ring w) ss"
  shows "\<exists>ss'. CapioCTLModule_close willing (rx_ring w, tx_ring w) ss = Inr ss' \<and>
    (\<forall>m. map_of (shm_objects ss') m =
      (if m \<in> queue_objects (rx_ring w) \<union> queue_objects (tx_ring w) then None else map_of (shm_objects ss) m)) \<and>
    (\<forall>m. map_of (semaphores ss') m =
      (if m \<in> queue_semaphores (rx_ring w) \<union> queue_semaphores (tx_ring w) then None else map_of (semaphores ss) m))"
proof -
  from queue_close_total[OF assms(1)] obtain ss2 where
    2: "queue_close willing (rx_ring w) ss = Inr ss2"
      "\<forall>m. map_of (shm_objects ss2) m = (if m \<in> queue_objects (rx_ring w) then None else map_of (shm_objects ss) m)"
      "\<forall>m. map_of (semaphores ss2) m = (if m \<in> queue_semaphores (rx_ring w) then None else map_of (semaphores ss) m)"
    by blast
  have p2: "queue_present (tx_ring w) ss2"
    using close_keeps_ring[OF 2(1) assms] rings_apart(1)[of w] apart_sym by blast
  from queue_close_total[OF p2] obtain ss3 where
    3: "queue_close willing (tx_ring w) ss2 = Inr ss3"
      "\<forall>m. map_of (shm_objects ss3) m = (if m \<in> queue_objects (tx_ring w) then None else map_of (shm_objects ss2) m)"
      "\<forall>m. map_of (semaphores ss3) m = (if m \<in> queue_semaphores (tx_ring w) then None else map_of (semaphores ss2) m)"
    by blast
  from 2 3 show ?thesis by (auto simp: CapioCTLModule_close_def)
qed

lemma sig_term_removes:
  assumes "server_objects w ss" and "rs_requests rs = request_ring w" and "rs_ctl_rx rs = rx_ring w"
    and "rs_ctl_tx rs = tx_ring w" and "rs_canary rs = w"
  shows "\<exists>ss'. sig_term_handler willing rs ss = Inr ss' \<and>
    (\<forall>m. map_of (shm_objects ss') m =
      (if m \<in> queue_objects (rx_ring w) \<union> queue_objects (tx_ring w) \<union> queue_objects (request_ring w) \<union> {w}
       then None else map_of (shm_objects ss) m)) \<and>
    (\<forall>m. map_of (semaphores ss') m =
      (if m \<in> queue_semaphores (rx_ring w) \<union> queue_semaphores (tx_ring w) \<union> queue_semaphores (request_ring w)
       then None else map_of (semaphores ss) m))"
proof -
  from assms(1) have p: "queue_present (request_ring w) ss" "queue_present (rx_ring w) ss" "queue_present (tx_ring w) ss"
    by (simp_all add: server_objects_def)
  from queue_close_total[OF p(1)] obtain ss1 where
    1: "queue_close willing (request_ring w) ss = Inr ss1"
      "\<forall>m. map_of (shm_objects ss1) m = (if m \<in> queue_objects (request_ring w) then None else map_of (shm_objects ss) m)"
      "\<forall>m. map_of (semaphores ss1) m = (if m \<in> queue_semaphores (request_ring w) then None else map_of (semaphores ss) m)"
    by blast
  have p1: "queue_present (rx_ring w) ss1" "queue_present (tx_ring w) ss1"
    using close_keeps_ring[OF 1(1) p(1)] p(2,3) rings_apart(2,3)[of w] by blast+
  from ctl_close_removes[OF p1] obtain ss2 where
    2: "CapioCTLModule_close willing (rx_ring w, tx_ring w) ss1 = Inr ss2"
      "\<forall>m. map_of (shm_objects ss2) m =
        (if m \<in> queue_objects (rx_ring w) \<union> queue_objects (tx_ring w) then None else map_of (shm_objects ss1) m)"
      "\<forall>m. map_of (semaphores ss2) m =
        (if m \<in> queue_semaphores (rx_ring w) \<union> queue_semaphores (tx_ring w) then None else map_of (semaphores ss1) m)"
    by blast
  have "sig_term_handler willing rs ss = Inr (SHM_DESTROY_CHECK willing w ss2)"
    using 1(1) 2(1) assms(2-5)
    by (simp add: sig_term_handler_def RequestHandlerEngine_close_def CapioShmCanary_close_def)
  then show ?thesis using 1(2,3) 2(2,3) by (auto simp: destroy_objects)
qed

subsection \<open>Properties\<close>

text \<open>C23: A server that starts, from whatever command line, environment and configuration, has a table whose
  keys are absolute paths with one entry each and whose close counts fit their type, with an entry for
  the CAPIO directory, which is absolute and not below a forbidden one; and from there on, in every state
  it reaches, the tables of clients and waiting threads keep their invariant.\<close>

theorem started_server_typed:
  assumes "server_main k getenv realpath load parsed f ss = Inr (Some (rs, ss'))"
    and "\<And>v p. realpath v = Some p \<Longrightarrow> is_absolute p"
  shows "is_absolute (rs_dir rs) \<and> \<not> is_forbidden_path (rs_dir rs) \<and>
    absolute_keys (srv_engine (rs_server rs)) \<and> typed_counts (srv_engine (rs_server rs)) \<and>
    umap_wf (srv_engine (rs_server rs)) \<and> map_of (srv_engine (rs_server rs)) (rs_dir rs) \<noteq> None \<and>
    reachable env (srv_engine (rs_server rs)) (rs_server rs) \<and>
    (\<forall>s. reachable env (srv_engine (rs_server rs)) s \<longrightarrow> server_inv s)"
proof -
  from server_main_Inr[OF assms(1)] obtain src doc_name eng where
    d: "get_capio_dir getenv realpath [] = Inr (rs_dir rs)" and p: "parse (rs_dir rs) src = Inr (doc_name, eng)"
    and s: "rs_server rs = server_start eng f" by blast
  from d assms(2) have dir: "is_absolute (rs_dir rs)" "\<not> is_forbidden_path (rs_dir rs)"
    by (auto simp: get_capio_dir_Inr)
  have e: "srv_engine (rs_server rs) = eng" by (simp add: s server_start_def)
  have "absolute_keys eng" by (rule absk.parse_inv[OF p dir(1)]) (erule absolute_newFile[OF _ dir(1)], simp)
  moreover have "typed_counts eng"
    by (rule typk.parse_inv[OF p dir(1)]) (erule typed_newFile, simp add: typed_counts_def)
  moreover have wf: "umap_wf eng" by (rule wft.parse_inv[OF p dir(1)]) (erule newFile_wf, simp)
  moreover have "map_of eng (rs_dir rs) \<noteq> None"
    by (rule keepk.parse_inv[OF p dir(1)]) (auto dest: newFile_defined)
  moreover have "reachable env eng (rs_server rs)" unfolding s by (rule reachable.start)
  ultimately show ?thesis using dir reachable_inv[OF _ wf] unfolding e by blast
qed

definition sample_realpath :: "string \<Rightarrow> string option" where
  "sample_realpath v = (if is_absolute v then Some v else None)"

definition sample_cli :: cli where
  "sample_cli = CliParsed \<lparr>cli_config = Some ''wf.json'', cli_no_config = False\<rparr>"

lemma sample_start:
  "\<exists>rs ss'. server_main willing sample_variables sample_realpath (\<lambda>_. Some sample_config) sample_cli
       [(''/d'', Dir)] no_shm = Inr (Some (rs, ss')) \<and> rs_workflow rs = ''wf'' \<and> rs_dir rs = ''/d''"
proof -
  have p: "parseCLI sample_variables sample_realpath sample_cli = Inr (Some (''wf.json'', []))"
    "get_capio_dir sample_variables sample_realpath [] = Inr ''/d''" by code_simp+
  have "case parse ''/d'' (Some (Some sample_config)) of Inr (Some n, _) \<Rightarrow> n = ''wf'' | _ \<Rightarrow> False" by code_simp
  then obtain eng where e: "parse ''/d'' (Some (Some sample_config)) = Inr (Some ''wf'', eng)"
    by (auto split: sum.splits option.splits)
  from start_components_willing[of no_shm "''wf''" sample_variables "''/d''" eng "[(''/d'', Dir)]"] obtain rs ss' where
    "start_components willing sample_variables ''wf'' ''/d'' eng [(''/d'', Dir)] no_shm = Inr (rs, ss')"
    "rs_workflow rs = ''wf''" "rs_dir rs = ''/d''" by (auto simp: no_shm_def)
  with p e show ?thesis by (simp add: server_main_def)
qed

lemma started_server_typed_witness:
  "\<exists>rs ss'. server_main willing sample_variables sample_realpath (\<lambda>_. Some sample_config) sample_cli
       [(''/d'', Dir)] no_shm = Inr (Some (rs, ss')) \<and> map_of (srv_engine (rs_server rs)) ''/d'' \<noteq> None \<and>
     server_inv (rs_server rs)"
proof -
  from sample_start obtain rs ss' where s: "server_main willing sample_variables sample_realpath
      (\<lambda>_. Some sample_config) sample_cli [(''/d'', Dir)] no_shm = Inr (Some (rs, ss'))" "rs_dir rs = ''/d''" by blast
  have "sample_realpath v = Some p \<Longrightarrow> is_absolute p" for v p by (auto simp: sample_realpath_def split: if_splits)
  from started_server_typed[OF s(1) this] s show ?thesis by auto
qed

text \<open>C24: One server per workflow: as long as the canary of a server that has started is there, be the server
  running or dead, the same start fails, and any other that succeeds has a different canary.\<close>

theorem one_server_per_workflow:
  assumes "server_main k getenv realpath load parsed f ss = Inr (Some (rs, ss'))"
    and "map_of (shm_objects ss2) (rs_canary rs) \<noteq> None"
  shows "server_main k2 getenv realpath load parsed f2 ss2 = Inl ErrExit \<and>
    (\<forall>getenv' realpath' load' parsed' rs' ss3.
      server_main k2 getenv' realpath' load' parsed' f2 ss2 = Inr (Some (rs', ss3)) \<longrightarrow> rs_canary rs' \<noteq> rs_canary rs)"
proof
  from server_main_Inr[OF assms(1)] obtain config_path name doc_name eng ss1 where
    p: "parseCLI getenv realpath parsed = Inr (Some (config_path, name))"
      "get_capio_dir getenv realpath [] = Inr (rs_dir rs)"
      "parse (rs_dir rs) (if config_path = [] then None else Some (load config_path)) = Inr (doc_name, eng)"
      "rs_workflow rs = (case doc_name of None \<Rightarrow> name | Some n \<Rightarrow> n)"
    and c: "CapioShmCanary_open k (get_capio_workflow_name getenv []) (rs_workflow rs) ss = Inr (rs_canary rs, ss1)"
    by blast
  from c have "rs_canary rs = (if rs_workflow rs = [] then get_capio_workflow_name getenv [] else rs_workflow rs)"
    by (auto simp: CapioShmCanary_open_def Let_def res_simps)
  with assms(2) have "CapioShmCanary_open k2 (get_capio_workflow_name getenv []) (rs_workflow rs) ss2 = Inl ErrExit"
    by (simp add: CapioShmCanary_open_def Let_def)
  then show "server_main k2 getenv realpath load parsed f2 ss2 = Inl ErrExit"
    using p(1-3) by (simp add: server_main_def start_components_def p(4)[symmetric] split del: if_split)
  show "\<forall>getenv' realpath' load' parsed' rs' ss3.
      server_main k2 getenv' realpath' load' parsed' f2 ss2 = Inr (Some (rs', ss3)) \<longrightarrow> rs_canary rs' \<noteq> rs_canary rs"
  proof (intro allI impI)
    fix getenv' realpath' load' parsed' rs' ss3
    assume "server_main k2 getenv' realpath' load' parsed' f2 ss2 = Inr (Some (rs', ss3))"
    from server_main_Inr[OF this] obtain ss4 where
      "CapioShmCanary_open k2 (get_capio_workflow_name getenv' []) (rs_workflow rs') ss2 = Inr (rs_canary rs', ss4)"
      by blast
    then have "map_of (shm_objects ss2) (rs_canary rs') = None"
      by (auto simp: CapioShmCanary_open_def Let_def res_simps)
    with assms(2) show "rs_canary rs' \<noteq> rs_canary rs" by auto
  qed
qed

lemma one_server_per_workflow_witness:
  "\<exists>rs ss'. server_main willing sample_variables sample_realpath (\<lambda>_. Some sample_config) sample_cli
       [(''/d'', Dir)] no_shm = Inr (Some (rs, ss')) \<and>
     server_main willing sample_variables sample_realpath (\<lambda>_. Some sample_config) sample_cli
       [(''/d'', Dir)] ss' = Inl ErrExit"
proof -
  from sample_start obtain rs ss' where s: "server_main willing sample_variables sample_realpath
      (\<lambda>_. Some sample_config) sample_cli [(''/d'', Dir)] no_shm = Inr (Some (rs, ss'))" "rs_workflow rs = ''wf''" by blast
  have "map_of (shm_objects ss') (rs_canary rs) \<noteq> None"
    using server_main_objects(1)[OF s(1)] server_main_rings(4)[OF s(1)] s(2) by (simp add: server_objects_def)
  from one_server_per_workflow[OF s(1) this] s(1) show ?thesis by blast
qed

text \<open>C25: A server that has started, with a name for its workflow that is not empty and no rings of that
  workflow in shared memory before, and that gets a signal in its main thread right after its start, before a
  client has registered, removes exactly what it made: the named objects are as they were before it started, so the next server
  of the workflow can start. (Rings that a crashed server has left are removed as well, so the objects are then
  not what they were; in a helper thread the handler is undefined, \<open>signal_on_helper_undefined\<close>; rings of
  clients stay, \<open>shutdown_leaves_client_rings\<close>.)\<close>

theorem shutdown_restores_objects:
  assumes "server_main willing getenv realpath load parsed f ss = Inr (Some (rs, ss1))"
    and "rs_workflow rs \<noteq> []"
    and "queue_absent (rx_ring (rs_workflow rs)) ss" and "queue_absent (tx_ring (rs_workflow rs)) ss"
    and "queue_absent (request_ring (rs_workflow rs)) ss"
  shows "\<exists>ss2. sig_term_handler willing rs ss1 = Inr ss2 \<and> same_objects ss ss2"
proof -
  note o = server_main_objects[OF assms(1,2)] and r = server_main_rings[OF assms(1)]
  from sig_term_removes[OF o(1) r(3,1,2) r(4)[OF assms(2)]] obtain ss2 where
    2: "sig_term_handler willing rs ss1 = Inr ss2"
      "\<forall>m. map_of (shm_objects ss2) m = (if m \<in> queue_objects (rx_ring (rs_workflow rs)) \<union>
         queue_objects (tx_ring (rs_workflow rs)) \<union> queue_objects (request_ring (rs_workflow rs)) \<union> {rs_workflow rs}
       then None else map_of (shm_objects ss1) m)"
      "\<forall>m. map_of (semaphores ss2) m = (if m \<in> queue_semaphores (rx_ring (rs_workflow rs)) \<union>
         queue_semaphores (tx_ring (rs_workflow rs)) \<union> queue_semaphores (request_ring (rs_workflow rs))
       then None else map_of (semaphores ss1) m)" by blast
  have "map_of (shm_objects ss) m = map_of (shm_objects ss2) m" for m
    using 2(2) o(2) o(3)[rule_format, of m] assms(3-5) by (auto simp: queue_absent_def)
  moreover have "map_of (semaphores ss) m = map_of (semaphores ss2) m" for m
    using 2(3) o(4)[rule_format, of m] assms(3-5) by (auto simp: queue_absent_def)
  ultimately show ?thesis using 2(1) by (auto simp: same_objects_def)
qed

lemma shutdown_restores_objects_witness:
  "\<exists>rs ss1 ss2. server_main willing sample_variables sample_realpath (\<lambda>_. Some sample_config) sample_cli
       [(''/d'', Dir)] no_shm = Inr (Some (rs, ss1)) \<and> sig_term_handler willing rs ss1 = Inr ss2 \<and>
     same_objects no_shm ss2"
proof -
  from sample_start obtain rs ss1 where s: "server_main willing sample_variables sample_realpath
      (\<lambda>_. Some sample_config) sample_cli [(''/d'', Dir)] no_shm = Inr (Some (rs, ss1))" "rs_workflow rs = ''wf''" by blast
  from shutdown_restores_objects[OF s(1)] s show ?thesis by (auto simp: queue_absent_def no_shm_def)
qed

text \<open>A client that exits before the shutdown leaves nothing: \<open>remove_client\<close> removes all that the
  registration made, if no ring of an earlier run was there.\<close>

lemma removed_client_leaves_nothing:
  assumes "queue_absent (client_ring w t) ss" and "register_client_ring willing w t ss = Inr ss1"
  shows "\<exists>ss2. remove_client_ring willing w t ss1 = Inr ss2 \<and> same_objects ss ss2"
proof -
  from queue_open_total[of w "SHM_COMM_CHAN_NAME_RESP @ show_int t" CAPIO_REQ_BUFF_CNT 8 ss] assms(2) have
    o: "queue_present (client_ring w t) ss1"
      "\<forall>m. m \<notin> queue_objects (client_ring w t) \<longrightarrow> map_of (shm_objects ss1) m = map_of (shm_objects ss) m"
      "\<forall>m. m \<notin> queue_semaphores (client_ring w t) \<longrightarrow> map_of (semaphores ss1) m = map_of (semaphores ss) m"
    by (auto simp: register_client_ring_def client_ring_def)
  from queue_close_total[OF o(1)[unfolded client_ring_def], folded client_ring_def] obtain ss2 where
    c: "queue_close willing (client_ring w t) ss1 = Inr ss2"
      "\<forall>m. map_of (shm_objects ss2) m = (if m \<in> queue_objects (client_ring w t) then None else map_of (shm_objects ss1) m)"
      "\<forall>m. map_of (semaphores ss2) m = (if m \<in> queue_semaphores (client_ring w t) then None else map_of (semaphores ss1) m)"
    by blast
  have "same_objects ss ss2"
    using o(2,3) c(2,3) assms(1) unfolding same_objects_def queue_absent_def by auto
  with c(1) show ?thesis by (auto simp: remove_client_ring_def)
qed

text \<open>The shutdown leaves the rings for the answers of the clients that have not exited, with their counts and
  contents, and a server of the next run that registers a thread with the same id takes the ring over as
  it is: answers of the old run are delivered in the new one.\<close>

theorem shutdown_leaves_client_rings:
  assumes "server_main willing getenv realpath load parsed f ss = Inr (Some (rs, ss1))"
    and "rs_workflow rs \<noteq> []" and "server_objects (rs_workflow rs) ss2"
    and "queue_present (client_ring (rs_workflow rs) t) ss2"
  shows "\<exists>ss3. sig_term_handler willing rs ss2 = Inr ss3 \<and> queue_present (client_ring (rs_workflow rs) t) ss3 \<and>
    (\<forall>m \<in> queue_objects (client_ring (rs_workflow rs) t). map_of (shm_objects ss3) m = map_of (shm_objects ss2) m) \<and>
    (\<forall>m \<in> queue_semaphores (client_ring (rs_workflow rs) t). map_of (semaphores ss3) m = map_of (semaphores ss2) m) \<and>
    (\<exists>ss4. register_client_ring willing (rs_workflow rs) t ss3 = Inr ss4 \<and> same_objects ss3 ss4)"
proof -
  let ?w = "rs_workflow rs" and ?q = "client_ring (rs_workflow rs) t"
  note r = server_main_rings[OF assms(1)]
  from sig_term_removes[OF assms(3) r(3,1,2) r(4)[OF assms(2)]] obtain ss3 where
    3: "sig_term_handler willing rs ss2 = Inr ss3"
      "\<forall>m. map_of (shm_objects ss3) m = (if m \<in> queue_objects (rx_ring ?w) \<union> queue_objects (tx_ring ?w) \<union>
         queue_objects (request_ring ?w) \<union> {?w} then None else map_of (shm_objects ss2) m)"
      "\<forall>m. map_of (semaphores ss3) m = (if m \<in> queue_semaphores (rx_ring ?w) \<union> queue_semaphores (tx_ring ?w) \<union>
         queue_semaphores (request_ring ?w) then None else map_of (semaphores ss2) m)" by blast
  have k: "\<forall>m \<in> queue_objects ?q. map_of (shm_objects ss3) m = map_of (shm_objects ss2) m"
    using 3(2) rings_apart(4-6)[of ?w t] canary_apart[of ?w] unfolding client_ring_def apart_def by auto
  have ks: "\<forall>m \<in> queue_semaphores ?q. map_of (semaphores ss3) m = map_of (semaphores ss2) m"
    using 3(3) rings_apart(4-6)[of ?w t] unfolding apart_def by auto
  have p: "queue_present ?q ss3" by (rule present_kept[OF assms(4) k ks])
  from queue_open_present[OF p[unfolded client_ring_def], of CAPIO_REQ_BUFF_CNT 8] have
    "\<exists>ss4. register_client_ring willing ?w t ss3 = Inr ss4 \<and> same_objects ss3 ss4"
    by (auto simp: register_client_ring_def)
  with 3(1) p k ks show ?thesis by blast
qed

lemma shutdown_leaves_client_rings_witness:
  "\<exists>rs ss1 ss2 ss3. server_main willing sample_variables sample_realpath (\<lambda>_. Some sample_config) sample_cli
       [(''/d'', Dir)] no_shm = Inr (Some (rs, ss1)) \<and> register_client_ring willing ''wf'' 8 ss1 = Inr ss2 \<and>
     sig_term_handler willing rs ss2 = Inr ss3 \<and> queue_present (client_ring ''wf'' 8) ss3"
proof -
  from sample_start obtain rs ss1 where s: "server_main willing sample_variables sample_realpath
      (\<lambda>_. Some sample_config) sample_cli [(''/d'', Dir)] no_shm = Inr (Some (rs, ss1))" "rs_workflow rs = ''wf''" by blast
  from queue_open_total[of "''wf''" "SHM_COMM_CHAN_NAME_RESP @ show_int 8" CAPIO_REQ_BUFF_CNT 8 ss1] obtain ss2 where
    q: "queue_open willing ''wf'' (SHM_COMM_CHAN_NAME_RESP @ show_int 8) CAPIO_REQ_BUFF_CNT 8 ss1 =
        Inr (queue_names_of ''wf'' (SHM_COMM_CHAN_NAME_RESP @ show_int 8), ss2)"
      "queue_present (client_ring ''wf'' 8) ss2" unfolding client_ring_def by blast
  then have reg: "register_client_ring willing ''wf'' 8 ss1 = Inr ss2" by (simp add: register_client_ring_def)
  have o: "server_objects ''wf'' ss1" using server_main_objects(1)[OF s(1)] s(2) by simp
  have "server_objects ''wf'' ss2"
    using o open_keeps_ring[OF q(1)] rings_apart(4-6)[of "''wf''" 8] open_delta(2)[OF q(1) canary_apart]
    by (auto simp: server_objects_def apart_sym client_ring_def)
  with shutdown_leaves_client_rings[OF s(1), of ss2 8] s(2) q(2) obtain ss3 where
    "sig_term_handler willing rs ss2 = Inr ss3" "queue_present (client_ring ''wf'' 8) ss3" by auto
  with s(1) reg show ?thesis by blast
qed

end
