(* ===== verification/ControlModule.thy ===== *)
theory ControlModule
  imports ServerStart
begin

text \<open>
  The control module of the server (\<open>src/server/ctl-module/capio_ctl.hpp\<close>) and its client
  \<open>src/capioctl/capioctl.cpp\<close>, any number of processes of it. The two rings have the names \<open>RX\<close> and
  \<open>TX\<close>; the client writes into the first and waits for an answer on the second. The command line is
  parsed by the \<open>args\<close> package, and what the client makes of it is only printed.
\<close>

subsection \<open>The client up to its request\<close>

datatype ctl_cli = CtlHelp | CtlError | CtlCommand

text \<open>\<open>None\<close>: the command line is in error and \<open>main\<close> returns. After \<open>args::Help\<close> it goes on. The rings are
  those the client calls \<open>tx\<close> and \<open>rx\<close>.\<close>

definition capioctl_main ::
    "refusals \<Rightarrow> variables \<Rightarrow> ctl_cli \<Rightarrow> shm_space \<Rightarrow> ((queue_names \<times> queue_names) option \<times> shm_space) res" where
  "capioctl_main k getenv parsed ss =
     (let workflow_name = get_capio_workflow_name getenv [] in
      or_quit (map_of (shm_objects ss) workflow_name = None \<or> k ShmOpen workflow_name)
        (rbind (queue_open k workflow_name ''RX'' CAPIO_REQ_BUFF_CNT CAPIO_REQ_MAX_SIZE ss) (\<lambda>(tx, ss1).
         rbind (queue_open k workflow_name ''TX'' CAPIO_REQ_BUFF_CNT CAPIO_REQ_MAX_SIZE ss1) (\<lambda>(rx, ss2).
           Inr (case parsed of CtlHelp \<Rightarrow> Some (tx, rx) | CtlError \<Rightarrow> None | CtlCommand \<Rightarrow> Some (tx, rx), ss2)))))"

text \<open>The destructor of a ring that was made with \<open>cleanup\<close> false: the members are destroyed all the same.\<close>

definition queue_detach :: "refusals \<Rightarrow> queue_names \<Rightarrow> shm_space \<Rightarrow> shm_space res" where
  "queue_detach k q ss =
     rbind (NamedSemaphore_close k (q_sem_num_empty q) ss) (\<lambda>ss1.
     rbind (NamedSemaphore_close k (q_sem_num_elems q) ss1) (\<lambda>ss2.
       NamedSemaphore_close k (q_mutex q) ss2))"

text \<open>The end of the client, after its answer.\<close>

definition capioctl_end :: "refusals \<Rightarrow> queue_names \<times> queue_names \<Rightarrow> shm_space \<Rightarrow> shm_space res" where
  "capioctl_end k = (\<lambda>(tx, rx) ss. rbind (queue_detach k tx ss) (queue_detach k rx))"

text \<open>What the destructor of the client takes away is missing in that of the server, which ends the process
  there: the shutdown stops before it deletes the canary.\<close>

lemma detach_semaphores:
  assumes "queue_present (queue_names_of w n) ss"
  shows "\<exists>ss'. queue_detach willing (queue_names_of w n) ss = Inr ss' \<and> shm_objects ss' = shm_objects ss \<and>
    (\<forall>m. map_of (semaphores ss') m = (if m \<in> queue_semaphores (queue_names_of w n) then None
      else map_of (semaphores ss) m))"
  using assms queue_names_distinct[of w n]
  by (auto simp: queue_detach_def NamedSemaphore_close_def or_quit_def willing_def umap_simps queue_present_def
      queue_semaphores_def)

lemma detach_keeps_ring:
  assumes "queue_detach willing (queue_names_of w n) ss = Inr ss'" and "queue_present (queue_names_of w n) ss"
    and "apart (queue_names_of w n) q" and "queue_present q ss"
  shows "queue_present q ss'"
  using detach_semaphores[OF assms(2)] assms(1,3,4)
  by (auto simp: queue_present_def apart_def queue_semaphores_def)

lemma close_without_semaphores:
  assumes "map_of (semaphores ss) (q_sem_num_empty q) = None"
  shows "queue_close willing q ss = Inl ErrExit"
  using assms by (simp add: queue_close_def Let_def NamedSemaphore_close_def or_quit_def destroy_objects)

subsection \<open>Requests and answers\<close>

text \<open>
  The message is a string literal of which \<open>write\<close> copies a whole element: \<open>junk\<close> is what follows the
  literal in memory.
\<close>

definition ctl_message :: "(nat \<Rightarrow> char) \<Rightarrow> string" where
  "ctl_message junk = slot_of junk ''CIAO PIPPO''"

text \<open>One pass of the loop of the thread of the server: a request is read, and that is all.\<close>

definition ctl_main_pass :: "ring \<Rightarrow> (string \<times> ring) option" where
  "ctl_main_pass readQueue = queue_read_elem readQueue"

datatype ctl_pc = Sending | Awaiting | Printed string

record ctl_state =
  ct_rx :: ring
  ct_tx :: ring
  ct_clients :: "ctl_pc list"
  ct_read :: "string list"       \<comment> \<open>what the thread of the server has read so far\<close>

inductive ctl_step :: "(nat \<Rightarrow> char) \<Rightarrow> ctl_state \<Rightarrow> ctl_state \<Rightarrow> bool" for junk where
  arrive: "ctl_step junk s (s\<lparr>ct_clients := ct_clients s @ [Sending]\<rparr>)"
| send: "i < length (ct_clients s) \<Longrightarrow> ct_clients s ! i = Sending \<Longrightarrow>
     queue_write_elem (ct_rx s) (ctl_message junk) = Some r \<Longrightarrow>
     ctl_step junk s (s\<lparr>ct_rx := r, ct_clients := (ct_clients s)[i := Awaiting]\<rparr>)"
| receive: "i < length (ct_clients s) \<Longrightarrow> ct_clients s ! i = Awaiting \<Longrightarrow>
     queue_read_elem (ct_tx s) = Some (result, r) \<Longrightarrow>
     ctl_step junk s (s\<lparr>ct_tx := r, ct_clients := (ct_clients s)[i := Printed result]\<rparr>)"
| server_pass: "ctl_main_pass (ct_rx s) = Some (request, r) \<Longrightarrow>
     ctl_step junk s (s\<lparr>ct_rx := r, ct_read := ct_read s @ [request]\<rparr>)"

definition ctl_start :: "ring \<Rightarrow> ring \<Rightarrow> ctl_state" where
  "ctl_start rx tx = \<lparr>ct_rx = rx, ct_tx = tx, ct_clients = [], ct_read = []\<rparr>"

abbreviation awaiting :: "ctl_state \<Rightarrow> nat" where
  "awaiting s \<equiv> count_list (ct_clients s) Awaiting"

definition ctl_inv :: "(nat \<Rightarrow> char) \<Rightarrow> ctl_state \<Rightarrow> bool" where
  "ctl_inv junk s \<longleftrightarrow> ring_ok (ct_rx s) \<and> elem_fits (ct_rx s) (ctl_message junk) \<and> ring_ok (ct_tx s) \<and>
     ring_contents (ct_tx s) = [] \<and> set (ct_clients s) \<subseteq> {Sending, Awaiting} \<and>
     ct_read s @ ring_contents (ct_rx s) = replicate (awaiting s) (ctl_message junk)"

lemma count_list_update:
  "i < length xs \<Longrightarrow> xs ! i \<noteq> x \<Longrightarrow> count_list (xs[i := x]) x = Suc (count_list xs x)"
  by (induction xs arbitrary: i) (auto split: nat.splits)

lemma nothing_received: "ctl_inv junk s \<Longrightarrow> queue_read_elem (ct_tx s) = None"
  using rq.get_None[of "ct_tx s"] by (simp add: ctl_inv_def)

lemma ctl_step_inv: "ctl_step junk s s' \<Longrightarrow> ctl_inv junk s \<Longrightarrow> ctl_inv junk s'"
proof (induction rule: ctl_step.induct)
  case (arrive s)
  then show ?case by (simp add: ctl_inv_def)
next
  case (send i s r)
  from send.prems have ok: "ring_ok (ct_rx s)" "elem_fits (ct_rx s) (ctl_message junk)"
    by (simp_all add: ctl_inv_def)
  have "set ((ct_clients s)[i := Awaiting]) \<subseteq> {Sending, Awaiting}"
    using send.prems set_update_subset_insert[of "ct_clients s" i Awaiting] by (auto simp: ctl_inv_def)
  moreover have "count_list ((ct_clients s)[i := Awaiting]) Awaiting = Suc (awaiting s)"
    using count_list_update[OF send.hyps(1)] send.hyps(2) by simp
  ultimately show ?case
    using rq.put_Some[OF ok send.hyps(3)] send.prems
    by (simp add: ctl_inv_def replicate_append_same flip: append_assoc)
next
  case (receive i s result r)
  with nothing_received[OF receive.prems] show ?case by simp
next
  case (server_pass s request r)
  from server_pass.prems have ok: "ring_ok (ct_rx s)" by (simp add: ctl_inv_def)
  from rq.get_Some[OF ok server_pass.hyps[unfolded ctl_main_pass_def]] server_pass.prems show ?case
    by (simp add: ctl_inv_def)
qed

lemma ctl_reaches_inv: "(ctl_step junk)\<^sup>*\<^sup>* s0 s \<Longrightarrow> ctl_inv junk s0 \<Longrightarrow> ctl_inv junk s"
  by (induction rule: rtranclp_induct) (auto intro: ctl_step_inv)

lemma answered_client_stops_shutdown:
  assumes "server_main willing getenv realpath load parsed f ss = Inr (Some (rs, ss'))" and "rs_workflow rs \<noteq> []"
  shows "\<exists>ss2. capioctl_end willing (rs_ctl_rx rs, rs_ctl_tx rs) ss' = Inr ss2 \<and>
    sig_term_handler willing rs ss2 = Inl ErrExit"
proof -
  let ?w = "rs_workflow rs"
  note r = server_main_rings[OF assms(1)]
  from server_main_objects(1)[OF assms] have
    p: "queue_present (rx_ring ?w) ss'" "queue_present (tx_ring ?w) ss'" "queue_present (request_ring ?w) ss'"
    by (simp_all add: server_objects_def)
  from detach_semaphores[OF p(1)] obtain ss1 where
    1: "queue_detach willing (rx_ring ?w) ss' = Inr ss1"
      "\<forall>m. map_of (semaphores ss1) m = (if m \<in> queue_semaphores (rx_ring ?w) then None else map_of (semaphores ss') m)"
    by blast
  note keep = detach_keeps_ring[OF 1(1) p(1)]
  have p1: "queue_present (tx_ring ?w) ss1" "queue_present (request_ring ?w) ss1"
    using keep[OF rings_apart(1) p(2)] keep[OF rings_apart(2) p(3)] by blast+
  from detach_semaphores[OF p1(1)] obtain ss2 where
    2: "queue_detach willing (tx_ring ?w) ss1 = Inr ss2"
      "\<forall>m. map_of (semaphores ss2) m = (if m \<in> queue_semaphores (tx_ring ?w) then None else map_of (semaphores ss1) m)"
    by blast
  from queue_close_total[OF detach_keeps_ring[OF 2(1) p1(1) rings_apart(3) p1(2)]] obtain ss3 where
    3: "queue_close willing (request_ring ?w) ss2 = Inr ss3"
      "\<forall>m. map_of (semaphores ss3) m = (if m \<in> queue_semaphores (request_ring ?w) then None else map_of (semaphores ss2) m)"
    by blast
  have "map_of (semaphores ss3) (q_sem_num_empty (rx_ring ?w)) = None"
    using 3(2) 2(2) 1(2) by (simp add: queue_semaphores_def)
  from close_without_semaphores[OF this] 3(1) have "sig_term_handler willing rs ss2 = Inl ErrExit"
    by (simp add: sig_term_handler_def RequestHandlerEngine_close_def CapioCTLModule_close_def r(1-3))
  moreover have "capioctl_end willing (rs_ctl_rx rs, rs_ctl_tx rs) ss' = Inr ss2"
    using 1(1) 2(1) by (simp add: capioctl_end_def r(1,2))
  ultimately show ?thesis by blast
qed

subsection \<open>Properties\<close>

text \<open>The client finds the server of its workflow by the canary, and the two rings it opens are those
  of the control module: no named object changes. Without a server it makes none either and exits.\<close>

theorem control_client_joins_server:
  assumes "server_main willing getenv realpath load parsed f ss = Inr (Some (rs, ss'))"
    and "rs_workflow rs = get_capio_workflow_name getenv' []" and "rs_workflow rs \<noteq> []"
  shows "(\<exists>ss2. capioctl_main willing getenv' args ss' =
      Inr (if args = CtlError then None else Some (rs_ctl_rx rs, rs_ctl_tx rs), ss2) \<and> same_objects ss' ss2) \<and>
    capioctl_main willing getenv' args ss = Inl ErrExit"
proof
  let ?w = "rs_workflow rs"
  from server_main_objects(1)[OF assms(1,3)] have
    p: "queue_present (rx_ring ?w) ss'" "queue_present (tx_ring ?w) ss'" "map_of (shm_objects ss') ?w \<noteq> None"
    by (simp_all add: server_objects_def)
  from queue_open_present[OF p(1), of CAPIO_REQ_BUFF_CNT CAPIO_REQ_MAX_SIZE] obtain ss1 where
    1: "queue_open willing ?w ''RX'' CAPIO_REQ_BUFF_CNT CAPIO_REQ_MAX_SIZE ss' = Inr (rx_ring ?w, ss1)"
      "same_objects ss' ss1" by blast
  from 1(2) p(2) have "queue_present (tx_ring ?w) ss1" by (simp add: queue_present_def same_objects_def)
  from queue_open_present[OF this, of CAPIO_REQ_BUFF_CNT CAPIO_REQ_MAX_SIZE] obtain ss2 where
    2: "queue_open willing ?w ''TX'' CAPIO_REQ_BUFF_CNT CAPIO_REQ_MAX_SIZE ss1 = Inr (tx_ring ?w, ss2)"
      "same_objects ss1 ss2" by blast
  have "same_objects ss' ss2" using 1(2) 2(2) by (simp add: same_objects_def)
  moreover have "capioctl_main willing getenv' args ss' =
      Inr (if args = CtlError then None else Some (rs_ctl_rx rs, rs_ctl_tx rs), ss2)"
    using 1(1) 2(1) p(3) server_main_rings(1,2)[OF assms(1)]
    by (cases args) (simp_all add: capioctl_main_def Let_def or_quit_def willing_def flip: assms(2))
  ultimately show "\<exists>ss2. capioctl_main willing getenv' args ss' =
      Inr (if args = CtlError then None else Some (rs_ctl_rx rs, rs_ctl_tx rs), ss2) \<and> same_objects ss' ss2" by blast
  show "capioctl_main willing getenv' args ss = Inl ErrExit"
    using server_main_objects(2)[OF assms(1,3)]
    by (simp add: capioctl_main_def Let_def or_quit_def flip: assms(2))
qed

lemma control_client_joins_server_witness:
  "\<exists>rs ss' ss2. server_main willing sample_variables sample_realpath (\<lambda>_. Some sample_config) sample_cli
       [(''/d'', Dir)] no_shm = Inr (Some (rs, ss')) \<and>
     capioctl_main willing (\<lambda>_. Some ''wf'') CtlCommand ss' = Inr (Some (rs_ctl_rx rs, rs_ctl_tx rs), ss2) \<and>
     capioctl_main willing (\<lambda>_. Some ''wf'') CtlCommand no_shm = Inl ErrExit"
proof -
  from sample_start obtain rs ss1 where s: "server_main willing sample_variables sample_realpath
      (\<lambda>_. Some sample_config) sample_cli [(''/d'', Dir)] no_shm = Inr (Some (rs, ss1))" "rs_workflow rs = ''wf''" by blast
  have "rs_workflow rs = get_capio_workflow_name (\<lambda>_. Some ''wf'') []"
    using s(2) by (simp add: get_capio_workflow_name_def)
  from control_client_joins_server[OF s(1) this, of CtlCommand] s show ?thesis by auto
qed

text \<open>C38: The client of the control module is never answered: for any number of clients and any
  interleaving with the thread of the server, each request is read once, in the order of writing, and
  dropped, no client prints a result, and one that has sent its request is blocked for ever.\<close>

theorem control_requests_unanswered:
  assumes "ring_ok rx" and "elem_size rx = CAPIO_REQ_MAX_SIZE" and "ring_contents rx = []"
    and "ring_ok tx" and "ring_contents tx = []"
    and "(ctl_step junk)\<^sup>*\<^sup>* (ctl_start rx tx) s"
  shows "set (ct_clients s) \<subseteq> {Sending, Awaiting} \<and> queue_read_elem (ct_tx s) = None \<and>
    ct_read s @ ring_contents (ct_rx s) = replicate (awaiting s) (ctl_message junk) \<and>
    (ctl_main_pass (ct_rx s) = None \<longleftrightarrow> length (ct_read s) = awaiting s)"
proof -
  have "ctl_inv junk (ctl_start rx tx)"
    using assms(1-5) by (simp add: ctl_inv_def ctl_start_def elem_fits_def ctl_message_def length_slot_of
        CAPIO_REQ_MAX_SIZE_def)
  with assms(6) have i: "ctl_inv junk s" by (rule ctl_reaches_inv)
  then have "length (ct_read s) + length (ring_contents (ct_rx s)) = awaiting s"
    by (metis ctl_inv_def length_append length_replicate)
  with i rq.get_None[of "ct_rx s"] nothing_received[OF i] show ?thesis
    by (auto simp: ctl_inv_def ctl_main_pass_def)
qed

lemma control_requests_unanswered_witness:
  "\<exists>s. (ctl_step (\<lambda>_. CHR 0x00))\<^sup>*\<^sup>* (ctl_start (queue_init 2 CAPIO_REQ_MAX_SIZE) (queue_init 2 CAPIO_REQ_MAX_SIZE)) s \<and>
     ct_clients s = [Awaiting] \<and> queue_read_elem (ct_tx s) = None \<and> ctl_main_pass (ct_rx s) \<noteq> None"
proof -
  let ?q = "queue_init 2 CAPIO_REQ_MAX_SIZE" and ?j = "\<lambda>_. CHR 0x00" 
  let ?s0 = "ctl_start ?q ?q"
  let ?s1 = "?s0\<lparr>ct_clients := [Sending]\<rparr>"
  have q: "ring_ok ?q" "elem_size ?q = CAPIO_REQ_MAX_SIZE" "ring_contents ?q = []" "max_num_elems ?q = 2"
    by (auto intro: queue_init_ok simp: CAPIO_REQ_MAX_SIZE_def) (simp_all add: queue_init_def ring_contents_def)
  obtain r where r: "queue_write_elem ?q (ctl_message ?j) = Some r"
    using rq.put_None[OF q(1), of "ctl_message ?j"] q(3,4) by auto
  let ?s2 = "?s1\<lparr>ct_rx := r, ct_clients := [Awaiting]\<rparr>"
  have "ctl_step ?j ?s0 ?s1" using arrive[of ?j ?s0] by (simp add: ctl_start_def)
  moreover have "ctl_step ?j ?s1 ?s2" using send[of 0 ?s1 ?j r] r by (simp add: ctl_start_def)
  ultimately have s: "(ctl_step ?j)\<^sup>*\<^sup>* ?s0 ?s2"
    by (meson converse_rtranclp_into_rtranclp rtranclp.rtrancl_refl)
  from control_requests_unanswered[OF q(1-3) q(1) q(3) s] s show ?thesis
    by (intro exI[of _ ?s2]) (simp add: ctl_start_def)
qed

end
