(* ===== verification/Shutdown.thy ===== *)
theory Shutdown
  imports ServerStart
begin

unbundle bit_operations_syntax

text \<open>
  Signals while the server starts and runs (\<open>src/server/utils/signals.hpp\<close>, \<open>main\<close> of
  \<open>src/server/capio_server.cpp\<close>): which signals have the handler, the start one component at a time,
  and the handler on the pointers as they are at that moment, in the thread that gets the signal.
\<close>

subsection \<open>The signals\<close>

datatype signal = SIGTERM | SIGILL | SIGABRT | SIGFPE | SIGSEGV | SIGQUIT | SIGPIPE | SIGINT | Other_signal nat

definition handled_signals :: "signal list" where
  "handled_signals = [SIGTERM, SIGILL, SIGABRT, SIGFPE, SIGSEGV, SIGQUIT, SIGPIPE, SIGINT]"

text \<open>
  \<open>sigaction\<close> answers 0, or -1 where it is refused. The answers are joined bit by bit. The result
  holds the signals that have the handler.
\<close>

definition setup_signal_handlers :: "(signal \<Rightarrow> bool) \<Rightarrow> signal list res" where
  "setup_signal_handlers refused =
     (let res = foldl (\<lambda>res s. res OR (if refused s then -1 else 0)) (0::int) handled_signals in
      if res = -1 then Inl ErrExit else Inr (filter (\<lambda>s. \<not> refused s) handled_signals))"

lemma or_all: "foldl (\<lambda>res s. res OR (if refused s then -1 else 0)) (r::int) ss =
    (if \<exists>s \<in> set ss. refused s then -1 else r)"
  by (induction ss arbitrary: r) auto

text \<open>Either all of them have the handler, or the program exits.\<close>

lemma all_signals_or_none:
  "setup_signal_handlers refused =
     (if \<exists>s \<in> set handled_signals. refused s then Inl ErrExit else Inr handled_signals)"
  by (auto simp: setup_signal_handlers_def or_all Let_def filter_id_conv)

subsection \<open>The start, one component at a time\<close>

text \<open>The global pointers of the components that own something; null where \<open>None\<close>.\<close>

record components =
  co_canary :: "string option"
  co_monitor :: bool
  co_ctl :: "(queue_names \<times> queue_names) option"
  co_requests :: "queue_names option"

definition no_components :: components where
  "no_components = \<lparr>co_canary = None, co_monitor = False, co_ctl = None, co_requests = None\<rparr>"

text \<open>
  What a constructor does to the named objects, one call after the other; a signal may come between
  any two of them. The parts of the constructor of a ring are those of \<open>queue_open\<close>, and the last one
  looks for the ring, sets the offsets of a new one and makes it.
\<close>

definition queue_parts :: "refusals \<Rightarrow> string \<Rightarrow> string \<Rightarrow> nat \<Rightarrow> nat \<Rightarrow> (shm_space \<Rightarrow> shm_space res) list" where
  "queue_parts k workflow_name shm_name max_num es =
     (let q = queue_names_of workflow_name shm_name in
      [NamedSemaphore_open k (q_mutex q) 1, NamedSemaphore_open k (q_sem_num_elems q) 0,
       NamedSemaphore_open k (q_sem_num_empty q) max_num,
       create_shm k (q_first_elem_name q) 8, create_shm k (q_last_elem_name q) 8,
       (\<lambda>ss. rbind (get_shm_if_exist k (q_shm_name q) ss) (\<lambda>(found, ss1).
          if found then Inr ss1
          else rbind (shm_store (q_first_elem_name q) (Offset 0) ss1) (\<lambda>ss2.
               rbind (shm_store (q_last_elem_name q) (Offset 0) ss2) (create_shm k (q_shm_name q) (max_num * es)))))])"

text \<open>The constructors in the order of \<open>main\<close>; the file manager owns nothing outside the process.\<close>

definition component_parts :: "refusals \<Rightarrow> string \<Rightarrow> string \<Rightarrow> nat \<Rightarrow> (shm_space \<Rightarrow> shm_space res) list" where
  "component_parts k env_name workflow_name n =
     (if n = 0 then [\<lambda>ss. rbind (CapioShmCanary_open k env_name workflow_name ss) (\<lambda>(_, ss1). Inr ss1)]
      else if n = 3 then queue_parts k workflow_name ''RX'' CAPIO_REQ_BUFF_CNT CAPIO_REQ_MAX_SIZE @
        queue_parts k workflow_name ''TX'' CAPIO_REQ_BUFF_CNT CAPIO_REQ_MAX_SIZE
      else if n = 4 then queue_parts k workflow_name SHM_COMM_CHAN_NAME CAPIO_REQ_BUFF_CNT CAPIO_REQ_MAX_SIZE
      else [])"

fun run_parts :: "(shm_space \<Rightarrow> shm_space res) list \<Rightarrow> shm_space \<Rightarrow> shm_space res" where
  "run_parts [] ss = Inr ss"
| "run_parts (p # ps) ss = rbind (p ss) (run_parts ps)"

text \<open>The assignments of \<open>main\<close>, each after the constructor has returned.\<close>

definition assigned :: "string \<Rightarrow> string \<Rightarrow> nat \<Rightarrow> components \<Rightarrow> components" where
  "assigned env_name workflow_name n co =
     (if n = 0 then co\<lparr>co_canary := Some (if workflow_name = [] then env_name else workflow_name)\<rparr>
      else if n = 2 then co\<lparr>co_monitor := True\<rparr>
      else if n = 3 then
        co\<lparr>co_ctl := Some (queue_names_of workflow_name ''RX'', queue_names_of workflow_name ''TX'')\<rparr>
      else if n = 4 then co\<lparr>co_requests := Some (queue_names_of workflow_name SHM_COMM_CHAN_NAME)\<rparr>
      else co)"

definition start_step ::
    "refusals \<Rightarrow> string \<Rightarrow> string \<Rightarrow> nat \<Rightarrow> components \<times> shm_space \<Rightarrow> (components \<times> shm_space) res" where
  "start_step k env_name workflow_name n = (\<lambda>(co, ss).
     rbind (run_parts (component_parts k env_name workflow_name n) ss) (\<lambda>ss1.
       Inr (assigned env_name workflow_name n co, ss1)))"

primrec start_upto ::
    "refusals \<Rightarrow> string \<Rightarrow> string \<Rightarrow> nat \<Rightarrow> components \<times> shm_space \<Rightarrow> (components \<times> shm_space) res" where
  "start_upto k env_name workflow_name 0 st = Inr st"
| "start_upto k env_name workflow_name (Suc n) st =
     rbind (start_upto k env_name workflow_name n st) (start_step k env_name workflow_name n)"

subsection \<open>The handler in a thread\<close>

datatype server_thread = Main_thread | Monitor_thread | Control_thread

text \<open>
  Deleting a null pointer does nothing. The destructors of the two components with a thread join it,
  which is undefined for the thread itself.
\<close>

definition sig_term_handler_in :: "refusals \<Rightarrow> server_thread \<Rightarrow> components \<Rightarrow> shm_space \<Rightarrow> shm_space res" where
  "sig_term_handler_in k th co ss =
     rbind (case co_requests co of None \<Rightarrow> Inr ss | Some q \<Rightarrow> RequestHandlerEngine_close k q ss) (\<lambda>ss1.
     rbind (case co_ctl co of None \<Rightarrow> Inr ss1
            | Some q \<Rightarrow> if th = Control_thread then Inl Undefined else CapioCTLModule_close k q ss1) (\<lambda>ss2.
     if co_monitor co \<and> th = Monitor_thread then Inl Undefined
     else Inr (case co_canary co of None \<Rightarrow> ss2 | Some c \<Rightarrow> CapioShmCanary_close k c ss2)))"

subsection \<open>What a signal finds\<close>

text \<open>The parts of a constructor, all of them, are the constructor.\<close>

lemma run_parts_append: "run_parts (ps @ qs) ss = rbind (run_parts ps ss) (run_parts qs)"
  by (induction ps arbitrary: ss) (auto simp: rbind_case split: sum.splits)

lemma queue_parts_open:
  "run_parts (queue_parts k w n mx es) ss = rbind (queue_open k w n mx es ss) (\<lambda>(q, ss'). Inr ss')"
  by (auto simp: queue_parts_def queue_open_def Let_def rbind_case split: sum.splits prod.splits)

lemma start_step_constructors:
  "start_step k e w 0 (co, ss) =
     rbind (CapioShmCanary_open k e w ss) (\<lambda>(c, ss1). Inr (co\<lparr>co_canary := Some c\<rparr>, ss1))"
  "start_step k e w 1 (co, ss) = Inr (co, ss)" "start_step k e w (Suc 0) (co, ss) = Inr (co, ss)"
  "start_step k e w 2 (co, ss) = Inr (co\<lparr>co_monitor := True\<rparr>, ss)"
  "start_step k e w 3 (co, ss) =
     rbind (CapioCTLModule_open k w ss) (\<lambda>(q, ss1). Inr (co\<lparr>co_ctl := Some q\<rparr>, ss1))"
  "start_step k e w 4 (co, ss) =
     rbind (RequestHandlerEngine_open k w ss) (\<lambda>(q, ss1). Inr (co\<lparr>co_requests := Some q\<rparr>, ss1))"
  by (auto simp: start_step_def component_parts_def assigned_def run_parts_append queue_parts_open
      CapioShmCanary_open_def CapioCTLModule_open_def RequestHandlerEngine_open_def Let_def or_quit_def rbind_case
      split: sum.splits prod.splits dest: queue_open_names)

text \<open>The names each constructor makes; it leaves all others alone, at every moment.\<close>

definition component_objects :: "string \<Rightarrow> nat \<Rightarrow> string set" where
  "component_objects w n = (if n = 0 then {w} else if n = 3 then queue_objects (rx_ring w) \<union> queue_objects (tx_ring w)
     else if n = 4 then queue_objects (request_ring w) else {})"

definition component_semaphores :: "string \<Rightarrow> nat \<Rightarrow> string set" where
  "component_semaphores w n = (if n = 3 then queue_semaphores (rx_ring w) \<union> queue_semaphores (tx_ring w)
     else if n = 4 then queue_semaphores (request_ring w) else {})"

definition agree_but :: "string set \<Rightarrow> string set \<Rightarrow> shm_space \<Rightarrow> shm_space \<Rightarrow> bool" where
  "agree_but B C ss ss' \<longleftrightarrow> (\<forall>m. m \<notin> B \<longrightarrow> map_of (shm_objects ss') m = map_of (shm_objects ss) m) \<and>
     (\<forall>m. m \<notin> C \<longrightarrow> map_of (semaphores ss') m = map_of (semaphores ss) m)"

lemma run_parts_agree:
  "(\<And>p s s'. p \<in> set ps \<Longrightarrow> p s = Inr s' \<Longrightarrow> agree_but B C s s') \<Longrightarrow> run_parts ps ss = Inr ss' \<Longrightarrow>
     agree_but B C ss ss'"
proof (induction ps arbitrary: ss)
  case Nil
  then show ?case by (simp add: agree_but_def)
next
  case (Cons p ps)
  from Cons.prems(2) obtain s1 where "p ss = Inr s1" "run_parts ps s1 = Inr ss'" by (auto simp: res_simps)
  moreover from this Cons have "agree_but B C ss s1" "agree_but B C s1 ss'" by auto
  ultimately show ?case by (simp add: agree_but_def)
qed

lemma queue_part_agrees:
  assumes "p \<in> set (queue_parts k w n mx es)" and "p s = Inr s'"
    and "queue_objects (queue_names_of w n) \<subseteq> B" and "queue_semaphores (queue_names_of w n) \<subseteq> C"
  shows "agree_but B C s s'"
proof -
  from assms(1) consider (sem) m i where "p = NamedSemaphore_open k m i" "m \<in> queue_semaphores (queue_names_of w n)"
    | (shm) m z where "p = create_shm k m z" "m \<in> queue_objects (queue_names_of w n)"
    | (last) "p = last (queue_parts k w n mx es)"
    by (auto simp: queue_parts_def Let_def queue_semaphores_def queue_objects_def)
  then show ?thesis
  proof cases
    case sem
    with assms(2,4) show ?thesis by (auto simp: agree_but_def dest!: NamedSemaphore_open_Inr)
  next
    case shm
    with assms(2,3) show ?thesis by (auto simp: agree_but_def dest!: create_shm_Inr)
  next
    case last
    let ?q = "queue_names_of w n"
    from last assms(2) obtain found s1 where 1: "get_shm_if_exist k (q_shm_name ?q) s = Inr (found, s1)"
      "found \<and> s' = s1 \<or> (\<exists>s2 s3. shm_store (q_first_elem_name ?q) (Offset 0) s1 = Inr s2 \<and>
         shm_store (q_last_elem_name ?q) (Offset 0) s2 = Inr s3 \<and> create_shm k (q_shm_name ?q) (mx * es) s3 = Inr s')"
      by (auto simp: queue_parts_def Let_def res_simps split: if_splits)
    with assms(3) show ?thesis
      by (auto simp: agree_but_def queue_objects_def dest!: get_shm_if_exist_Inr shm_store_Inr create_shm_Inr)
  qed
qed

lemma component_part_agrees:
  assumes "p \<in> set (component_parts k e w n)" and "p s = Inr s'" and "w \<noteq> []"
  shows "agree_but (component_objects w n) (component_semaphores w n) s s'"
proof -
  consider "n = 0" | "n = 3" | "n = 4" | "component_parts k e w n = []"
    by (cases "n = 0 \<or> n = 3 \<or> n = 4") (auto simp: component_parts_def)
  then show ?thesis
  proof cases
    case 1
    with assms show ?thesis
      by (auto simp: component_parts_def component_objects_def component_semaphores_def agree_but_def res_simps
          dest: canary_open_delta(4,5))
  next
    case 2
    with assms(1) consider
        "p \<in> set (queue_parts k w ''RX'' CAPIO_REQ_BUFF_CNT CAPIO_REQ_MAX_SIZE)"
      | "p \<in> set (queue_parts k w ''TX'' CAPIO_REQ_BUFF_CNT CAPIO_REQ_MAX_SIZE)"
      by (auto simp: component_parts_def)
    then show ?thesis
    proof cases
      case 1
      from queue_part_agrees[where p = p and s = s and s' = s', OF 1 assms(2)] show ?thesis
        by (simp add: 2 component_objects_def component_semaphores_def)
    next
      case 2
      from queue_part_agrees[where p = p and s = s and s' = s', OF 2 assms(2)] show ?thesis
        by (simp add: \<open>n = 3\<close> component_objects_def component_semaphores_def)
    qed
  next
    case 3
    with assms(1) have "p \<in> set (queue_parts k w SHM_COMM_CHAN_NAME CAPIO_REQ_BUFF_CNT CAPIO_REQ_MAX_SIZE)"
      by (simp add: component_parts_def)
    then show ?thesis
      by (rule queue_part_agrees[where p = p and s = s and s' = s', OF _ assms(2)]) (auto simp: 3 component_objects_def component_semaphores_def)
  qed (use assms in simp)
qed

lemma moment_agrees:
  assumes "run_parts (take j (component_parts k e w n)) ss = Inr ss'" and "w \<noteq> []"
  shows "agree_but (component_objects w n) (component_semaphores w n) ss ss'"
  using run_parts_agree[OF _ assms(1)] component_part_agrees[OF in_set_takeD _ assms(2)] by blast

lemma start_upto_numeral:
  "start_upto k e w 4 st = rbind (rbind (rbind (rbind (Inr st) (start_step k e w 0)) (start_step k e w 1))
     (start_step k e w 2)) (start_step k e w 3)"
  "start_upto k e w 5 st = rbind (rbind (rbind (rbind (rbind (Inr st) (start_step k e w 0)) (start_step k e w 1))
     (start_step k e w 2)) (start_step k e w 3)) (start_step k e w 4)"
  "start_upto k e w 1 st = start_step k e w 0 st"
  "start_upto k e w 2 st = rbind (start_step k e w 0 st) (start_step k e w 1)"
  "start_upto k e w 3 st = rbind (rbind (start_step k e w 0 st) (start_step k e w 1)) (start_step k e w 2)"
  by (simp_all add: numeral_eq_Suc)

lemma ctl_open_Inr:
  "CapioCTLModule_open k w ss = Inr ((rx, tx), ss') \<Longrightarrow> \<exists>ss1.
     queue_open k w ''RX'' CAPIO_REQ_BUFF_CNT CAPIO_REQ_MAX_SIZE ss = Inr (rx, ss1) \<and>
     queue_open k w ''TX'' CAPIO_REQ_BUFF_CNT CAPIO_REQ_MAX_SIZE ss1 = Inr (tx, ss') \<and>
     rx = rx_ring w \<and> tx = tx_ring w"
  by (auto simp: CapioCTLModule_open_def res_simps dest: queue_open_names)

text \<open>The complete start is that of \<open>main\<close>, and the handler in the main thread is the one of a running server.\<close>

lemma complete_start:
  assumes "start_components k getenv w dir eng f ss = Inr (rs, ss')"
  shows "start_upto k (get_capio_workflow_name getenv []) w 5 (no_components, ss) =
    Inr (\<lparr>co_canary = Some (rs_canary rs), co_monitor = True, co_ctl = Some (rs_ctl_rx rs, rs_ctl_tx rs),
      co_requests = Some (rs_requests rs)\<rparr>, ss')"
  using assms unfolding start_upto_numeral(2)
  by (auto simp: start_components_def start_step_constructors no_components_def res_simps)

lemma handler_of_running:
  "sig_term_handler_in k Main_thread \<lparr>co_canary = Some (rs_canary rs), co_monitor = True,
     co_ctl = Some (rs_ctl_rx rs, rs_ctl_tx rs), co_requests = Some (rs_requests rs)\<rparr> ss = sig_term_handler k rs ss"
  by (simp add: sig_term_handler_in_def sig_term_handler_def)

text \<open>The states the start goes through.\<close>

lemma canary_open_name:
  "CapioShmCanary_open k e w ss = Inr (c, ss') \<Longrightarrow> w \<noteq> [] \<Longrightarrow> c = w"
  by (auto simp: CapioShmCanary_open_def Let_def res_simps)

lemmas start_steps = start_step_constructors no_components_def res_simps

lemma complete_but_requests:
  assumes "start_upto willing e w 4 (no_components, ss) = Inr (co, ss')"
  shows "\<exists>c q ss1. CapioShmCanary_open willing e w ss = Inr (c, ss1) \<and>
      CapioCTLModule_open willing w ss1 = Inr (q, ss') \<and>
      co = no_components\<lparr>co_canary := Some c, co_monitor := True, co_ctl := Some q\<rparr>"
  using assms by (auto simp: start_steps start_upto_numeral(1))

lemma start_upto_cases:
  assumes s: "start_upto willing e w n (no_components, ss) = Inr (co, ss')" and w: "w \<noteq> []" and n: "n \<le> 5"
  obtains "n = 0" "co = no_components" "ss' = ss"
  | "n = 1 \<or> n = 2 \<or> n = 3" "co = no_components\<lparr>co_canary := Some w, co_monitor := (n = 3)\<rparr>" "CapioShmCanary_open willing e w ss = Inr (w, ss')"
  | ss1 ss2 where "n = 4" "co = no_components\<lparr>co_canary := Some w, co_monitor := True, co_ctl := Some (rx_ring w, tx_ring w)\<rparr>"
      "CapioShmCanary_open willing e w ss = Inr (w, ss1)"
      "queue_open willing w ''RX'' CAPIO_REQ_BUFF_CNT CAPIO_REQ_MAX_SIZE ss1 = Inr (rx_ring w, ss2)"
      "queue_open willing w ''TX'' CAPIO_REQ_BUFF_CNT CAPIO_REQ_MAX_SIZE ss2 = Inr (tx_ring w, ss')"
  | ss1 ss2 ss3 where "n = 5" "co = \<lparr>co_canary = Some w, co_monitor = True, co_ctl = Some (rx_ring w, tx_ring w),
        co_requests = Some (request_ring w)\<rparr>"
      "CapioShmCanary_open willing e w ss = Inr (w, ss1)"
      "queue_open willing w ''RX'' CAPIO_REQ_BUFF_CNT CAPIO_REQ_MAX_SIZE ss1 = Inr (rx_ring w, ss2)"
      "queue_open willing w ''TX'' CAPIO_REQ_BUFF_CNT CAPIO_REQ_MAX_SIZE ss2 = Inr (tx_ring w, ss3)"
      "queue_open willing w SHM_COMM_CHAN_NAME CAPIO_REQ_BUFF_CNT CAPIO_REQ_MAX_SIZE ss3 = Inr (request_ring w, ss')"
proof -
  consider "n = 0" | "n = 1 \<or> n = 2 \<or> n = 3" | "n = 4" | "n = 5"
    using n by linarith
  then show thesis
  proof cases
    case 1
    with s that(1) show ?thesis by simp
  next
    case 2
    with s obtain c where "CapioShmCanary_open willing e w ss = Inr (c, ss')"
      "co = no_components\<lparr>co_canary := Some c, co_monitor := (n = 3)\<rparr>"
      using start_upto_numeral(3-5) by (auto simp: start_steps)
    with that(2)[OF 2] canary_open_name[of willing e w ss c ss'] w show ?thesis by simp
  next
    case 3
    with s obtain c q ss1 where "CapioShmCanary_open willing e w ss = Inr (c, ss1)"
      "CapioCTLModule_open willing w ss1 = Inr (q, ss')"
      "co = no_components\<lparr>co_canary := Some c, co_monitor := True, co_ctl := Some q\<rparr>"
      using complete_but_requests by blast
    moreover obtain rx tx where q: "q = (rx, tx)" by (cases q)
    ultimately show ?thesis
      using 3 that(3) canary_open_name[of willing e w ss c ss1] w ctl_open_Inr[of willing w ss1 rx tx ss'] by blast
  next
    case 4
    with s obtain co4 ss3 where 5: "start_upto willing e w 4 (no_components, ss) = Inr (co4, ss3)"
      "start_step willing e w 4 (co4, ss3) = Inr (co, ss')"
      using start_upto.simps(2)[of willing e w 4] by (auto simp only: res_simps Suc_numeral semiring_norm)
    from 5(2) obtain r where "RequestHandlerEngine_open willing w ss3 = Inr (r, ss')" "co = co4\<lparr>co_requests := Some r\<rparr>"
      by (auto simp: start_step_constructors res_simps)
    moreover from 5(1) obtain c q ss1 where "CapioShmCanary_open willing e w ss = Inr (c, ss1)"
      "CapioCTLModule_open willing w ss1 = Inr (q, ss3)"
      "co4 = no_components\<lparr>co_canary := Some c, co_monitor := True, co_ctl := Some q\<rparr>"
      using complete_but_requests by blast
    ultimately obtain c q r ss1 where "CapioShmCanary_open willing e w ss = Inr (c, ss1)"
      "CapioCTLModule_open willing w ss1 = Inr (q, ss3)" "RequestHandlerEngine_open willing w ss3 = Inr (r, ss')"
      "co = \<lparr>co_canary = Some c, co_monitor = True, co_ctl = Some q, co_requests = Some r\<rparr>"
      by (simp add: no_components_def)
    moreover from this(3) have "r = request_ring w" "queue_open willing w SHM_COMM_CHAN_NAME CAPIO_REQ_BUFF_CNT
        CAPIO_REQ_MAX_SIZE ss3 = Inr (request_ring w, ss')"
      using queue_open_names by (auto simp: RequestHandlerEngine_open_def)
    moreover obtain rx tx where "q = (rx, tx)" by (cases q)
    ultimately show ?thesis
      using 4 that(4) canary_open_name[of willing e w ss c ss1] w ctl_open_Inr[of willing w ss1 rx tx ss3] by blast
  qed
qed

subsection \<open>What the handler leaves\<close>

text \<open>
  In \<open>ss\<close> the server starts, in \<open>ss0\<close> the last constructor has returned, in \<open>ss1\<close> the signal comes, and the
  handler ends in \<open>ss2\<close>.
\<close>

definition handled_moment :: "string \<Rightarrow> nat \<Rightarrow> shm_space \<Rightarrow> shm_space \<Rightarrow> shm_space \<Rightarrow> shm_space \<Rightarrow> bool" where
  "handled_moment w n ss ss0 ss1 ss2 \<longleftrightarrow>
    (\<forall>m. map_of (shm_objects ss2) m = map_of (shm_objects (if m \<in> component_objects w n then ss1 else ss)) m) \<and>
    (\<forall>m. map_of (semaphores ss2) m = map_of (semaphores (if m \<in> component_semaphores w n then ss1 else ss)) m) \<and>
    (\<forall>m \<in> component_objects w n. map_of (shm_objects ss0) m = map_of (shm_objects ss) m) \<and>
    (\<forall>m \<in> component_semaphores w n. map_of (semaphores ss0) m = map_of (semaphores ss) m)"

lemma handled_canary:
  assumes c: "CapioShmCanary_open willing e w ss = Inr (w, ss0)" and w: "w \<noteq> []" and n: "n = 1 \<or> n = 2 \<or> n = 3"
    and ag: "agree_but (component_objects w n) (component_semaphores w n) ss0 ss1"
    and "queue_absent (rx_ring w) ss" and "queue_absent (tx_ring w) ss"
  shows "handled_moment w n ss ss0 ss1 (SHM_DESTROY_CHECK willing w ss1)"
proof -
  note d = canary_open_delta[OF c w]
  have "w \<notin> component_objects w n" using n canary_apart[of w] by (auto simp: component_objects_def)
  then have "m \<in> component_objects w n \<Longrightarrow> m \<noteq> w" for m by blast
  with d(2,4,5) ag show ?thesis by (auto simp: handled_moment_def destroy_objects agree_but_def)
qed

lemma handled_ctl:
  assumes c: "CapioShmCanary_open willing e w ss = Inr (w, ssa)"
    and x: "queue_open willing w ''RX'' CAPIO_REQ_BUFF_CNT CAPIO_REQ_MAX_SIZE ssa = Inr (rx_ring w, ssb)"
    and t: "queue_open willing w ''TX'' CAPIO_REQ_BUFF_CNT CAPIO_REQ_MAX_SIZE ssb = Inr (tx_ring w, ss0)"
    and w: "w \<noteq> []" and ag: "agree_but (component_objects w 4) (component_semaphores w 4) ss0 ss1"
    and ab: "queue_absent (rx_ring w) ss" "queue_absent (tx_ring w) ss" "queue_absent (request_ring w) ss"
  shows "\<exists>ss2. CapioCTLModule_close willing (rx_ring w, tx_ring w) ss1 = Inr ss2 \<and>
    handled_moment w 4 ss ss0 ss1 (SHM_DESTROY_CHECK willing w ss2)"
proof -
  note d = canary_open_delta[OF c w]
  have o4: "component_objects w 4 = queue_objects (request_ring w)"
    "component_semaphores w 4 = queue_semaphores (request_ring w)"
    by (simp_all add: component_objects_def component_semaphores_def)
  have "queue_present (rx_ring w) ss0" "queue_present (tx_ring w) ss0"
    using open_keeps_ring[OF t open_delta(1)[OF x]] open_delta(1)[OF t] rings_apart by blast+
  then have p: "queue_present (rx_ring w) ss1" "queue_present (tx_ring w) ss1"
    using ag rings_apart(2,3)[of w] unfolding o4 agree_but_def apart_def
    by (auto elim!: present_kept)
  from ctl_close_removes[OF p] obtain ss2 where
    2: "CapioCTLModule_close willing (rx_ring w, tx_ring w) ss1 = Inr ss2"
      "\<forall>m. map_of (shm_objects ss2) m =
        (if m \<in> queue_objects (rx_ring w) \<union> queue_objects (tx_ring w) then None else map_of (shm_objects ss1) m)"
      "\<forall>m. map_of (semaphores ss2) m =
        (if m \<in> queue_semaphores (rx_ring w) \<union> queue_semaphores (tx_ring w) then None else map_of (semaphores ss1) m)"
    by blast
  have o: "m \<notin> queue_objects (rx_ring w) \<union> queue_objects (tx_ring w) \<union> {w} \<Longrightarrow>
      map_of (shm_objects ss0) m = map_of (shm_objects ss) m"
    "m \<notin> queue_semaphores (rx_ring w) \<union> queue_semaphores (tx_ring w) \<Longrightarrow> map_of (semaphores ss0) m = map_of (semaphores ss) m" for m
    using open_delta(2,3)[OF t, of m] open_delta(2,3)[OF x, of m] d(4)[of m] d(5) by simp_all
  have n: "m \<in> queue_objects (request_ring w) \<Longrightarrow> m \<notin> queue_objects (rx_ring w) \<union> queue_objects (tx_ring w) \<union> {w}"
    "m \<in> queue_semaphores (request_ring w) \<Longrightarrow> m \<notin> queue_semaphores (rx_ring w) \<union> queue_semaphores (tx_ring w)" for m
    using rings_apart(2,3)[of w] canary_apart[of w SHM_COMM_CHAN_NAME] by (auto simp: apart_def)
  let ?s = "SHM_DESTROY_CHECK willing w ss2"
  have "map_of (shm_objects ?s) m = map_of (shm_objects (if m \<in> component_objects w 4 then ss1 else ss)) m" for m
  proof (cases "m \<in> queue_objects (rx_ring w) \<union> queue_objects (tx_ring w) \<union> {w}")
    case True
    with n(1)[of m] 2(2) d(2) ab(1,2) show ?thesis unfolding o4 by (auto simp: destroy_objects queue_absent_def)
  next
    case False
    with 2(2) o(1)[of m] ag show ?thesis unfolding o4 by (auto simp: destroy_objects agree_but_def)
  qed
  moreover have "map_of (semaphores ?s) m = map_of (semaphores (if m \<in> component_semaphores w 4 then ss1 else ss)) m" for m
  proof (cases "m \<in> queue_semaphores (rx_ring w) \<union> queue_semaphores (tx_ring w)")
    case True
    with n(2)[of m] 2(3) ab(1,2) show ?thesis unfolding o4 by (auto simp: destroy_objects queue_absent_def)
  next
    case False
    with 2(3) o(2)[of m] ag show ?thesis unfolding o4 by (auto simp: destroy_objects agree_but_def)
  qed
  ultimately have "handled_moment w 4 ss ss0 ss1 ?s"
    using n o unfolding o4 handled_moment_def by blast
  with 2(1) show ?thesis by blast
qed

lemma handled_all:
  assumes c: "CapioShmCanary_open willing e w ss = Inr (w, ssa)"
    and x: "queue_open willing w ''RX'' CAPIO_REQ_BUFF_CNT CAPIO_REQ_MAX_SIZE ssa = Inr (rx_ring w, ssb)"
    and t: "queue_open willing w ''TX'' CAPIO_REQ_BUFF_CNT CAPIO_REQ_MAX_SIZE ssb = Inr (tx_ring w, ssc)"
    and r: "queue_open willing w SHM_COMM_CHAN_NAME CAPIO_REQ_BUFF_CNT CAPIO_REQ_MAX_SIZE ssc = Inr (request_ring w, ss0)"
    and w: "w \<noteq> []"
    and ab: "queue_absent (rx_ring w) ss" "queue_absent (tx_ring w) ss" "queue_absent (request_ring w) ss"
  shows "\<exists>ss2. sig_term_handler_in willing Main_thread \<lparr>co_canary = Some w, co_monitor = True,
      co_ctl = Some (rx_ring w, tx_ring w), co_requests = Some (request_ring w)\<rparr> ss0 = Inr ss2 \<and>
    handled_moment w 5 ss ss0 ss0 ss2"
proof -
  define rs where "rs = \<lparr>rs_dir = [], rs_server = server_start [] [], rs_workflow = w, rs_canary = w,
    rs_ctl_rx = rx_ring w, rs_ctl_tx = tx_ring w, rs_requests = request_ring w\<rparr>"
  note o = opens_objects[OF c x t r w]
  from sig_term_removes[of w ss0 rs] o(1) obtain ss2 where
    2: "sig_term_handler willing rs ss0 = Inr ss2"
      "\<forall>m. map_of (shm_objects ss2) m = (if m \<in> queue_objects (rx_ring w) \<union> queue_objects (tx_ring w) \<union>
         queue_objects (request_ring w) \<union> {w} then None else map_of (shm_objects ss0) m)"
      "\<forall>m. map_of (semaphores ss2) m = (if m \<in> queue_semaphores (rx_ring w) \<union> queue_semaphores (tx_ring w) \<union>
         queue_semaphores (request_ring w) then None else map_of (semaphores ss0) m)"
    by (auto simp: rs_def)
  have "map_of (shm_objects ss2) m = map_of (shm_objects ss) m" for m
    using 2(2) o(2) o(3)[of m] ab by (auto simp: queue_absent_def)
  moreover have "map_of (semaphores ss2) m = map_of (semaphores ss) m" for m
    using 2(3) o(4)[of m] ab by (auto simp: queue_absent_def)
  ultimately have "handled_moment w 5 ss ss0 ss0 ss2"
    by (simp add: handled_moment_def component_objects_def component_semaphores_def)
  then show ?thesis using 2(1) handler_of_running[of willing rs ss0] by (auto simp: rs_def)
qed

subsection \<open>Properties\<close>

text \<open>C26: A signal that comes to the main thread of the server during its start, at any moment between two calls
  on named objects. Some of the five constructors of \<open>main\<close> have returned and are assigned, the next one
  has made the first \<open>j\<close> of its calls (none, when the signal comes between two of them). The handler
  succeeds and removes all that the constructors which returned have made; a constructor that
  is under way keeps what it has made so far, since nothing points to it yet; every other object is as it
  was. Without one under way the named objects are as before the start. The rings of the workflow are
  not there before, and its name is not empty: leftovers of a crashed server are not in question here.\<close>

theorem signal_during_start_cleans:
  assumes "start_upto willing env_name w n (no_components, ss) = Inr (co, ss0)" and "n \<le> 5" and "w \<noteq> []"
    and "run_parts (take j (component_parts willing env_name w n)) ss0 = Inr ss1"
    and "queue_absent (rx_ring w) ss" and "queue_absent (tx_ring w) ss" and "queue_absent (request_ring w) ss"
  shows "\<exists>ss2. sig_term_handler_in willing Main_thread co ss1 = Inr ss2 \<and>
    (\<forall>m. map_of (shm_objects ss2) m =
      map_of (shm_objects (if m \<in> component_objects w n then ss1 else ss)) m) \<and>
    (\<forall>m. map_of (semaphores ss2) m =
      map_of (semaphores (if m \<in> component_semaphores w n then ss1 else ss)) m) \<and>
    (j = 0 \<longrightarrow> same_objects ss ss2)"
proof -
  note ag = moment_agrees[OF assms(4,3)]
  from assms(1,3,2) obtain ss2 where 2: "sig_term_handler_in willing Main_thread co ss1 = Inr ss2"
    "handled_moment w n ss ss0 ss1 ss2"
  proof (cases rule: start_upto_cases)
    case 1
    with ag that[of ss1] show ?thesis
      by (simp add: sig_term_handler_in_def no_components_def handled_moment_def agree_but_def)
  next
    case 2
    with that handled_canary[OF 2(3) assms(3) 2(1) ag assms(5,6)] show ?thesis
      by (auto simp: sig_term_handler_in_def no_components_def CapioShmCanary_close_def)
  next
    case (3 ssa ssb)
    from ag have "agree_but (component_objects w 4) (component_semaphores w 4) ss0 ss1" by (simp add: 3(1))
    from handled_ctl[OF 3(3-5) assms(3) this assms(5-7)] obtain ss2 where
      "CapioCTLModule_close willing (rx_ring w, tx_ring w) ss1 = Inr ss2"
      "handled_moment w 4 ss ss0 ss1 (SHM_DESTROY_CHECK willing w ss2)" by blast
    with that 3(1,2) show ?thesis
      by (simp add: sig_term_handler_in_def no_components_def CapioShmCanary_close_def)
  next
    case (4 ssa ssb ssc)
    from 4(1) assms(4) have "ss1 = ss0" by (simp add: component_parts_def)
    with that handled_all[OF 4(3-6) assms(3,5-7)] 4(1,2) show ?thesis by auto
  qed
  have "same_objects ss ss2" if "j = 0"
    using that assms(4) 2(2) by (auto simp: handled_moment_def same_objects_def split: if_splits)
  with 2 show ?thesis by (auto simp: handled_moment_def)
qed

lemma signal_during_start_cleans_witness:
  "\<exists>co ss1 ss2. start_upto willing ''CAPIO'' ''wf'' 4 (no_components, no_shm) = Inr (co, ss1) \<and>
     co_canary co = Some ''wf'' \<and> sig_term_handler_in willing Main_thread co ss1 = Inr ss2 \<and> same_objects no_shm ss2"
proof -
  have "map_of (shm_objects no_shm) ''wf'' = None" by (simp add: no_shm_def)
  from start_components_willing[OF this, of "\<lambda>_. None" "[]" "[]" "[]"] obtain rs ss' where
    "start_components willing (\<lambda>_. None) ''wf'' [] [] [] no_shm = Inr (rs, ss')" by auto
  from complete_start[OF this] have "start_upto willing ''CAPIO'' ''wf'' 5 (no_components, no_shm) \<noteq> Inl e" for e
    by (simp add: get_capio_workflow_name_def CAPIO_DEFAULT_WORKFLOW_NAME_def)
  then have "start_upto willing ''CAPIO'' ''wf'' 4 (no_components, no_shm) \<noteq> Inl e" for e
    using start_upto.simps(2)[of willing "''CAPIO''" "''wf''" 4] by (auto simp: rbind_Inl_iff)
  then obtain co ss1 where s: "start_upto willing ''CAPIO'' ''wf'' 4 (no_components, no_shm) = Inr (co, ss1)"
    by (cases "start_upto willing ''CAPIO'' ''wf'' 4 (no_components, no_shm)") auto
  have "co_canary co = Some ''wf''"
    using complete_but_requests[OF s] canary_open_name[of willing "''CAPIO''" "''wf''" no_shm] by auto
  moreover have "queue_absent (queue_names_of ''wf'' n) no_shm" for n
    by (simp add: queue_absent_def no_shm_def)
  ultimately show ?thesis
    using signal_during_start_cleans[OF s, of 0 ss1] s by auto
qed

text \<open>
  A signal after the canary is made and before \<open>shm_canary\<close> points to it: the canary stays, and the next
  server of the workflow is refused.
\<close>

lemma signal_in_canary_constructor:
  assumes "map_of (shm_objects ss) w = None" and "w \<noteq> []"
  shows "\<exists>ss1. run_parts (take 1 (component_parts willing e w 0)) ss = Inr ss1 \<and>
    sig_term_handler_in willing Main_thread no_components ss1 = Inr ss1 \<and>
    CapioShmCanary_open willing e w ss1 = Inl ErrExit"
  using assms
  by (simp add: component_parts_def CapioShmCanary_open_def sig_term_handler_in_def no_components_def
      umap_simps willing_simps)

text \<open>
  A signal that a fault of a helper thread raises comes to that thread, whose handler then joins
  itself: the canary stays, and no other server of the workflow starts.
\<close>

lemma signal_on_helper_undefined:
  assumes "server_main willing getenv realpath load parsed f ss = Inr (Some (rs, ss1))"
    and "rs_workflow rs \<noteq> []" and "th \<noteq> Main_thread"
  shows "sig_term_handler_in willing th \<lparr>co_canary = Some (rs_canary rs), co_monitor = True,
     co_ctl = Some (rs_ctl_rx rs, rs_ctl_tx rs), co_requests = Some (rs_requests rs)\<rparr> ss1 = Inl Undefined"
proof -
  note o = server_main_objects(1)[OF assms(1,2)] and r = server_main_rings[OF assms(1)]
  from sig_term_removes[OF o r(3,1,2) r(4)[OF assms(2)]] obtain ss2 where
    "sig_term_handler willing rs ss1 = Inr ss2" by blast
  then show ?thesis
    using assms(3) by (cases th) (auto simp: sig_term_handler_def sig_term_handler_in_def res_simps)
qed

end
