(* ===== verification/Node.thy ===== *)
theory Node
  imports Requests
begin

text \<open>
  The node as a whole: the threads of all applications, the ring of requests in shared memory and the
  server with its monitor, in any interleaving. A thread is what the functions of
  \<open>src/posix/utils/requests.hpp\<close> make of it: it writes requests into the ring while it runs, blocks
  after one that asks for an answer, and goes on when it takes the answer from its own ring. Thread
  ids are not used a second time. A request is served in one step, and the monitor wakes the threads of
  a path and deletes its entry in one; between these two calls of the monitor a thread that is added late
  is lost, which \<open>Answers\<close> and \<open>Interleaving\<close> show. That clients ask one thing at a time, which \<open>ServerSteps\<close>
  takes for granted, is proved here.
\<close>

subsection \<open>What a request does to its thread\<close>

fun asks :: "request \<Rightarrow> tid option" where
  "asks (Consent t path src) = Some t"
| "asks (Open t d path) = Some t"
| "asks (Read path t d n) = Some t"
| "asks _ = None"

fun leaves :: "request \<Rightarrow> tid option" where
  "leaves (ExitGroup t) = Some t"
| "leaves _ = None"

fun greets :: "request \<Rightarrow> tid option" where
  "greets (HandshakeNamed t pid app) = Some t"
| "greets (HandshakeAnonymous t pid) = Some t"
| "greets _ = None"

text \<open>The threads the server knows once it has served a request, and a queue of them.\<close>

definition known_after :: "request \<Rightarrow> tid set \<Rightarrow> tid set" where
  "known_after m R =
     (case greets m of Some t \<Rightarrow> insert t R
      | None \<Rightarrow> (case leaves m of Some t \<Rightarrow> R - {t} | None \<Rightarrow> R))"

fun known_finally :: "request list \<Rightarrow> tid set \<Rightarrow> tid set" where
  "known_finally [] R = R"
| "known_finally (m # ms) R = known_finally ms (known_after m R)"

text \<open>Every request that asks comes from a thread the server knows when it gets there.\<close>

fun askers_known :: "request list \<Rightarrow> tid set \<Rightarrow> bool" where
  "askers_known [] R = True"
| "askers_known (m # ms) R = ((\<forall>t. asks m = Some t \<longrightarrow> t \<in> R) \<and> askers_known ms (known_after m R))"

definition asked :: "request list \<Rightarrow> tid \<Rightarrow> nat" where
  "asked ms t = count_list (map asks ms) (Some t)"

lemma asked_simps [simp]:
  "asked [] t = 0" "asked (m # ms) t = (if asks m = Some t then 1 else 0) + asked ms t"
  "asked (ms @ ms') t = asked ms t + asked ms' t"
  by (simp_all add: asked_def)

lemma known_finally_append [simp]: "known_finally (ms @ ms') R = known_finally ms' (known_finally ms R)"
  by (induction ms arbitrary: R) simp_all

lemma askers_known_append [simp]:
  "askers_known (ms @ ms') R \<longleftrightarrow> askers_known ms R \<and> askers_known ms' (known_finally ms R)"
  by (induction ms arbitrary: R) auto

subsection \<open>What the server makes of it\<close>

lemma parsed_asker:
  assumes "parse_request code str = Some m"
  shows "asker code str = asks m" and "leaver code str = leaves m"
  using assms
  by (auto simp: parse_request_def asker_def leaver_def request_codes bind_eq_Some_conv
      split: if_splits option.splits)

lemma parsed_greets:
  assumes "parse_request code str = Some m" and "greets m = Some t"
  shows "code = 5 \<or> code = 6" and "\<exists>r. scan_pid str = Some (t, r)"
  using assms by (auto simp: parse_request_def request_codes bind_eq_Some_conv split: if_splits)

lemma parsed_plain:
  assumes "parse_request code str = Some m" and "code \<noteq> 4" and "code \<noteq> 5" and "code \<noteq> 6"
  shows "known_after m R = R"
  using assms
  by (auto simp: known_after_def parse_request_def request_codes bind_eq_Some_conv split: if_splits)

lemma registered_exit:
  assumes "exit_handler env str s = Inr s'" and "scan_pid str = Some (t, r)"
  shows "registered s' = registered s - {t}"
proof -
  from assms obtain s1 where s1: "setCommitted_tid env t s = Inr s1"
      "s' = s1\<lparr>srv_clients := remove_client t (srv_clients s1)\<rparr>"
    by (auto simp: exit_handler_def do_exit_def res_simps)
  have "keeps s s1" using s1(1) by (auto simp: setCommitted_tid_def res_simps intro: keeps_setCommitted_all)
  with keeps_registered show ?thesis by (auto simp: s1(2) registered_def remove_client_def)
qed

lemma registered_handshake:
  "do_handshake t a s = Inr s' \<Longrightarrow> registered s' = insert t (registered s)"
  by (auto simp: do_handshake_def registered_def register_new_client_def map_emplace_def split: if_splits option.splits)

text \<open>After a request the server knows whom the request says.\<close>

lemma served_known:
  assumes sv: "serve env req s = Inr s'" and rd: "read_next_request req = Inr (code, str)"
    and pr: "parse_request code str = Some m"
  shows "registered s' = known_after m (registered s)"
proof (cases "code = 4 \<or> code = 5 \<or> code = 6")
  case False
  then have "keeps s s'"
    using keeps_close keeps_consent keeps_open keeps_read keeps_create keeps_rename keeps_write
    by (cases rule: serve_cases[OF sv rd]) blast+
  with keeps_registered parsed_plain[OF pr] False show ?thesis by blast
next
  case True
  then consider "code = 4" | "code = 5" | "code = 6" by blast
  then show ?thesis
  proof cases
    case 1
    with pr obtain t r where p: "scan_pid str = Some (t, r)" "m = ExitGroup t"
      by (auto simp: parse_request_def request_codes)
    from 1 have "exit_handler env str s = Inr s'" by (cases rule: serve_cases[OF sv rd]) auto
    from registered_exit[OF this p(1)] p(2) show ?thesis by (simp add: known_after_def)
  next
    case 2
    with pr obtain t r d a r' where p: "scan_pid str = Some (t, r)" "scan_pid r = Some (d, r')"
        "m = HandshakeNamed t d a"
      by (auto simp: parse_request_def request_codes bind_eq_Some_conv)
    from 2 have "handshake_named_handler env str s = Inr s'" by (cases rule: serve_cases[OF sv rd]) auto
    with p show ?thesis by (auto simp: handshake_named_handler_def res_simps known_after_def
        dest: registered_handshake split: option.splits)
  next
    case 3
    with pr obtain t r d r' where p: "scan_pid str = Some (t, r)" "scan_pid r = Some (d, r')"
        "m = HandshakeAnonymous t d"
      by (auto simp: parse_request_def request_codes bind_eq_Some_conv)
    from 3 have "handshake_anonymous_handler env str s = Inr s'" by (cases rule: serve_cases[OF sv rd]) auto
    with p show ?thesis by (auto simp: handshake_anonymous_handler_def res_simps known_after_def
        dest: registered_handshake split: option.splits)
  qed
qed

subsection \<open>The steps of a node\<close>

datatype phase = Unborn | Running | Asking | Gone

text \<open>The monitor is between its two calls on the path in \<open>nd_monitor\<close>. \<open>nd_dropped\<close> only records: the
  threads that were on a list when the monitor deleted it.\<close>

record node_state =
  nd_ring :: ring
  nd_server :: server
  nd_monitor :: "string option"
  nd_phase :: "tid \<Rightarrow> phase"
  nd_dropped :: "tid set"

text \<open>\<open>buf_requests->write\<close> of a request. The bytes behind the text are those of the stack.\<close>

definition put_request :: "(nat \<Rightarrow> char) \<Rightarrow> request \<Rightarrow> ring \<Rightarrow> ring option" where
  "put_request junk m r = queue_write_elem r (slot_of junk (request_text m))"

text \<open>\<open>bufs_response->at (t)->read\<close>.\<close>

definition take_answer :: "tid \<Rightarrow> server \<Rightarrow> (u64 \<times> server) option" where
  "take_answer t s =
     (case bufs_response (srv_clients s) t of
        Some (v # vs) \<Rightarrow> Some (v, s\<lparr>srv_clients := (srv_clients s)\<lparr>bufs_response :=
          (bufs_response (srv_clients s))(t \<mapsto> vs)\<rparr>\<rparr>)
      | _ \<Rightarrow> None)"

inductive node_step :: "env \<Rightarrow> node_state \<Rightarrow> node_state \<Rightarrow> bool" for env :: env where
  greet: "greets m = Some t \<Longrightarrow> nd_phase n t = Unborn \<Longrightarrow> request_ok m \<Longrightarrow>
     put_request junk m (nd_ring n) = Some r \<Longrightarrow>
     node_step env n (n\<lparr>nd_ring := r, nd_phase := (nd_phase n)(t := Running)\<rparr>)"
| tell: "asks m = None \<Longrightarrow> greets m = None \<Longrightarrow> leaves m = None \<Longrightarrow> request_ok m \<Longrightarrow>
     put_request junk m (nd_ring n) = Some r \<Longrightarrow> node_step env n (n\<lparr>nd_ring := r\<rparr>)"
| ask: "asks m = Some t \<Longrightarrow> nd_phase n t = Running \<Longrightarrow> request_ok m \<Longrightarrow>
     put_request junk m (nd_ring n) = Some r \<Longrightarrow>
     node_step env n (n\<lparr>nd_ring := r, nd_phase := (nd_phase n)(t := Asking)\<rparr>)"
| leave: "leaves m = Some t \<Longrightarrow> nd_phase n t = Running \<Longrightarrow> request_ok m \<Longrightarrow>
     put_request junk m (nd_ring n) = Some r \<Longrightarrow>
     node_step env n (n\<lparr>nd_ring := r, nd_phase := (nd_phase n)(t := Gone)\<rparr>)"
| resume: "nd_phase n t = Asking \<Longrightarrow> take_answer t (nd_server n) = Some (v, s) \<Longrightarrow>
     node_step env n (n\<lparr>nd_server := s, nd_phase := (nd_phase n)(t := Running)\<rparr>)"
| serve_next: "queue_read_elem (nd_ring n) = Some (req, r) \<Longrightarrow> serve env req (nd_server n) = Inr s \<Longrightarrow>
     node_step env n (n\<lparr>nd_ring := r, nd_server := s\<rparr>)"
| watch_creation: "nd_monitor n = None \<Longrightarrow> fs_exists (srv_fs (nd_server n)) p \<Longrightarrow>
     unlockThreadAwaitingCreation p (nd_server n) = Inr s \<Longrightarrow>
     node_step env n (n\<lparr>nd_server := s, nd_monitor := Some p\<rparr>)"
| watch_delete: "nd_monitor n = Some p \<Longrightarrow>
     node_step env n (n\<lparr>nd_server := deleteFileAwaitingCreation p (nd_server n), nd_monitor := None,
       nd_dropped := nd_dropped n \<union> set (creation_waiters (nd_server n) p)\<rparr>)"
| watch_data: "nd_monitor n = None \<Longrightarrow> monitor_data env [p] (nd_server n) = Inr s \<Longrightarrow>
     node_step env n (n\<lparr>nd_server := s\<rparr>)"
| disk_changes: "node_step env n (n\<lparr>nd_server := (nd_server n)\<lparr>srv_fs := f\<rparr>\<rparr>)"

definition node_start :: "ring \<Rightarrow> engine \<Rightarrow> fs \<Rightarrow> node_state" where
  "node_start r eng f = \<lparr>nd_ring = r, nd_server = server_start eng f, nd_monitor = None,
     nd_phase = (\<lambda>_. Unborn), nd_dropped = {}\<rparr>"

subsection \<open>The invariant of a node\<close>

text \<open>\<open>ms\<close> are the requests in the ring.\<close>

definition in_transit :: "node_state \<Rightarrow> request list \<Rightarrow> bool" where
  "in_transit n ms \<longleftrightarrow> ring_ok (nd_ring n) \<and> req_ring (nd_ring n) \<and>
     map decode_request (ring_contents (nd_ring n)) = map Some ms"

definition alive :: "node_state \<Rightarrow> tid set" where
  "alive n = {t. nd_phase n t = Running \<or> nd_phase n t = Asking}"

text \<open>Where the answer a thread waits for is: with its request, with the server, or nowhere.\<close>

abbreviation claims :: "node_state \<Rightarrow> request list \<Rightarrow> tid \<Rightarrow> nat" where
  "claims n ms t \<equiv> asked ms t + owed (nd_server n) t + of_bool (t \<in> nd_dropped n)"

definition node_inv :: "env \<Rightarrow> engine \<Rightarrow> node_state \<Rightarrow> request list \<Rightarrow> bool" where
  "node_inv env eng n ms \<longleftrightarrow> in_transit n ms \<and> reachable env eng (nd_server n) \<and>
     askers_known ms (registered (nd_server n)) \<and> known_finally ms (registered (nd_server n)) = alive n \<and>
     (\<forall>t. claims n ms t = (if nd_phase n t = Asking then 1 else 0)) \<and>
     (\<forall>m \<in> set ms. \<forall>t. leaves m = Some t \<longrightarrow> nd_phase n t = Gone)"

lemma put_request_transit:
  assumes "in_transit n ms" and "request_ok m" and "put_request junk m (nd_ring n) = Some r"
  shows "in_transit (n\<lparr>nd_ring := r, nd_phase := ph\<rparr>) (ms @ [m])"
proof -
  have ok: "ring_ok (nd_ring n)" "req_ring (nd_ring n)" using assms(1) by (simp_all add: in_transit_def)
  have "elem_fits r = elem_fits (nd_ring n)" "ring_ok r"
    "ring_contents r = ring_contents (nd_ring n) @ [slot_of junk (request_text m)]"
    using rq.put_Some[OF ok(1) requests.encode_ok[OF assms(2) ok(2)] assms(3)[unfolded put_request_def]] by auto
  moreover have "req_ring r"
    using ok(2) calculation(1) length_replicate[of CAPIO_REQ_MAX_SIZE "CHR 0x00"]
    by (metis elem_fits_def req_ring_def)
  ultimately show ?thesis
    using assms(1,2) by (simp add: in_transit_def requests.decode_encode)
qed

lemma taken_transit:
  assumes "in_transit n ms" and "queue_read_elem (nd_ring n) = Some (req, r)"
  obtains m ms' where "ms = m # ms'" and "decode_request req = Some m"
    and "in_transit (n\<lparr>nd_ring := r, nd_server := s\<rparr>) ms'"
proof -
  have ok: "ring_ok (nd_ring n)" "req_ring (nd_ring n)" using assms(1) by (simp_all add: in_transit_def)
  have c: "ring_ok r" "ring_contents (nd_ring n) = req # ring_contents r" "elem_fits r = elem_fits (nd_ring n)"
    using rq.get_Some[OF ok(1) assms(2)] by auto
  then have "req_ring r"
    using ok(2) length_replicate[of CAPIO_REQ_MAX_SIZE "CHR 0x00"] by (metis elem_fits_def req_ring_def)
  with assms(1) c that show thesis by (cases ms) (auto simp: in_transit_def)
qed

lemma request_roles:
  "greets m = Some t \<Longrightarrow> asks m = None \<and> leaves m = None"
  "asks m = Some t \<Longrightarrow> greets m = None \<and> leaves m = None"
  "leaves m = Some t \<Longrightarrow> greets m = None \<and> asks m = None"
  by (cases m; simp)+

lemma inv_server: "node_inv env eng n ms \<Longrightarrow> umap_wf eng \<Longrightarrow> server_inv (nd_server n)"
  unfolding node_inv_def using reachable_inv by blast

lemma inv_quiet_server:
  assumes i: "node_inv env eng n ms" and r: "reachable env eng s"
    and o: "\<And>t. owed s t = owed (nd_server n) t" and k: "registered s = registered (nd_server n)"
  shows "node_inv env eng (n\<lparr>nd_server := s\<rparr>) ms"
  using assms by (simp add: node_inv_def in_transit_def alive_def)

lemma node_serve_inv:
  assumes i: "node_inv env eng n ms" and wf: "umap_wf eng"
    and q: "queue_read_elem (nd_ring n) = Some (req, r)" and sv: "serve env req (nd_server n) = Inr s"
  shows "\<exists>ms'. node_inv env eng (n\<lparr>nd_ring := r, nd_server := s\<rparr>) ms'"
proof -
  let ?s = "nd_server n"
  from i have tr: "in_transit n ms" and re: "reachable env eng ?s"
    and ak: "askers_known ms (registered ?s)" and kf: "known_finally ms (registered ?s) = alive n"
    and ac: "\<And>t. claims n ms t = (if nd_phase n t = Asking then 1 else 0)"
    and lv: "\<And>m t. m \<in> set ms \<Longrightarrow> leaves m = Some t \<Longrightarrow> nd_phase n t = Gone"
    by (auto simp: node_inv_def)
  obtain m ms' where ms: "ms = m # ms'" and dec: "decode_request req = Some m"
    and tr': "in_transit (n\<lparr>nd_ring := r, nd_server := s\<rparr>) ms'" using taken_transit[OF tr q] by metis
  from dec obtain code str where rd: "read_next_request req = Inr (code, str)" and pr: "parse_request code str = Some m"
    by (auto simp: decode_request_def split: sum.splits)
  note who = parsed_asker[OF pr]
  have inv: "server_inv ?s" by (rule reachable_inv[OF re wf])
  have "owed ?s t = 0" if "asks m = Some t" for t using ac[of t] that by (simp add: ms split: if_splits)
  moreover have "owed ?s t = 0" if "leaves m = Some t" for t
    using ac[of t] lv[of m t] that by (simp add: ms)
  ultimately have wb: "well_behaved code str ?s" using ak by (simp add: well_behaved_def who ms)
  then have re': "reachable env eng s" using reachable.step[OF re request[OF rd _ sv]] by simp
  have k: "registered s = known_after m (registered ?s)" by (rule served_known[OF sv rd pr])
  have same: "asked ms' t + owed s t = asked ms t + owed ?s t" for t
  proof (cases "leaves m")
    case None
    with request_owes_one[OF sv rd inv wb, of t] who show ?thesis by (simp add: ms)
  next
    case (Some u)
    with pr obtain w where p: "scan_pid str = Some (u, w)" "code = 4"
      by (cases m) (auto simp: parse_request_def request_codes bind_eq_Some_conv split: if_splits)
    have "exit_handler env str ?s = Inr s" using p(2) by (cases rule: serve_cases[OF sv rd]) auto
    from exit_owed[OF this p(1)] inv have "owed s t = owed ?s t"
      using \<open>\<And>t. leaves m = Some t \<Longrightarrow> owed ?s t = 0\<close>[OF Some] by (cases "t = u") (auto simp: server_inv_def)
    with request_roles(3)[OF Some] show ?thesis by (simp add: ms)
  qed
  have "\<forall>m \<in> set ms'. \<forall>t. leaves m = Some t \<longrightarrow> nd_phase n t = Gone" using lv unfolding ms by auto
  moreover have "\<forall>t. asked ms' t + owed s t + of_bool (t \<in> nd_dropped n) =
      (if nd_phase n t = Asking then 1 else 0)" using same ac by simp
  ultimately show ?thesis using ak kf k tr' re'
    by (intro exI[of _ ms']) (simp add: node_inv_def ms alive_def)
qed

lemma owed_disk [simp]: "owed (s\<lparr>srv_fs := f\<rparr>) t = owed s t" "registered (s\<lparr>srv_fs := f\<rparr>) = registered s"
  by (simp_all add: owed_def registered_def)

lemma watch_quiet:
  "unlockThreadAwaitingCreation p s = Inr s' \<Longrightarrow> waiting_wf s \<Longrightarrow>
     (\<forall>t. owed s' t = owed s t) \<and> registered s' = registered s"
  "monitor_data env [p] s = Inr s' \<Longrightarrow> waiting_wf s \<Longrightarrow> (\<forall>t. owed s' t = owed s t) \<and> registered s' = registered s"
proof -
  assume m: "unlockThreadAwaitingCreation p s = Inr s'" and w: "waiting_wf s"
  from keeps_registered[OF keeps_same[OF same_unlockCreation[OF m]]] unlockCreation_conserves[OF m w]
  show "(\<forall>t. owed s' t = owed s t) \<and> registered s' = registered s" by (simp add: conserves_def)
next
  assume m: "monitor_data env [p] s = Inr s'" and w: "waiting_wf s"
  have "keeps s s'" using m by (auto simp: res_simps split: if_splits intro: keeps_manager)
  with keeps_registered monitor_data_conserves[OF m w]
  show "(\<forall>t. owed s' t = owed s t) \<and> registered s' = registered s" by (simp add: conserves_def)
qed

lemma taken_answer:
  assumes "take_answer t s = Some (v, s')"
  shows "\<exists>vs. bufs_response (srv_clients s) t = Some (v # vs) \<and> server_step env s s'"
    and "registered s' = registered s" and "owed s u = owed s' u + (if u = t then 1 else 0)"
proof -
  from assms obtain vs where b: "bufs_response (srv_clients s) t = Some (v # vs)"
    and s': "s' = s\<lparr>srv_clients := (srv_clients s)\<lparr>bufs_response := (bufs_response (srv_clients s))(t \<mapsto> vs)\<rparr>\<rparr>"
    by (auto simp: take_answer_def split: option.splits list.splits)
  show "\<exists>vs. bufs_response (srv_clients s) t = Some (v # vs) \<and> server_step env s s'"
    unfolding s' using b collect by blast
  show "registered s' = registered s" using b by (auto simp: s' registered_def)
  show "owed s u = owed s' u + (if u = t then 1 else 0)" using b by (simp add: s' owed_def buffered_def)
qed

text \<open>Whoever is on the list that is deleted is owed nothing any more.\<close>

lemma node_delete_inv:
  assumes i: "node_inv env eng n ms" and wf: "umap_wf eng"
  shows "node_inv env eng (n\<lparr>nd_server := deleteFileAwaitingCreation p (nd_server n),
     nd_dropped := nd_dropped n \<union> set (creation_waiters (nd_server n) p)\<rparr>) ms" (is "node_inv env eng ?n ms")
proof -
  let ?s = "nd_server n"
  have re: "reachable env eng ?s" using i by (simp add: node_inv_def)
  have w: "waiting_wf ?s" using inv_server[OF i wf] by (simp add: server_inv_def)
  have "claims ?n ms t = claims n ms t" for t
  proof -
    have c: "claims n ms t \<le> 1" using i by (simp add: node_inv_def)
    have d: "owed (deleteFileAwaitingCreation p ?s) t + count_list (creation_waiters ?s p) t = owed ?s t"
      by (rule delete_owed(1)[OF w])
    show ?thesis
    proof (cases "t \<in> set (creation_waiters ?s p)")
      case True
      then have "0 < count_list (creation_waiters ?s p) t" by (metis count_list_0_iff gr0I)
      with c d True show ?thesis by (auto split: if_splits)
    next
      case False
      then have "count_list (creation_waiters ?s p) t = 0" by (simp add: count_list_0_iff)
      with d False show ?thesis by simp
    qed
  qed
  then have "\<forall>t. claims ?n ms t = (if nd_phase ?n t = Asking then 1 else 0)" using i by (simp only: node_inv_def) simp
  moreover have "registered (deleteFileAwaitingCreation p ?s) = registered ?s"
    by (rule keeps_registered[OF delete_keeps])
  moreover have "reachable env eng (deleteFileAwaitingCreation p ?s)" using reachable.step[OF re poll_delete] .
  ultimately show ?thesis using i unfolding node_inv_def
    by (intro conjI) (simp_all only: in_transit_def alive_def node_state.simps, simp_all)
qed

lemma node_step_inv:
  assumes "node_step env n n'" and "umap_wf eng" and "\<exists>ms. node_inv env eng n ms"
  shows "\<exists>ms. node_inv env eng n' ms"
  using assms(1,3)
proof (induction rule: node_step.induct)
  case (greet m t n junk r)
  then obtain ms where i: "node_inv env eng n ms" by blast
  note roles = request_roles(1)[OF greet.hyps(1)]
  have "in_transit n ms" using i by (simp add: node_inv_def)
  note tr = put_request_transit[OF this greet.hyps(3,4), of "(nd_phase n)(t := Running)"]
  have "alive (n\<lparr>nd_ring := r, nd_phase := (nd_phase n)(t := Running)\<rparr>) = insert t (alive n)"
    by (auto simp: alive_def)
  with i tr roles greet.hyps(1,2) show ?case
    by (intro exI[of _ "ms @ [m]"]) (auto simp: node_inv_def known_after_def split: if_splits)
next
  case (tell m junk n r)
  then obtain ms where i: "node_inv env eng n ms" by blast
  then have "in_transit n ms" by (simp add: node_inv_def)
  from put_request_transit[OF this tell.hyps(4,5), of "nd_phase n"] i tell.hyps(1-3) show ?case
    by (intro exI[of _ "ms @ [m]"]) (auto simp: node_inv_def known_after_def alive_def split: if_splits)
next
  case (ask m t n junk r)
  then obtain ms where i: "node_inv env eng n ms" by blast
  note roles = request_roles(2)[OF ask.hyps(1)]
  have "in_transit n ms" using i by (simp add: node_inv_def)
  note tr = put_request_transit[OF this ask.hyps(3,4), of "(nd_phase n)(t := Asking)"]
  have "t \<in> known_finally ms (registered (nd_server n))" using i ask.hyps(2) by (simp add: node_inv_def alive_def)
  moreover have "alive (n\<lparr>nd_ring := r, nd_phase := (nd_phase n)(t := Asking)\<rparr>) = alive n"
    using ask.hyps(2) by (auto simp: alive_def)
  ultimately show ?case using i tr roles ask.hyps(1,2)
    by (intro exI[of _ "ms @ [m]"]) (auto simp: node_inv_def known_after_def split: if_splits)
next
  case (leave m t n junk r)
  then obtain ms where i: "node_inv env eng n ms" by blast
  note roles = request_roles(3)[OF leave.hyps(1)]
  have "in_transit n ms" using i by (simp add: node_inv_def)
  note tr = put_request_transit[OF this leave.hyps(3,4), of "(nd_phase n)(t := Gone)"]
  have "alive (n\<lparr>nd_ring := r, nd_phase := (nd_phase n)(t := Gone)\<rparr>) = alive n - {t}"
    by (auto simp: alive_def)
  with i tr roles leave.hyps(1,2) show ?case
    by (intro exI[of _ "ms @ [m]"]) (auto simp: node_inv_def known_after_def split: if_splits)
next
  case (resume n t v s)
  then obtain ms where i: "node_inv env eng n ms" by blast
  have "reachable env eng s"
    using i taken_answer(1)[OF resume.hyps(2)] reachable.step by (metis node_inv_def)
  moreover have "alive (n\<lparr>nd_server := s, nd_phase := (nd_phase n)(t := Running)\<rparr>) = alive n"
    using resume.hyps(1) by (auto simp: alive_def)
  moreover have "asked ms u + owed s u + of_bool (u \<in> nd_dropped n) =
      (if ((nd_phase n)(t := Running)) u = Asking then 1 else 0)" for u
  proof -
    have "claims n ms u = (if nd_phase n u = Asking then 1 else 0)"
      using i by (simp add: node_inv_def)
    with taken_answer(3)[OF resume.hyps(2), of u] resume.hyps(1) show ?thesis by (auto split: if_splits)
  qed
  moreover have "\<forall>m \<in> set ms. \<forall>u. leaves m = Some u \<longrightarrow> ((nd_phase n)(t := Running)) u = Gone"
    using i resume.hyps(1) by (fastforce simp: node_inv_def)
  ultimately show ?case using i taken_answer(2)[OF resume.hyps(2)]
    by (intro exI[of _ ms]) (simp add: node_inv_def in_transit_def)
next
  case (serve_next n req r s)
  then show ?case using node_serve_inv[OF _ assms(2) serve_next.hyps] by blast
next
  case (watch_creation n p s)
  then obtain ms where i: "node_inv env eng n ms" by blast
  then have re: "reachable env eng (nd_server n)" by (simp add: node_inv_def)
  have "reachable env eng s" using reachable.step[OF re poll_creation[OF watch_creation.hyps(2,3)]] .
  moreover have "waiting_wf (nd_server n)" using reachable_inv[OF re assms(2)] by (simp add: server_inv_def)
  ultimately have "node_inv env eng (n\<lparr>nd_server := s\<rparr>) ms"
    using inv_quiet_server[OF i] watch_quiet(1)[OF watch_creation.hyps(3)] by blast
  then show ?case by (auto simp: node_inv_def in_transit_def alive_def)
next
  case (watch_delete n p)
  then obtain ms where i: "node_inv env eng n ms" by blast
  then have "node_inv env eng (n\<lparr>nd_server := deleteFileAwaitingCreation p (nd_server n),
      nd_dropped := nd_dropped n \<union> set (creation_waiters (nd_server n) p)\<rparr>) ms"
    using assms(2) by (rule node_delete_inv)
  then show ?case by (auto simp: node_inv_def in_transit_def alive_def)
next
  case (watch_data n p s)
  then obtain ms where i: "node_inv env eng n ms" by blast
  then have re: "reachable env eng (nd_server n)" by (simp add: node_inv_def)
  have "reachable env eng s" using reachable.step[OF re poll_data[OF watch_data.hyps(2)]] .
  moreover have "waiting_wf (nd_server n)" using reachable_inv[OF re assms(2)] by (simp add: server_inv_def)
  ultimately show ?case using inv_quiet_server[OF i] watch_quiet(2)[OF watch_data.hyps(2)] by blast
next
  case (disk_changes n f)
  then obtain ms where i: "node_inv env eng n ms" by blast
  then have re: "reachable env eng (nd_server n)" by (simp add: node_inv_def)
  have "reachable env eng ((nd_server n)\<lparr>srv_fs := f\<rparr>)" using reachable.step[OF re files_change] .
  then show ?case using inv_quiet_server[OF i] owed_disk by blast
qed

inductive node_reachable :: "env \<Rightarrow> ring \<Rightarrow> engine \<Rightarrow> node_state \<Rightarrow> bool" for env :: env and r :: ring and eng :: engine where
  node_init: "node_reachable env r eng (node_start r eng f)"
| node_move: "node_reachable env r eng n \<Longrightarrow> node_step env n n' \<Longrightarrow> node_reachable env r eng n'"

lemma start_node_inv:
  assumes "ring_ok r" and "req_ring r" and "ring_contents r = []"
  shows "node_inv env eng (node_start r eng f) []"
  using assms reachable.start[of env eng f]
  by (auto simp: node_inv_def node_start_def in_transit_def alive_def server_start_def registered_def
      client_manager_init_def owed_def buffered_def in_creation_def in_data_def table_sum_def)

lemma node_reachable_inv:
  assumes "node_reachable env r eng n" and "ring_ok r" and "req_ring r" and "ring_contents r = []" and "umap_wf eng"
  shows "\<exists>ms. node_inv env eng n ms"
  using assms(1)
proof (induction rule: node_reachable.induct)
  case (node_init f)
  show ?case using start_node_inv[OF assms(2-4)] by blast
next
  case (node_move n n')
  then show ?case using node_step_inv assms(5) by blast
qed

subsection \<open>Nobody waits in vain for the node\<close>

lemma waits_somewhere:
  assumes "waiting_wf s" and "0 < in_creation (srv_fm s) t + in_data (srv_fm s) t"
  shows "\<exists>p. t \<in> set (creation_waiters s p) \<or> t \<in> fst ` set (data_waiters s p)"
proof (cases "0 < in_creation (srv_fm s) t")
  case True
  have "umap_wf (thread_awaiting_file_creation (srv_fm s))" using assms(1) by (simp add: waiting_wf_def)
  from table_sum_pos[OF True[unfolded in_creation_def] this] obtain p ts where
    "map_of (thread_awaiting_file_creation (srv_fm s)) p = Some ts" "0 < count_list ts t" by blast
  then have "t \<in> set (creation_waiters s p)" by (simp add: creation_waiters_def) (metis count_list_0_iff less_irrefl)
  then show ?thesis by blast
next
  case False
  have "umap_wf (thread_awaiting_data (srv_fm s))" using assms(1) by (simp add: waiting_wf_def)
  moreover have "0 < in_data (srv_fm s) t" using False assms(2) by simp
  ultimately obtain p th where
    "map_of (thread_awaiting_data (srv_fm s)) p = Some th" "0 < count_list (map fst th) t"
    using table_sum_pos[of "\<lambda>th. count_list (map fst th) t"] unfolding in_data_def by blast
  then have "t \<in> fst ` set (data_waiters s p)"
    by (simp add: data_waiters_def) (metis count_list_0_iff less_irrefl set_map)
  then show ?thesis by blast
qed

text \<open>The monitor finishes the path it is at, finds the path of a thread, and the thread goes on.\<close>

definition runs_within :: "nat \<Rightarrow> env \<Rightarrow> node_state \<Rightarrow> tid \<Rightarrow> bool" where
  "runs_within k env n t \<longleftrightarrow> (\<exists>i \<le> k. \<exists>n'. (node_step env ^^ i) n n' \<and> nd_phase n' t = Running)"

lemma runs_in_two: "node_step env n n' \<Longrightarrow> node_step env n' n'' \<Longrightarrow> nd_phase n'' t = Running \<Longrightarrow> runs_within 2 env n t"
  unfolding runs_within_def by (intro exI[of _ 2]) (auto simp: numeral_2_eq_2)

lemma runs_later: "node_step env n n' \<Longrightarrow> runs_within k env n' t \<Longrightarrow> runs_within (Suc k) env n t"
  unfolding runs_within_def by (metis Suc_le_mono relpowp_Suc_I2)

lemma runs_sooner: "runs_within k env n t \<Longrightarrow> k \<le> l \<Longrightarrow> runs_within l env n t"
  unfolding runs_within_def by (meson le_trans)

lemma creation_waiter_goes_on:
  assumes i: "node_inv env eng n ms" and wf: "umap_wf eng" and ph: "nd_phase n t = Asking" and mo: "nd_monitor n = None"
    and w: "t \<in> set (creation_waiters (nd_server n) p)" and ex: "fs_exists (srv_fs (nd_server n)) p"
  shows "runs_within 2 env n t"
proof -
  let ?s = "nd_server n"
  from creation_wakes[OF inv_server[OF i wf], of p] obtain s1 where
    s1: "unlockThreadAwaitingCreation p ?s = Inr s1" "bufs_response (srv_clients s1) t = Some [1]" using w by blast
  have a: "node_step env n (n\<lparr>nd_server := s1, nd_monitor := Some p\<rparr>)" using mo ex s1(1) by (rule watch_creation)
  obtain s3 where "take_answer t s1 = Some (1, s3)" using s1(2) by (simp add: take_answer_def)
  from resume[of "n\<lparr>nd_server := s1, nd_monitor := Some p\<rparr>" t 1 s3 env] ph this a show ?thesis
    by (auto intro: runs_in_two)
qed

lemma data_waiter_goes_on:
  assumes i: "node_inv env eng n ms" and wf: "umap_wf eng" and ph: "nd_phase n t = Asking" and mo: "nd_monitor n = None"
    and w: "t \<in> fst ` set (data_waiters (nd_server n) p)" and ex: "fs_exists (srv_fs (nd_server n)) p"
    and e: "map_of (srv_engine (nd_server n)) p \<noteq> None"
    and c: "isCommitted env p (nd_server n) = Inr (c, nd_server n)"
    and v: "filesize_of (srv_fs (nd_server n)) p = Inr v" and r: "released (nd_server n) p c v t"
  shows "runs_within 2 env n t"
proof -
  from data_wakes[OF inv_server[OF i wf] e c v] w r obtain s1 where
    s1: "checkAndUnlockThreadAwaitingData env p (nd_server n) = Inr s1" "bufs_response (srv_clients s1) t = Some [v]"
    by blast
  have "monitor_data env [p] (nd_server n) = Inr s1" using ex s1(1) by simp
  with mo have a: "node_step env n (n\<lparr>nd_server := s1\<rparr>)" by (rule watch_data)
  obtain s2 where "take_answer t s1 = Some (v, s2)" using s1(2) by (simp add: take_answer_def)
  from resume[of "n\<lparr>nd_server := s1\<rparr>" t v s2 env] ph this a show ?thesis
    by (auto intro: runs_in_two)
qed

text \<open>What the second call of the monitor leaves alone.\<close>

lemma delete_data [simp]: "data_waiters (deleteFileAwaitingCreation p s) q = data_waiters s q"
  "srv_fs (deleteFileAwaitingCreation p s) = srv_fs s" "srv_engine (deleteFileAwaitingCreation p s) = srv_engine s"
  "srv_clients (deleteFileAwaitingCreation p s) = srv_clients s"
  by (simp_all add: data_waiters_def deleteFileAwaitingCreation_def)

lemma delete_released [simp]: "released (deleteFileAwaitingCreation q s) p c v t = released s p c v t"
  by (simp add: released_def)

lemma delete_isCommitted:
  "isCommitted env p s = Inr (c, s) \<Longrightarrow>
     isCommitted env p (deleteFileAwaitingCreation q s) = Inr (c, deleteFileAwaitingCreation q s)"
proof -
  assume "isCommitted env p s = Inr (c, s)"
  then obtain f where f: "s = s\<lparr>srv_fs := f\<rparr>" "is_committed (stack_depth env) env (srv_engine s) p (srv_fs s) = Inr (c, f)"
    by (auto simp: isCommitted_Inr)
  from arg_cong[OF f(1), of srv_fs] have "f = srv_fs s" by simp
  with f(2) show ?thesis by (intro isCommitted_same) simp
qed

text \<open>The monitor first makes its second call, if it has one to make.\<close>

lemma monitor_free:
  assumes i: "node_inv env eng n ms" and wf: "umap_wf eng"
  obtains n' where "node_inv env eng n' ms" and "nd_monitor n' = None" and "nd_phase n' = nd_phase n"
    and "\<And>k t. runs_within k env n' t \<Longrightarrow> runs_within (Suc k) env n t"
    and "nd_server n' = (case nd_monitor n of None \<Rightarrow> nd_server n | Some q \<Rightarrow> deleteFileAwaitingCreation q (nd_server n))"
proof (cases "nd_monitor n")
  case None
  then show thesis using i runs_sooner[of _ env n] by (intro that[of n]) auto
next
  case (Some q)
  let ?n = "n\<lparr>nd_server := deleteFileAwaitingCreation q (nd_server n), nd_monitor := None,
       nd_dropped := nd_dropped n \<union> set (creation_waiters (nd_server n) q)\<rparr>"
  have "node_inv env eng ?n ms"
    using node_delete_inv[OF i wf, of q] by (auto simp: node_inv_def in_transit_def alive_def)
  then show thesis using runs_later[OF watch_delete[OF Some]] Some by (intro that[of ?n]) auto
qed

subsection \<open>Properties\<close>

text \<open>A run for the examples: thread 1 joins and asks for a file that does not exist.\<close>

lemma one_request_through:
  assumes "ring_ok r" and "req_ring r" and "ring_contents r = []" and "request_ok m"
  shows "\<exists>r1 r2. put_request junk m r = Some r1 \<and> queue_read_elem r1 = Some (slot_of junk (request_text m), r2) \<and>
    ring_ok r2 \<and> req_ring r2 \<and> ring_contents r2 = []"
proof -
  have fit: "elem_fits r (slot_of junk (request_text m))" using requests.encode_ok[OF assms(4,2)] .
  have "max_num_elems r \<noteq> 0" using assms(1) by (simp add: ring_ok_def)
  then obtain r1 where r1: "put_request junk m r = Some r1"
    using rq.put_None[OF assms(1), of "slot_of junk (request_text m)"] assms(3) by (auto simp: put_request_def)
  from rq.put_Some[OF assms(1) fit r1[unfolded put_request_def]] assms(3) have
    1: "ring_ok r1" "ring_contents r1 = [slot_of junk (request_text m)]" "elem_fits r1 = elem_fits r" by auto
  then obtain e r2 where r2: "queue_read_elem r1 = Some (e, r2)" using rq.get_None[of r1] by fastforce
  from rq.get_Some[OF 1(1) r2] 1(2,3) have
    2: "ring_ok r2" "e = slot_of junk (request_text m)" "ring_contents r2 = []" "elem_fits r2 = elem_fits r" by auto
  have "req_ring r2" using 2(4) assms(2) length_replicate[of CAPIO_REQ_MAX_SIZE "CHR 0x00"]
    by (metis elem_fits_def req_ring_def)
  with r1 r2 2 show ?thesis by blast
qed

abbreviation sample_ring :: ring where
  "sample_ring \<equiv> queue_init CAPIO_REQ_BUFF_CNT CAPIO_REQ_MAX_SIZE"

lemma sample_ring_ok: "ring_ok sample_ring" "req_ring sample_ring" "ring_contents sample_ring = []"
  by (auto intro: queue_init_ok simp: CAPIO_REQ_BUFF_CNT_def CAPIO_REQ_MAX_SIZE_def queue_init_empty)
     (simp add: req_ring_def queue_init_def CAPIO_REQ_MAX_SIZE_def)

lemma asking_node_reachable:
  "\<exists>r. node_reachable sample_env sample_ring [] \<lparr>nd_ring = r, nd_server = asking_server,
     nd_monitor = None, nd_phase = (\<lambda>_. Unborn)(1 := Asking),
       nd_dropped = {}\<rparr> \<and> ring_contents r = []"
proof -
  let ?j = "\<lambda>_. CHR 0x00" and ?hi = "HandshakeAnonymous 1 1" and ?op = "Open 1 3 ''/d/n''"
  have m: "request_ok ?hi" "request_ok ?op" by code_simp+
  obtain r1 r2 where 1: "put_request ?j ?hi sample_ring = Some r1"
      "queue_read_elem r1 = Some (slot_of ?j (request_text ?hi), r2)" "ring_ok r2" "req_ring r2" "ring_contents r2 = []"
    using one_request_through[OF sample_ring_ok m(1), of ?j] by blast
  obtain r3 r4 where 2: "put_request ?j ?op r2 = Some r3"
      "queue_read_elem r3 = Some (slot_of ?j (request_text ?op), r4)" "ring_contents r4 = []"
    using one_request_through[OF 1(3-5) m(2), of ?j] by blast
  let ?ph = "(\<lambda>_. Unborn)(1 := Running)"
  let ?n1 = "\<lparr>nd_ring = r1, nd_server = server_start [] sample_fs, nd_monitor = None, nd_phase = ?ph, nd_dropped = {}\<rparr>"
  let ?n2 = "\<lparr>nd_ring = r2, nd_server = joined_server, nd_monitor = None, nd_phase = ?ph, nd_dropped = {}\<rparr>"
  let ?n3 = "\<lparr>nd_ring = r3, nd_server = joined_server, nd_monitor = None, nd_phase = (\<lambda>_. Unborn)(1 := Asking),
       nd_dropped = {}\<rparr>"
  let ?n4 = "\<lparr>nd_ring = r4, nd_server = asking_server, nd_monitor = None, nd_phase = (\<lambda>_. Unborn)(1 := Asking),
       nd_dropped = {}\<rparr>"
  have s1: "node_step sample_env (node_start sample_ring [] sample_fs) ?n1"
    using greet[of ?hi 1 "node_start sample_ring [] sample_fs" ?j r1 sample_env] m(1) 1(1) by (simp add: node_start_def)
  have "serve sample_env (slot_of ?j (request_text ?hi)) (server_start [] sample_fs) = Inr joined_server"
    using serve_sent[of ?hi sample_env ?j "server_start [] sample_fs"] m(1)
    by (simp add: request_ok_def do_handshake_def joined_server_def server_start_def)
  with 1(2) have s2: "node_step sample_env ?n1 ?n2" using serve_next[of ?n1 _ r2 sample_env joined_server] by simp
  have s3: "node_step sample_env ?n2 ?n3" using ask[of ?op 1 ?n2 ?j r3 sample_env] m(2) 2(1) by simp
  have "serve sample_env (slot_of ?j (request_text ?op)) joined_server = Inr asking_server"
    using serve_sent[of ?op sample_env ?j joined_server] m(2) joined_opens by (simp add: request_ok_def)
  with 2(2) have s4: "node_step sample_env ?n3 ?n4" using serve_next[of ?n3 _ r4 sample_env asking_server] by simp
  from node_init node_move s1 s2 s3 s4 have "node_reachable sample_env sample_ring [] ?n4" by metis
  with 2(3) show ?thesis by blast
qed

text \<open>C8: Where the answer to a blocked thread can be. In every state of a node that started with an empty
  ring, for any number of threads and any interleaving of their requests, the server (which serves a
  request in one step), the two calls the monitor makes for a path, and the file system: the ring
  holds requests the server can read, and a thread blocks on its answer if and only if exactly one of
  these is the case: its request is in the ring, the server keeps it in one entry of its two tables,
  its answer lies in its own ring, or it was on the list of a path when the monitor, after waking the
  threads of the path, deleted that list. The last is the one way in which an answer is lost.\<close>

theorem blocked_thread_accounted:
  assumes "node_reachable env r eng n" and "ring_ok r" and "req_ring r" and "ring_contents r = []" and "umap_wf eng"
  shows "\<exists>ms. map decode_request (ring_contents (nd_ring n)) = map Some ms \<and>
    (\<forall>t. asked ms t + in_creation (srv_fm (nd_server n)) t + in_data (srv_fm (nd_server n)) t +
      buffered (srv_clients (nd_server n)) t + (if t \<in> nd_dropped n then 1 else 0) =
      (if nd_phase n t = Asking then 1 else 0))"
proof -
  from node_reachable_inv[OF assms] obtain ms where i: "node_inv env eng n ms" by blast
  have "asked ms t + in_creation (srv_fm (nd_server n)) t + in_data (srv_fm (nd_server n)) t +
      buffered (srv_clients (nd_server n)) t + (if t \<in> nd_dropped n then 1 else 0) =
      (if nd_phase n t = Asking then 1 else 0)" for t
  proof -
    have "claims n ms t = (if nd_phase n t = Asking then 1 else 0)" using i by (simp add: node_inv_def)
    then show ?thesis by (simp add: owed_def of_bool_def)
  qed
  with i show ?thesis by (auto simp: node_inv_def in_transit_def)
qed

lemma blocked_thread_accounted_witness:
  "\<exists>n. node_reachable sample_env sample_ring [] n \<and> nd_phase n 1 = Asking \<and>
     in_creation (srv_fm (nd_server n)) 1 = 1 \<and> buffered (srv_clients (nd_server n)) 1 = 0"
proof -
  from asking_node_reachable obtain r where
    n: "node_reachable sample_env sample_ring [] \<lparr>nd_ring = r, nd_server = asking_server,
       nd_monitor = None, nd_phase = (\<lambda>_. Unborn)(1 := Asking),
       nd_dropped = {}\<rparr>" (is "node_reachable _ _ _ ?n") by blast
  have "0 < count_list (creation_waiters asking_server ''/d/n'') 1" by (simp add: asking_waits)
  also have "\<dots> \<le> in_creation (srv_fm asking_server) 1" by (rule creation_waiter_counted)
  finally have c: "0 < in_creation (srv_fm asking_server) 1" .
  from blocked_thread_accounted[OF n sample_ring_ok] obtain ms where
    "\<And>t. asked ms t + in_creation (srv_fm (nd_server ?n)) t + in_data (srv_fm (nd_server ?n)) t +
      buffered (srv_clients (nd_server ?n)) t + (if t \<in> nd_dropped ?n then 1 else 0) =
      (if nd_phase ?n t = Asking then 1 else 0)" by auto
  from this[of 1] c n show ?thesis by (intro exI[of _ ?n]) simp
qed

text \<open>C7: The clients keep the discipline the server relies on: in every state of a node the server is in a
  state it reaches when each thread is registered before it asks, asks one thing at a time and exits
  only when no answer is owed to it.\<close>

theorem node_refines_server:
  assumes "node_reachable env r eng n" and "ring_ok r" and "req_ring r" and "ring_contents r = []" and "umap_wf eng"
  shows "reachable env eng (nd_server n) \<and>
    (\<forall>req r' code str. queue_read_elem (nd_ring n) = Some (req, r') \<and> read_next_request req = Inr (code, str) \<longrightarrow>
      (\<forall>t. asker code str = Some t \<longrightarrow> t \<in> registered (nd_server n) \<and> owed (nd_server n) t = 0) \<and>
      (\<forall>t. leaver code str = Some t \<longrightarrow> owed (nd_server n) t = 0))"
proof -
  from node_reachable_inv[OF assms] obtain ms where i: "node_inv env eng n ms" by blast
  have "t \<in> registered (nd_server n) \<and> owed (nd_server n) t = 0"
    if q: "queue_read_elem (nd_ring n) = Some (req, r')" and c: "read_next_request req = Inr (code, str)"
      and a: "asker code str = Some t" for req r' code str t
  proof -
    have "in_transit n ms" using i by (simp add: node_inv_def)
    from taken_transit[OF this q] obtain m ms' where ms: "ms = m # ms'" "decode_request req = Some m" by metis
    with c have "parse_request code str = Some m" by (simp add: decode_request_def)
    from parsed_asker(1)[OF this] a have "asks m = Some t" by simp
    moreover have "claims n ms t = (if nd_phase n t = Asking then 1 else 0)"
      using i by (simp add: node_inv_def)
    ultimately show ?thesis using i by (auto simp: ms(1) node_inv_def split: if_splits)
  qed
  moreover have "owed (nd_server n) t = 0"
    if q: "queue_read_elem (nd_ring n) = Some (req, r')" and c: "read_next_request req = Inr (code, str)"
      and a: "leaver code str = Some t" for req r' code str t
  proof -
    have "in_transit n ms" using i by (simp add: node_inv_def)
    from taken_transit[OF this q] obtain m ms' where ms: "ms = m # ms'" "decode_request req = Some m" by metis
    with c have "parse_request code str = Some m" by (simp add: decode_request_def)
    from parsed_asker(2)[OF this] a have "leaves m = Some t" by simp
    then have "nd_phase n t = Gone" using i by (simp add: ms(1) node_inv_def)
    moreover have "claims n ms t = (if nd_phase n t = Asking then 1 else 0)"
      using i by (simp add: node_inv_def)
    ultimately show ?thesis by simp
  qed
  ultimately show ?thesis using i by (auto simp: node_inv_def)
qed

lemma node_refines_server_witness:
  "\<exists>n. node_reachable sample_env sample_ring [] n \<and> nd_phase n 1 = Asking \<and> reachable sample_env [] (nd_server n)"
proof -
  from asking_node_reachable obtain r where
    n: "node_reachable sample_env sample_ring [] \<lparr>nd_ring = r, nd_server = asking_server,
       nd_monitor = None, nd_phase = (\<lambda>_. Unborn)(1 := Asking),
       nd_dropped = {}\<rparr>" (is "node_reachable _ _ _ ?n") by blast
  from node_refines_server[OF n sample_ring_ok] n show ?thesis by (intro exI[of _ ?n]) simp
qed

text \<open>C9: A thread that is blocked although no request is in the ring and no answer in its own ring, and
  that the monitor has not deleted from a list, waits in a table of the server for one path. Where it
  waits for a path to be created that exists, and the monitor has not just woken the threads of that
  very path, at most three steps of the node can bring it to run: the monitor finishes the path it is
  at, wakes the thread, and the thread takes its answer. The same holds where it waits for data of an
  existing file that has an entry, if the test for a commit and the size of the file can be had
  without an exception, the test creates no directory, and the rules release the thread. That the
  monitor gets to the path is not claimed: an exception at an earlier path ends the server.\<close>

theorem no_lost_wakeup:
  assumes "node_reachable env r eng n" and "ring_ok r" and "req_ring r" and "ring_contents r = []" and "umap_wf eng"
    and "nd_phase n t = Asking" and "ring_contents (nd_ring n) = []" and "take_answer t (nd_server n) = None"
    and "t \<notin> nd_dropped n"
  shows "(\<exists>p. t \<in> set (creation_waiters (nd_server n) p) \<or> t \<in> fst ` set (data_waiters (nd_server n) p)) \<and>
    (\<forall>p. t \<in> set (creation_waiters (nd_server n) p) \<and> fs_exists (srv_fs (nd_server n)) p \<and>
      nd_monitor n \<noteq> Some p \<longrightarrow> runs_within 3 env n t) \<and>
    (\<forall>p c v. t \<in> fst ` set (data_waiters (nd_server n) p) \<and> fs_exists (srv_fs (nd_server n)) p \<and>
      map_of (srv_engine (nd_server n)) p \<noteq> None \<and> isCommitted env p (nd_server n) = Inr (c, nd_server n) \<and>
      filesize_of (srv_fs (nd_server n)) p = Inr v \<and> released (nd_server n) p c v t \<longrightarrow> runs_within 3 env n t)"
proof -
  from node_reachable_inv[OF assms(1-5)] obtain ms where i: "node_inv env eng n ms" by blast
  with assms(7) have "ms = []" by (simp add: node_inv_def in_transit_def)
  moreover have "claims n ms t = 1" using i assms(6) by (simp only: node_inv_def) simp
  ultimately have "owed (nd_server n) t = 1" using assms(9) by simp
  moreover have "buffered (srv_clients (nd_server n)) t = 0"
    using assms(8) by (auto simp: take_answer_def buffered_def split: option.splits list.splits)
  ultimately have "0 < in_creation (srv_fm (nd_server n)) t + in_data (srv_fm (nd_server n)) t"
    by (simp add: owed_def)
  moreover have "waiting_wf (nd_server n)"
    using inv_server[OF i assms(5)] by (simp add: server_inv_def)
  ultimately have "\<exists>p. t \<in> set (creation_waiters (nd_server n) p) \<or> t \<in> fst ` set (data_waiters (nd_server n) p)"
    using waits_somewhere[of "nd_server n" t] by simp
  moreover obtain n' where n': "node_inv env eng n' ms" "nd_monitor n' = None" "nd_phase n' = nd_phase n"
      "\<And>k t. runs_within k env n' t \<Longrightarrow> runs_within (Suc k) env n t"
      "nd_server n' = (case nd_monitor n of None \<Rightarrow> nd_server n | Some q \<Rightarrow> deleteFileAwaitingCreation q (nd_server n))"
    using monitor_free[OF i assms(5)] by blast
  have ph: "nd_phase n' t = Asking" using n'(3) assms(6) by simp
  have 3: "runs_within 2 env n' t \<Longrightarrow> runs_within 3 env n t" using n'(4)[of 2 t] by (simp add: numeral_3_eq_3 numeral_2_eq_2)
  have "runs_within 3 env n t"
    if "t \<in> set (creation_waiters (nd_server n) p)" "fs_exists (srv_fs (nd_server n)) p" "nd_monitor n \<noteq> Some p" for p
    using that n'(5) by (intro 3 creation_waiter_goes_on[OF n'(1) assms(5) ph n'(2), of p])
      (auto simp: creation_waiters_delete split: option.splits)
  moreover have "runs_within 3 env n t"
    if "t \<in> fst ` set (data_waiters (nd_server n) p)" "fs_exists (srv_fs (nd_server n)) p"
      "map_of (srv_engine (nd_server n)) p \<noteq> None" "isCommitted env p (nd_server n) = Inr (c, nd_server n)"
      "filesize_of (srv_fs (nd_server n)) p = Inr v" "released (nd_server n) p c v t" for p c v
    using that n'(5) by (intro 3 data_waiter_goes_on[OF n'(1) assms(5) ph n'(2), of p c v])
      (auto intro: delete_isCommitted split: option.splits)
  ultimately show ?thesis by blast
qed

lemma no_lost_wakeup_witness:
  "\<exists>n. node_reachable sample_env sample_ring [] n \<and> nd_phase n 1 = Asking \<and> runs_within 3 sample_env n 1"
proof -
  from asking_node_reachable obtain r where
    n: "node_reachable sample_env sample_ring [] \<lparr>nd_ring = r, nd_server = asking_server,
       nd_monitor = None, nd_phase = (\<lambda>_. Unborn)(1 := Asking),
       nd_dropped = {}\<rparr>" and r: "ring_contents r = []" by blast
  let ?s = "asking_server\<lparr>srv_fs := (''/d/n'', Reg []) # sample_fs\<rparr>"
  let ?n = "\<lparr>nd_ring = r, nd_server = ?s, nd_monitor = None, nd_phase = (\<lambda>_. Unborn)(1 := Asking),
       nd_dropped = {}\<rparr>"
  from node_move[OF n disk_changes[of _ _ "(''/d/n'', Reg []) # sample_fs"]] have
    n': "node_reachable sample_env sample_ring [] ?n" by simp
  have "take_answer 1 ?s = None"
    by (simp add: take_answer_def asking_server_def joined_server_def addThreadAwaitingCreation_def Let_def
        register_new_client_def map_emplace_def client_manager_init_def server_start_def)
  moreover have "1 \<in> set (creation_waiters ?s ''/d/n'')"
    using asking_waits by (simp add: creation_waiters_def)
  moreover have "fs_exists (srv_fs ?s) ''/d/n''" by code_simp
  ultimately show ?thesis using no_lost_wakeup[OF n' sample_ring_ok, of 1] r n' by fastforce
qed

end
