(* ===== verification/Conversations.thy ===== *)
theory Conversations
  imports LibCapio Node
begin

text \<open>
  What an intercepted call says to the server: the requests it sends and the answers it takes are one
  conversation, in which every request that asks is followed by its answer before anything else is
  sent. These are the steps \<open>ask\<close>, \<open>resume\<close>, \<open>tell\<close>, \<open>greet\<close> and \<open>leave\<close> of a thread in \<open>Node\<close>.
\<close>

type_synonym exchange = "request \<times> u64 option"

text \<open>The number a request has in the place of the thread. In a \<open>Write\<close> the library puts the
  descriptor there (\<open>flush\<close>), so nothing is said of it.\<close>

fun sender :: "request \<Rightarrow> tid" where
  "sender (Consent t path src) = t"
| "sender (Close t path) = t"
| "sender (Create t d path) = t"
| "sender (ExitGroup t) = t"
| "sender (HandshakeNamed t pid app) = t"
| "sender (HandshakeAnonymous t pid) = t"
| "sender (Open t d path) = t"
| "sender (Read path t d n) = t"
| "sender (Rename t old new) = t"
| "sender (Write t d path n) = t"

definition exchange_ok :: "tid \<Rightarrow> exchange \<Rightarrow> bool" where
  "exchange_ok t = (\<lambda>(m, v). (v = None \<longleftrightarrow> asks m = None) \<and>
     (sender m = t \<or> (\<exists>x d p n. m = Write x d p n)))"

lemma asks_sender: "asks m = Some u \<Longrightarrow> sender m = u"
  by (cases m) simp_all

definition spoke :: "tid \<Rightarrow> client \<Rightarrow> client \<Rightarrow> bool" where
  "spoke t c c' \<longleftrightarrow> (\<exists>tr. cl_sent c' = cl_sent c @ map fst tr \<and>
     cl_answers c = List.map_filter snd tr @ cl_answers c' \<and> (\<forall>x \<in> set tr. exchange_ok t x))"

lemma spoke_refl [simp]: "spoke t c c"
  unfolding spoke_def by (intro exI[of _ "[]"]) (simp add: map_filter_def)

lemma spoke_trans [trans]: "spoke t a b \<Longrightarrow> spoke t b c \<Longrightarrow> spoke t a c"
  unfolding spoke_def by (elim exE, rename_tac xs ys, rule_tac x = "xs @ ys" in exI) (auto simp: map_filter_def)

text \<open>Only the messages matter.\<close>

lemma spoke_cong:
  "spoke t c c' \<Longrightarrow> cl_sent d = cl_sent c' \<Longrightarrow> cl_answers d = cl_answers c' \<Longrightarrow> spoke t c d"
  "spoke t c c' \<Longrightarrow> cl_sent b = cl_sent c \<Longrightarrow> cl_answers b = cl_answers c \<Longrightarrow> spoke t b c'"
  by (simp_all add: spoke_def)

lemma spoke_updates [simp]:
  "spoke t c (c'\<lparr>cl_tables := T\<rparr>) = spoke t c c'" "spoke t c (c'\<lparr>cl_wcache := w\<rparr>) = spoke t c c'"
  "spoke t c (c'\<lparr>cl_rcache := r\<rparr>) = spoke t c c'" "spoke t c (c'\<lparr>cl_tids := ts\<rparr>) = spoke t c c'"
  "spoke t c (set_errno e c') = spoke t c c'" "spoke t c (register_capio_tid u c') = spoke t c c'"
  "spoke t c (remove_capio_tid u c') = spoke t c c'" "spoke t c (register_listener u c') = spoke t c c'"
  "spoke t (c\<lparr>cl_rcache := r\<rparr>) c' = spoke t c c'" "spoke t (c\<lparr>cl_wcache := w\<rparr>) c' = spoke t c c'"
  "spoke t (c\<lparr>cl_tables := T\<rparr>) c' = spoke t c c'" "spoke t (register_listener u c) c' = spoke t c c'"
  "spoke t (remove_capio_tid u c) c' = spoke t c c'"
  by (simp_all add: spoke_def set_errno_def register_capio_tid_def remove_capio_tid_def register_listener_def)

lemma spoke_send:
  assumes "send m c = Inr c'" and "asks m = None" and "sender m = t \<or> (\<exists>x d p n. m = Write x d p n)"
  shows "spoke t c c'"
  unfolding spoke_def using assms
  by (intro exI[of _ "[(m, None)]"]) (auto simp: send_Inr exchange_ok_def map_filter_def)

lemma spoke_ask:
  assumes "send m c = Inr c1" and "await t c1 = Inr (v, c')" and "asks m = Some t"
  shows "spoke t c c'"
  unfolding spoke_def using assms asks_sender[OF assms(3)]
  by (intro exI[of _ "[(m, Some v)]"]) (auto simp: send_Inr await_Inr exchange_ok_def map_filter_def)

lemma spoke_tells:
  "send (Write x d p n) c = Inr c' \<Longrightarrow> spoke t c c'" "send (Close t p) c = Inr c' \<Longrightarrow> spoke t c c'"
  "send (Create t d p) c = Inr c' \<Longrightarrow> spoke t c c'" "send (Rename t p q) c = Inr c' \<Longrightarrow> spoke t c c'"
  "send (ExitGroup t) c = Inr c' \<Longrightarrow> spoke t c c'" "send (HandshakeNamed t x a) c = Inr c' \<Longrightarrow> spoke t c c'"
  by (rule spoke_send, assumption, simp, simp)+

lemma spoke_asks:
  "send (Consent t p f) c = Inr c1 \<Longrightarrow> await t c1 = Inr (v, c') \<Longrightarrow> spoke t c c'"
  "send (Open t d p) c = Inr c1 \<Longrightarrow> await t c1 = Inr (v, c') \<Longrightarrow> spoke t c c'"
  "send (Read p t d n) c = Inr c1 \<Longrightarrow> await t c1 = Inr (v, c') \<Longrightarrow> spoke t c c'"
  by (rule spoke_ask, assumption, assumption, simp)+

subsection \<open>The requests\<close>

named_theorems speaks \<comment> \<open>a function of the client holds a conversation\<close>

lemma spoke_flush [speaks]: "flush t c = Inr c' \<Longrightarrow> spoke u c c'"
  by (auto simp: flush_def send_write_request_def res_simps split: if_splits dest: spoke_tells)

lemma spoke_consent [speaks]: "consent_to_proceed_request p t f c = Inr c' \<Longrightarrow> spoke t c c'"
  by (auto simp: consent_to_proceed_request_def res_simps dest: spoke_asks)

lemma spoke_close [speaks]: "close_request p t c = Inr c' \<Longrightarrow> spoke t c c'"
  by (auto simp: close_request_def res_simps dest!: spoke_flush spoke_tells(2)
      intro: spoke_trans)

lemma spoke_create [speaks]: "create_request d p t c = Inr c' \<Longrightarrow> spoke t c c'"
  by (auto simp: create_request_def dest: spoke_tells)

lemma spoke_exit [speaks]: "exit_group_request t c = Inr c' \<Longrightarrow> spoke t c c'"
  by (auto simp: exit_group_request_def res_simps dest!: spoke_flush spoke_tells(5) intro: spoke_trans)

lemma spoke_open [speaks]: "open_request d p t c = Inr c' \<Longrightarrow> spoke t c c'"
  by (auto simp: open_request_def res_simps dest!: spoke_flush dest: spoke_asks(2) intro: spoke_trans)

lemma spoke_rename [speaks]: "rename_request p q t c = Inr c' \<Longrightarrow> spoke t c c'"
  by (auto simp: rename_request_def dest: spoke_tells)

lemma spoke_write [speaks]: "write_request ce p t d n c = Inr c' \<Longrightarrow> spoke u c c'"
  by (auto simp: write_request_def res_simps Let_def split: if_splits dest!: spoke_flush
      intro: spoke_trans)

lemma spoke_read [speaks]: "read_request ce p n t d c = Inr c' \<Longrightarrow> spoke t c c'"
  by (auto simp: read_request_def send_read_request_def Let_def res_simps split: if_splits option.splits
      dest!: spoke_asks(3))

lemma spoke_init_process [speaks]: "init_process ce u t c = Inr c' \<Longrightarrow> spoke t c c'"
  using spoke_tells(6)[of t u "ce_app_name ce" "register_listener t c" c']
  by (simp add: init_process_def handshake_named_request_def)

subsection \<open>The handlers\<close>

lemma spoke_tables [speaks]: "on_tables f c = Inr c' \<Longrightarrow> spoke t c c'"
  by (auto simp: on_tables_def res_simps)

lemma spoke_return_value: "posix_return_value rc = (r, v, c') \<Longrightarrow> c' = snd rc"
  by (auto simp: posix_return_value_def split: prod.splits if_splits)

lemma spoke_returned [speaks]:
  "rbind m (\<lambda>rc. Inr (posix_return_value rc)) = Inr (r, v, c') \<Longrightarrow> (\<And>x. m = Inr (x, c') \<Longrightarrow> spoke t c c') \<Longrightarrow> spoke t c c'"
  by (auto simp: rbind_Inr_iff dest: spoke_return_value)

lemma spoke_openat [speaks]: "openat_handler ce k d p fl t c = Inr (r, v, c') \<Longrightarrow> spoke t c c'"
  by (auto simp: openat_handler_def Let_def res_simps split: if_splits
      dest!: spoke_create spoke_open spoke_tables[where t = t] intro: spoke_trans)

lemma spoke_creat [speaks]: "creat_handler ce k p t c = Inr (r, v, c') \<Longrightarrow> spoke t c c'"
  by (auto simp: creat_handler_def Let_def res_simps split: if_splits
      dest!: spoke_create spoke_tables[where t = t] intro: spoke_trans)

lemma spoke_close_handler [speaks]: "posix_close_handler d t c = Inr (r, v, c') \<Longrightarrow> spoke t c c'"
  by (auto simp: posix_close_handler_def res_simps split: if_splits
      dest!: spoke_close spoke_tables[where t = t] intro: spoke_trans)

lemma spoke_dups [speaks]:
  "dup_handler k d c = Inr (r, v, c') \<Longrightarrow> spoke t c c'"
  "dup2_handler k d d2 c = Inr (r, v, c') \<Longrightarrow> spoke t c c'"
  "dup3_handler k d d2 fl c = Inr (r, v, c') \<Longrightarrow> spoke t c c'"
  "lseek_handler d off wh c = Inr (r, v, c') \<Longrightarrow> spoke t c c'"
  by (auto simp: dup_handler_def dup2_handler_def dup3_handler_def lseek_handler_def Let_def res_simps
      split: if_splits dest!: spoke_tables[where t = t])

lemma spoke_capio_read: "capio_read ce d n t c = Inr c' \<Longrightarrow> spoke t c c'"
  by (auto simp: capio_read_def res_simps split: if_splits dest!: spoke_read spoke_tables[where t = t] intro: spoke_trans)

lemma spoke_reads [speaks]:
  "posix_read_handler ce d n t c = Inr (r, v, c') \<Longrightarrow> spoke t c c'"
  "readv_handler ce d i t c = Inr (r, v, c') \<Longrightarrow> spoke t c c'"
  by (auto simp: posix_read_handler_def readv_handler_def res_simps dest: spoke_capio_read)

lemma spoke_capio_write: "capio_write ce d n t c = Inr (x, c') \<Longrightarrow> spoke u c c'"
  by (auto simp: capio_write_def res_simps split: if_splits dest!: spoke_write)

lemma spoke_writes [speaks]:
  "posix_write_handler ce d n t c = Inr (r, v, c') \<Longrightarrow> spoke t c c'"
  "writev_handler ce d i t c = Inr (r, v, c') \<Longrightarrow> spoke t c c'"
  unfolding posix_write_handler_def writev_handler_def by (erule spoke_returned, erule spoke_capio_write)+

lemma spoke_on_fd: "consent_on_fd f d t c = Inr c' \<Longrightarrow> spoke t c c'"
  by (auto simp: consent_on_fd_def res_simps split: if_splits dest: spoke_consent)

lemma spoke_fd_handler: "fd_handler code f d t c = Inr (r, v, c') \<Longrightarrow> spoke t c c'"
  by (auto simp: fd_handler_def res_simps dest: spoke_on_fd)

lemma spoke_fd_handlers [speaks]:
  "fchmod_handler d t c = Inr (r, v, c') \<Longrightarrow> spoke t c c'" "fchown_handler d t c = Inr (r, v, c') \<Longrightarrow> spoke t c c'"
  "fgetxattr_handler d t c = Inr (r, v, c') \<Longrightarrow> spoke t c c'" "fcntl_handler d t c = Inr (r, v, c') \<Longrightarrow> spoke t c c'"
  "fstatfs_handler d t c = Inr (r, v, c') \<Longrightarrow> spoke t c c'" "ioctl_handler d t c = Inr (r, v, c') \<Longrightarrow> spoke t c c'"
  "getdents_handler d t c = Inr (r, v, c') \<Longrightarrow> spoke t c c'"
  unfolding fchmod_handler_def fchown_handler_def fgetxattr_handler_def fcntl_handler_def fstatfs_handler_def
    ioctl_handler_def getdents_handler_def by (erule spoke_fd_handler)+

lemma spoke_lstat: "capio_lstat ce p t c = Inr (x, c') \<Longrightarrow> spoke t c c'"
  by (auto simp: capio_lstat_def res_simps split: if_splits dest: spoke_consent)

lemma spoke_lstat_wrapper: "capio_lstat_wrapper ce k p t c = Inr (x, c') \<Longrightarrow> spoke t c c'"
  by (auto simp: capio_lstat_wrapper_def Let_def split: if_splits dest: spoke_lstat)

lemma spoke_fstatat: "capio_fstatat ce k d p fl t c = Inr (x, c') \<Longrightarrow> spoke t c c'"
  by (auto simp: capio_fstatat_def capio_fstat_def res_simps split: if_splits
      dest: spoke_lstat spoke_lstat_wrapper spoke_on_fd)

lemma spoke_statx: "capio_statx ce p t c = Inr (x, c') \<Longrightarrow> spoke t c c'"
  by (auto simp: capio_statx_def res_simps split: if_splits dest: spoke_consent)

lemma spoke_fstat: "capio_fstat d t c = Inr (x, c') \<Longrightarrow> spoke t c c'"
  by (auto simp: capio_fstat_def res_simps dest: spoke_on_fd)

lemma spoke_mkdirat: "capio_mkdirat ce k d p t c = Inr (x, c') \<Longrightarrow> spoke t c c'"
  by (auto simp: capio_mkdirat_def Let_def res_simps split: if_splits dest: spoke_create)

lemma spoke_stats [speaks]:
  "fstat_handler d t c = Inr (r, v, c') \<Longrightarrow> spoke t c c'"
  "fstatat_handler ce k d p fl t c = Inr (r, v, c') \<Longrightarrow> spoke t c c'"
  "lstat_handler ce k p t c = Inr (r, v, c') \<Longrightarrow> spoke t c c'"
  "stat_handler ce k p t c = Inr (r, v, c') \<Longrightarrow> spoke t c c'"
  "statx_handler ce p t c = Inr (r, v, c') \<Longrightarrow> spoke t c c'"
  "mkdirat_handler ce k d p t c = Inr (r, v, c') \<Longrightarrow> spoke t c c'"
  "mkdir_handler ce k p t c = Inr (r, v, c') \<Longrightarrow> spoke t c c'"
  unfolding fstat_handler_def fstatat_handler_def lstat_handler_def stat_handler_def statx_handler_def
    mkdirat_handler_def mkdir_handler_def
  by (erule spoke_returned, erule spoke_fstat spoke_fstatat spoke_lstat_wrapper spoke_statx spoke_mkdirat)+

lemma spoke_names [speaks]:
  "access_handler ce k p t c = Inr (r, v, c') \<Longrightarrow> spoke t c c'"
  "faccessat_handler ce k d p t c = Inr (r, v, c') \<Longrightarrow> spoke t c c'"
  "chdir_handler ce k p t c = Inr (r, v, c') \<Longrightarrow> spoke t c c'"
  by (auto simp: access_handler_def faccessat_handler_def chdir_handler_def Let_def res_simps split: if_splits
      dest!: spoke_consent)

lemma spoke_renames [speaks]: "posix_rename_handler ce k p q t c = Inr (r, v, c') \<Longrightarrow> spoke t c c'"
  by (auto simp: posix_rename_handler_def Let_def res_simps split: if_splits
      dest!: spoke_rename spoke_tables[where t = t] intro: spoke_trans)

lemma spoke_unlinks [speaks]:
  "unlink_handler ce p c = Inr (r, v, c') \<Longrightarrow> spoke t c c'"
  "unlinkat_handler ce k p c = Inr (r, v, c') \<Longrightarrow> spoke t c c'"
  by (auto simp: unlink_handler_def unlinkat_handler_def Let_def res_simps split: if_splits
      dest!: spoke_tables[where t = t])

lemma spoke_process [speaks]:
  "fork_handler ce k t c = Inr (r, v, c') \<Longrightarrow> spoke t c c'"
  "posix_exit_handler t c = Inr (r, v, c') \<Longrightarrow> spoke t c c'"
  by (auto simp: fork_handler_def posix_exit_handler_def res_simps split: if_splits
      dest!: spoke_init_process spoke_exit spoke_flush intro: spoke_trans)

lemma spoke_file_handler:
  assumes "run_file_handler w h a t c = Inr (r, v, c')"
  shows "spoke t c c'"
  using assms
  by (cases h) (auto simp: run_file_handler_def Let_def posix_open_handler_def not_handled_handler_def
      not_implemented_handler_def getcwd_handler_def rmdir_handler_def capio_rmdir_def posix_return_value_def
      dest: speaks split: if_splits)

lemma spoke_handler:
  assumes "run_handler w h a t (c, ss) = Inr ((r, v, c'), ss')"
  shows "spoke t c c'"
  using assms
  by (auto simp: run_handler_def execve_handler_def res_simps split: if_splits dest: spoke_file_handler)

subsection \<open>Properties\<close>

text \<open>C15: Every intercepted call that returns, whatever its number and its arguments, holds one conversation
  for its own thread: it sends requests, each that asks is followed by exactly one answer that it takes,
  those that do not ask take none, and no answer is left over or taken from another request. Every
  request names the thread that made the call, except a write, which has the descriptor in that
  place (the arguments are swapped in \<open>flush\<close>).\<close>

theorem call_is_a_conversation:
  assumes "hook nr w dir flag n a t (c, ss) = Inr ((r, v, c'), ss')"
  shows "\<exists>tr. cl_sent c' = cl_sent c @ map fst tr \<and> cl_answers c = List.map_filter snd tr @ cl_answers c' \<and>
    (\<forall>(m, x) \<in> set tr. (x = None \<longleftrightarrow> asks m = None) \<and>
      (sender m = t \<or> (\<exists>u d p k. m = Write u d p k)))"
proof -
  have "spoke t c c'"
    using assms by (auto simp: hook_def res_simps split: if_splits dest: spoke_handler)
  then show ?thesis unfolding spoke_def exchange_ok_def .
qed

lemma call_is_a_conversation_witness:
  "\<exists>r v c' ss' tr. hook x86_64 sample_world (Some ''/d'') False 2 (call 1000 0 0 0) 1 (fresh_client, no_shm) =
     Inr ((r, v, c'), ss') \<and> map fst tr = [Open 1 (-1) ''/d/f''] \<and> List.map_filter snd tr = [8 :: u64]"
proof -
  let ?run = "run_handler sample_world Do_Open (call 1000 0 0 0) 1 (fresh_client, no_shm)"
  have h: "hook x86_64 sample_world (Some ''/d'') False 2 (call 1000 0 0 0) 1 (fresh_client, no_shm) = ?run"
    using hook_handled[OF x86_64_ok x86_64_entries(1,2), of sample_world "''/d''" "call 1000 0 0 0" 1 "(fresh_client, no_shm)"]
    by simp
  have "case ?run of Inl _ \<Rightarrow> False | Inr ((r, v, c'), ss') \<Rightarrow>
      cl_sent c' = [Open 1 (-1) ''/d/f''] \<and> cl_answers c' = [ULLONG_MAX, 9]"
    by code_simp
  then obtain r v c' ss' where o: "?run = Inr ((r, v, c'), ss')"
      "cl_sent c' = [Open 1 (-1) ''/d/f'']" "cl_answers c' = [ULLONG_MAX, 9]"
    by (auto split: sum.splits prod.splits)
  from call_is_a_conversation[OF h[unfolded o(1)]] obtain tr where
    tr: "cl_sent c' = cl_sent fresh_client @ map fst tr"
      "cl_answers fresh_client = List.map_filter snd tr @ cl_answers c'" by blast
  have "map fst tr = [Open 1 (-1) ''/d/f'']" using tr(1) o(2) by (simp add: fresh_client_def)
  moreover have "List.map_filter snd tr @ [ULLONG_MAX, 9] = [8] @ [ULLONG_MAX, 9]"
    using tr(2) o(3) by (simp add: fresh_client_def)
  then have "List.map_filter snd tr = [8]" unfolding append_same_eq .
  ultimately show ?thesis using h[unfolded o(1)] by (intro exI conjI)
qed

end
