(* ===== verification/Interleaving.thy ===== *)
theory Interleaving
  imports Node
begin

text \<open>
  The two threads of the server, the loop of requests (\<open>start\<close>) and the monitor (\<open>_main\<close>), interleaved
  call by call. Between two calls of a handler on \<open>file_manager\<close> and \<open>client_manager\<close>, or after
  one of its tests, the other thread may run; one such call is one step, because the
  methods that touch a waiting list hold its mutex. What a thread has to do is a list of calls: a call
  changes the server and may put more calls in front of the list (a handler its own calls, a pass
  of the monitor one test per path of the copies it iterates over).

  The first part shows that a handler, run call by call without interruption, does what \<open>serve\<close>
  does at once, and a pass what \<open>monitor_pass\<close> does. The second part runs both threads under any schedule:
  a schedule is a list of choices, and \<open>run_turns\<close> computes the run or fails where a choice
  is not possible. The answers are accounted for along the run.
\<close>

subsection \<open>Calls\<close>

datatype method_call =
    Handle request
  | ConsentDecide tid string bool
  | ReadCommitted string tid u64
  | ReadDecide string tid u64 bool
  | ReplyTo tid u64
  | AddCreation string tid
  | AddData string tid u64
  | UnlockCreation string
  | DeleteCreation string
  | CheckData string
  | SetCommitted string
  | IncreaseClose string
  | NameProducer tid string
  | RegisterClient tid string
  | RemoveClient tid
  | MonitorPass
  | DataPass
  | PollCreation string
  | PollData string

subsection \<open>The handlers as lists of calls\<close>

definition close_calls :: "env \<Rightarrow> tid \<Rightarrow> string \<Rightarrow> server \<Rightarrow> method_call list res" where
  "close_calls env t path s =
     (if \<not> handled env path then Inr []
      else if getCommitRule (srv_engine s) path = CAPIO_FILE_COMMITTED_ON_CLOSE then
        rbind (isProducer (srv_clients s) (srv_engine s) path t) (\<lambda>producer.
          Inr (if producer then [SetCommitted path, IncreaseClose path] else []))
      else Inr [])"

definition consent_calls :: "env \<Rightarrow> tid \<Rightarrow> string \<Rightarrow> server \<Rightarrow> method_call list res" where
  "consent_calls env t path s =
     (if \<not> handled env path then Inr [ReplyTo t 1]
      else
        rbind (isProducer (srv_clients s) (srv_engine s) path t) (\<lambda>producer.
          Inr [if producer then ReplyTo t 1 else ConsentDecide t path (fs_exists (srv_fs s) path)]))"

definition open_calls :: "tid \<Rightarrow> string \<Rightarrow> server \<Rightarrow> method_call list res" where
  "open_calls t path s =
     (if fs_exists (srv_fs s) path then Inr [ReplyTo t 1]
      else
        rbind (isProducer (srv_clients s) (srv_engine s) path t) (\<lambda>producer.
          Inr [if producer then ReplyTo t 1 else AddCreation path t]))"

definition create_calls :: "tid \<Rightarrow> string \<Rightarrow> method_call list" where
  [simp]: "create_calls t path = [UnlockCreation path, NameProducer t path]"

definition exit_calls :: "tid \<Rightarrow> server \<Rightarrow> method_call list res" where
  [simp]: "exit_calls t s =
     rbind (get_produced_files t (srv_clients s)) (\<lambda>files. Inr (map SetCommitted files @ [RemoveClient t]))"

definition read_calls :: "env \<Rightarrow> string \<Rightarrow> tid \<Rightarrow> u64 \<Rightarrow> method_call list" where
  [simp]: "read_calls env path t end_of_read =
     [if handled env path then ReadCommitted path t end_of_read else ReplyTo t 1]"

definition rename_calls :: "string \<Rightarrow> method_call list" where
  [simp]: "rename_calls new_path = [UnlockCreation new_path]"

definition write_calls :: "env \<Rightarrow> string \<Rightarrow> method_call list" where
  [simp]: "write_calls env path = (if handled env path then [CheckData path] else [])"

fun handle_calls :: "env \<Rightarrow> request \<Rightarrow> server \<Rightarrow> method_call list res" where
  "handle_calls env (Consent t path _) s = consent_calls env t path s"
| "handle_calls env (Close t path) s = close_calls env t path s"
| "handle_calls env (Create t _ path) s = Inr (create_calls t path)"
| "handle_calls env (ExitGroup t) s = exit_calls t s"
| "handle_calls env (HandshakeNamed t _ app) s = Inr [RegisterClient t app]"
| "handle_calls env (HandshakeAnonymous t _) s = Inr [RegisterClient t CAPIO_DEFAULT_APP_NAME]"
| "handle_calls env (Open t _ path) s = open_calls t path s"
| "handle_calls env (Read path t _ end_of_read) s = Inr (read_calls env path t end_of_read)"
| "handle_calls env (Rename _ _ new_path) s = Inr (rename_calls new_path)"
| "handle_calls env (Write _ _ path _) s = Inr (write_calls env path)"

text \<open>The second halves of \<open>consent_to_proceed_handler\<close> and \<open>read_handler\<close>.\<close>

definition consent_decide :: "env \<Rightarrow> tid \<Rightarrow> string \<Rightarrow> bool \<Rightarrow> server \<Rightarrow> (method_call list \<times> server) res" where
  [simp]: "consent_decide env t path exists s =
     rbind (isCommitted env path s) (\<lambda>(comm, s1).
       let firable = (getFireRule (srv_engine s1) path = CAPIO_FILE_MODE_NO_UPDATE)
       in Inr ([if exists \<and> (comm \<or> firable) then ReplyTo t 1 else AddData path t 0], s1))"

definition read_decide :: "string \<Rightarrow> tid \<Rightarrow> u64 \<Rightarrow> bool \<Rightarrow> server \<Rightarrow> method_call list res" where
  [simp]: "read_decide path t end_of_read comm s =
     rbind (get_file_size_if_exists (srv_fs s) path) (\<lambda>file_size.
     rbind (if end_of_read \<le> file_size \<or> comm then Inr True
            else isProducer (srv_clients s) (srv_engine s) path t) (\<lambda>go_on.
       Inr [if go_on then ReplyTo t (if comm then ULLONG_MAX else file_size)
            else AddData path t end_of_read]))"

text \<open>\<open>setCommitted\<close> of a path: the token, and then the calls that wake the threads.\<close>

definition commit_calls :: "env \<Rightarrow> string \<Rightarrow> server \<Rightarrow> (method_call list \<times> server) res" where
  [simp]: "commit_calls env path s =
     rbind (getAndCreateMetadataPath env path (srv_fs s)) (\<lambda>(metadata_path, f).
       Inr ([CheckData path, UnlockCreation path], s\<lparr>srv_fs := touch metadata_path f\<rparr>))"

text \<open>A pass of the monitor: the two lists of paths are copies, taken when their loop begins.\<close>

definition pass_calls :: "server \<Rightarrow> method_call list" where
  [simp]: "pass_calls s = map PollCreation (getFileAwaitingCreation s) @ [DataPass]"

definition poll_creation_calls :: "string \<Rightarrow> server \<Rightarrow> method_call list" where
  [simp]: "poll_creation_calls path s =
     (if fs_exists (srv_fs s) path then [UnlockCreation path, DeleteCreation path] else [])"

definition poll_data_calls :: "string \<Rightarrow> server \<Rightarrow> method_call list" where
  [simp]: "poll_data_calls path s = (if fs_exists (srv_fs s) path then [CheckData path] else [])"

text \<open>One call: what it does to the server, and the calls it leaves to be made next.\<close>

fun exec :: "env \<Rightarrow> method_call \<Rightarrow> server \<Rightarrow> (method_call list \<times> server) res" where
  "exec env (Handle m) s = rbind (handle_calls env m s) (\<lambda>cs. Inr (cs, s))"
| "exec env (ConsentDecide t path exists) s = consent_decide env t path exists s"
| "exec env (ReadCommitted path t end_of_read) s =
     rbind (isCommitted env path s) (\<lambda>(comm, s1). Inr ([ReadDecide path t end_of_read comm], s1))"
| "exec env (ReadDecide path t end_of_read comm) s =
     rbind (read_decide path t end_of_read comm s) (\<lambda>cs. Inr (cs, s))"
| "exec env (ReplyTo t v) s = rbind (reply t v s) (\<lambda>s'. Inr ([], s'))"
| "exec env (AddCreation path t) s = Inr ([], addThreadAwaitingCreation path t s)"
| "exec env (AddData path t n) s = Inr ([], addThreadAwaitingData path t n s)"
| "exec env (UnlockCreation path) s = rbind (unlockThreadAwaitingCreation path s) (\<lambda>s'. Inr ([], s'))"
| "exec env (DeleteCreation path) s = Inr ([], deleteFileAwaitingCreation path s)"
| "exec env (CheckData path) s =
     rbind (checkAndUnlockThreadAwaitingData env path s) (\<lambda>s'. Inr ([], s'))"
| "exec env (SetCommitted path) s = commit_calls env path s"
| "exec env (IncreaseClose path) s = rbind (increaseCloseCount env path s) (\<lambda>s'. Inr ([], s'))"
| "exec env (NameProducer t path) s =
     rbind (get_app_name t (srv_clients s)) (\<lambda>name.
     rbind (addProducer path name (srv_engine s)) (\<lambda>eng. Inr ([], s\<lparr>srv_engine := eng\<rparr>)))"
| "exec env (RegisterClient t app) s =
     Inr ([], s\<lparr>srv_clients := register_new_client t app (srv_clients s)\<rparr>)"
| "exec env (RemoveClient t) s = Inr ([], s\<lparr>srv_clients := remove_client t (srv_clients s)\<rparr>)"
| "exec env MonitorPass s = Inr (pass_calls s, s)"
| "exec env DataPass s = Inr (map PollData (getFileAwaitingData s), s)"
| "exec env (PollCreation path) s = Inr (poll_creation_calls path s, s)"
| "exec env (PollData path) s = Inr (poll_data_calls path s, s)"

subsection \<open>The calls of a thread, one after the other\<close>

inductive calls_step :: "env \<Rightarrow> method_call list \<times> server \<Rightarrow> method_call list \<times> server \<Rightarrow> bool" for env :: env where
  "exec env c s = Inr (ds, s') \<Longrightarrow> calls_step env (c # cs, s) (ds @ cs, s')"

inductive_cases calls_stepE [elim]: "calls_step env (cs, s) x"

text \<open>What is left to do, done at once.\<close>

definition read_decided :: "string \<Rightarrow> tid \<Rightarrow> u64 \<Rightarrow> bool \<Rightarrow> server \<Rightarrow> server res" where
  "read_decided path t end_of_read comm s =
     rbind (get_file_size_if_exists (srv_fs s) path) (\<lambda>file_size.
     rbind (if end_of_read \<le> file_size \<or> comm then Inr True
            else isProducer (srv_clients s) (srv_engine s) path t) (\<lambda>go_on.
       if go_on then reply t (if comm then ULLONG_MAX else file_size) s
       else Inr (addThreadAwaitingData path t end_of_read s)))"

fun at_once :: "env \<Rightarrow> method_call \<Rightarrow> server \<Rightarrow> server res" where
  "at_once env (Handle m) s = act env m s"
| "at_once env (ConsentDecide t path exists) s =
     rbind (isCommitted env path s) (\<lambda>(comm, s1).
       let firable = (getFireRule (srv_engine s1) path = CAPIO_FILE_MODE_NO_UPDATE)
       in if exists \<and> (comm \<or> firable) then reply t 1 s1 else Inr (addThreadAwaitingData path t 0 s1))"
| "at_once env (ReadCommitted path t end_of_read) s =
     rbind (isCommitted env path s) (\<lambda>(comm, s1). read_decided path t end_of_read comm s1)"
| "at_once env (ReadDecide path t end_of_read comm) s = read_decided path t end_of_read comm s"
| "at_once env (SetCommitted path) s = setCommitted env path s"
| "at_once env MonitorPass s = monitor_pass env s"
| "at_once env DataPass s = monitor_data env (getFileAwaitingData s) s"
| "at_once env (PollCreation path) s = monitor_creation [path] s"
| "at_once env (PollData path) s = monitor_data env [path] s"
| "at_once env c s = rbind (exec env c s) (\<lambda>(_, s'). Inr s')"

fun all_at_once :: "env \<Rightarrow> method_call list \<Rightarrow> server \<Rightarrow> server res" where
  "all_at_once env [] s = Inr s"
| "all_at_once env (c # cs) s = rbind (at_once env c s) (all_at_once env cs)"

lemma all_at_once_append: "all_at_once env (cs @ ds) s = rbind (all_at_once env cs s) (all_at_once env ds)"
  by (induction cs arbitrary: s) (auto simp: rbind_case split: sum.splits)

declare rbind_right [simp]

lemma rbind_done [simp]: "rbind x (all_at_once env []) = x"
  by (cases x) simp_all

lemma all_at_once_one [simp]: "all_at_once env [c] s = at_once env c s"
  by (simp add: rbind_case split: sum.splits)

lemma all_commits: "all_at_once env (map SetCommitted files) s = setCommitted_all env files s"
  by (induction files arbitrary: s) (simp_all, simp add: rbind_case split: sum.splits)

lemma all_polls_creation: "all_at_once env (map PollCreation files) s = monitor_creation files s"
  by (induction files arbitrary: s) (simp_all, simp_all add: rbind_case split: sum.splits)

lemma all_polls_data: "all_at_once env (map PollData files) s = monitor_data env files s"
  by (induction files arbitrary: s) (simp_all, simp_all add: rbind_case split: sum.splits)

text \<open>The law of the steps: a call at once is its first step, and then the calls it leaves at once.\<close>

lemma at_once_expand: "at_once env c s = rbind (exec env c s) (\<lambda>(ds, s'). all_at_once env ds s')"
proof (cases c)
  case (Handle m)
  show ?thesis
    by (cases m) (auto simp: Handle do_defs close_calls_def consent_calls_def open_calls_def
        setCommitted_tid_def all_at_once_append all_commits rbind_case read_decided_def Let_def split: sum.splits prod.splits)
next
  case MonitorPass
  show ?thesis by (simp add: MonitorPass all_at_once_append all_polls_creation monitor_pass_def del: all_at_once.simps)
      (simp add: rbind_case split: sum.splits)
next
  case DataPass
  show ?thesis by (simp add: DataPass all_polls_data)
qed (auto simp: rbind_case read_decided_def setCommitted_def Let_def split: sum.splits prod.splits)

fun level :: "method_call \<Rightarrow> nat" where
  "level (Handle _) = 3"
| "level MonitorPass = 3"
| "level (ReadCommitted _ _ _) = 2"
| "level DataPass = 2"
| "level (ReadDecide _ _ _ _) = 1"
| "level (ConsentDecide _ _ _) = 1"
| "level (SetCommitted _) = 1"
| "level (PollCreation _) = 1"
| "level (PollData _) = 1"
| "level _ = 0"

lemma exec_level: "exec env c s = Inr (ds, s') \<Longrightarrow> d \<in> set ds \<Longrightarrow> level d < level c"
proof (cases c)
  case (Handle m)
  assume "exec env c s = Inr (ds, s')" "d \<in> set ds"
  then show ?thesis
    by (cases m) (auto simp: Handle close_calls_def consent_calls_def open_calls_def res_simps split: if_splits)
qed (auto simp: res_simps Let_def split: if_splits)

abbreviation calls_run :: "env \<Rightarrow> method_call list \<times> server \<Rightarrow> method_call list \<times> server \<Rightarrow> bool" where
  "calls_run env \<equiv> (calls_step env)\<^sup>*\<^sup>*"

lemma calls_run_sound:
  assumes "calls_run env (cs, s) (ds, s')"
  shows "all_at_once env cs s = all_at_once env ds s'"
  using assms
proof (induction rule: rtranclp_induct2)
  case (step es t ds u)
  then obtain c cs' fs where e: "es = c # cs'" "exec env c t = Inr (fs, u)" "ds = fs @ cs'" by auto
  with at_once_expand[of env c t] step.IH show ?case by (simp add: all_at_once_append)
qed simp

lemma calls_run_complete:
  "(\<forall>c \<in> set cs. level c < n) \<Longrightarrow> all_at_once env cs s = Inr s' \<Longrightarrow> calls_run env (cs @ es, s) (es, s')"
proof (induction n arbitrary: cs s s' es)
  case 0
  then show ?case by simp
next
  case (Suc n)
  from Suc.prems show ?case
  proof (induction cs arbitrary: s)
    case (Cons c cs)
    from Cons.prems(2) obtain s1 where s1: "at_once env c s = Inr s1" "all_at_once env cs s1 = Inr s'"
      by (auto simp: res_simps)
    from s1(1) obtain ds s0 where e: "exec env c s = Inr (ds, s0)" "all_at_once env ds s0 = Inr s1"
      by (auto simp: at_once_expand res_simps)
    have "\<forall>d \<in> set ds. level d < n" using exec_level[OF e(1)] Cons.prems(1) by fastforce
    from Suc.IH[OF this e(2), of "cs @ es"] have "calls_run env (ds @ cs @ es, s0) (cs @ es, s1)" .
    moreover have "calls_step env ((c # cs) @ es, s) (ds @ cs @ es, s0)"
      using calls_step.intros[OF e(1), of "cs @ es"] by simp
    moreover have "calls_run env (cs @ es, s1) (es, s')" using Cons.IH s1(2) Cons.prems(1) by simp
    ultimately show ?case by (meson converse_rtranclp_into_rtranclp rtranclp_trans)
  qed simp
qed

lemma calls_run_iff: "calls_run env (cs, s) ([], s') \<longleftrightarrow> all_at_once env cs s = Inr s'"
proof
  assume "all_at_once env cs s = Inr s'"
  moreover have "level c < 4" for c by (cases c) simp_all
  ultimately show "calls_run env (cs, s) ([], s')" using calls_run_complete[of cs 4 env s s' "[]"] by simp
qed (use calls_run_sound in fastforce)

subsection \<open>What a call does to the answers owed\<close>

fun pend :: "method_call \<Rightarrow> tid option" where
  "pend (Handle m) = asks m"
| "pend (ConsentDecide t _ _) = Some t"
| "pend (ReadCommitted _ t _) = Some t"
| "pend (ReadDecide _ t _ _) = Some t"
| "pend (ReplyTo t _) = Some t"
| "pend (AddCreation _ t) = Some t"
| "pend (AddData _ t _) = Some t"
| "pend _ = None"

definition pending_for :: "method_call list \<Rightarrow> tid \<Rightarrow> nat" where
  "pending_for cs t = count_list (map pend cs) (Some t)"

lemma pending_simps [simp]:
  "pending_for [] t = 0" "pending_for (c # cs) t = (if pend c = Some t then 1 else 0) + pending_for cs t"
  "pending_for (cs @ ds) t = pending_for cs t + pending_for ds t"
  by (simp_all add: pending_for_def)

lemma pending_map: "(\<And>x. pend (f x) = None) \<Longrightarrow> pending_for (map f xs) t = 0"
  by (induction xs) simp_all

lemma exec_keeps:
  assumes "exec env c s = Inr (ds, s')" and "\<And>t. c \<noteq> RemoveClient t" and "\<And>t a. c \<noteq> RegisterClient t a"
  shows "keeps s s'"
proof (cases c)
  case (NameProducer t path)
  with assms(1) obtain name eng where "addProducer path name (srv_engine s) = Inr eng" "s' = s\<lparr>srv_engine := eng\<rparr>"
    by (auto simp: res_simps)
  with engine_wf_ops(2)[OF _ this(1)] show ?thesis by (simp add: keeps_def)
qed (use assms in \<open>auto simp: res_simps Let_def deleteFileAwaitingCreation_def keeps_clients_fm
      split: if_splits intro: keeps_manager keeps_add\<close>)

lemma conserves_exec:
  assumes "exec env c s = Inr (ds, s')" and wf: "waiting_wf s" and "pend c = None"
    and "\<And>t. c \<noteq> RemoveClient t" and "\<And>p. c \<noteq> DeleteCreation p"
  shows "conserves s s' \<and> pending_for ds u = 0"
proof (cases c)
  case (Handle m)
  with assms show ?thesis
    by (cases m) (auto simp: close_calls_def res_simps pending_map split: if_splits)
next
  case (SetCommitted p)
  with assms show ?thesis by (auto simp: res_simps intro: conserves_same)
next
  case (NameProducer t p)
  with assms show ?thesis by (auto simp: res_simps intro: conserves_same)
qed (use assms in \<open>auto simp: res_simps pending_map register_conserves
      intro: unlockCreation_conserves checkAndUnlock_conserves increaseCloseCount_conserves
      split: if_splits\<close>)

lemma asking_exec:
  assumes "exec env c s = Inr (ds, s')" and wf: "waiting_wf s" and p: "pend c = Some t" and 0: "owed s t = 0"
  shows "(owes_one_more t s s' \<and> ds = []) \<or> (conserves s s' \<and> (\<forall>u. pending_for ds u = (if u = t then 1 else 0)))"
proof (cases c)
  case (Handle m)
  with assms show ?thesis
    by (cases m) (auto simp: consent_calls_def open_calls_def res_simps split: if_splits)
qed (use assms in \<open>auto simp: res_simps Let_def owes_reply owes_creation owes_data conserves_isCommitted
       split: if_splits\<close>)

text \<open>All calls but two keep, for each thread, the answers owed and those still to be decided.\<close>

lemma exec_outstanding:
  assumes "exec env c s = Inr (ds, s')" and wf: "waiting_wf s" and 0: "\<And>t. pend c = Some t \<Longrightarrow> owed s t = 0"
    and "\<And>t. c \<noteq> RemoveClient t" and "\<And>p. c \<noteq> DeleteCreation p"
  shows "owed s' u + pending_for ds u = owed s u + (if pend c = Some u then 1 else 0)" and "waiting_wf s'"
proof -
  have "owed s' u + pending_for ds u = owed s u + (if pend c = Some u then 1 else 0) \<and> waiting_wf s'"
  proof (cases "pend c")
    case None
    with conserves_exec[OF assms(1,2) None assms(4,5), of u] wf show ?thesis
      by (auto simp: conserves_def)
  next
    case (Some t)
    from asking_exec[OF assms(1) wf Some 0[OF Some]] wf Some show ?thesis
      by (auto simp: conserves_def owes_one_more_def)
  qed
  then show "owed s' u + pending_for ds u = owed s u + (if pend c = Some u then 1 else 0)" "waiting_wf s'" by blast+
qed

subsection \<open>The two threads\<close>

record server_threads =
  main_calls :: "method_call list"
  monitor_calls :: "method_call list"
  th_server :: server

datatype choice = Fetch request | Main | Wake | Monitor | Collect tid | Disk fs

datatype event = Asked tid | Collected tid

definition may_send :: "request \<Rightarrow> server \<Rightarrow> bool" where
  "may_send m s =
     ((case asks m of None \<Rightarrow> True | Some t \<Rightarrow> bufs_response (srv_clients s) t \<noteq> None \<and> owed s t = 0) \<and>
      (case leaves m of None \<Rightarrow> True | Some t \<Rightarrow> owed s t = 0))"

fun take_turn :: "env \<Rightarrow> choice \<Rightarrow> server_threads \<Rightarrow> (event list \<times> server_threads) option" where
  "take_turn env (Fetch m) x =
     (if main_calls x = [] \<and> may_send m (th_server x)
      then Some (case asks m of None \<Rightarrow> [] | Some t \<Rightarrow> [Asked t], x\<lparr>main_calls := [Handle m]\<rparr>) else None)"
| "take_turn env Main x =
     (case main_calls x of [] \<Rightarrow> None
      | c # cs \<Rightarrow> (case exec env c (th_server x) of Inl _ \<Rightarrow> None
          | Inr (ds, s) \<Rightarrow> Some ([], x\<lparr>main_calls := ds @ cs, th_server := s\<rparr>)))"
| "take_turn env Wake x =
     (if monitor_calls x = [] then Some ([], x\<lparr>monitor_calls := [MonitorPass]\<rparr>) else None)"
| "take_turn env Monitor x =
     (case monitor_calls x of [] \<Rightarrow> None
      | c # cs \<Rightarrow> (case exec env c (th_server x) of Inl _ \<Rightarrow> None
          | Inr (ds, s) \<Rightarrow> Some ([], x\<lparr>monitor_calls := ds @ cs, th_server := s\<rparr>)))"
| "take_turn env (Collect t) x =
     map_option (\<lambda>(v, s). ([Collected t], x\<lparr>th_server := s\<rparr>)) (take_answer t (th_server x))"
| "take_turn env (Disk f) x = Some ([], x\<lparr>th_server := (th_server x)\<lparr>srv_fs := f\<rparr>\<rparr>)"

fun run_turns :: "env \<Rightarrow> choice list \<Rightarrow> server_threads \<Rightarrow> (event list \<times> server_threads) option" where
  "run_turns env [] x = Some ([], x)"
| "run_turns env (ch # chs) x =
     (case take_turn env ch x of None \<Rightarrow> None
      | Some (es, y) \<Rightarrow> map_option (\<lambda>(es', z). (es @ es', z)) (run_turns env chs y))"

definition threads_start :: "engine \<Rightarrow> fs \<Rightarrow> server_threads" where
  "threads_start eng f = \<lparr>main_calls = [], monitor_calls = [], th_server = server_start eng f\<rparr>"

text \<open>The entry a list of calls deletes next.\<close>

fun deleting :: "method_call list \<Rightarrow> string option" where
  "deleting (DeleteCreation p # _) = Some p"
| "deleting _ = None"

lemma deleting_Some: "deleting cs = Some p \<longleftrightarrow> (\<exists>ds. cs = DeleteCreation p # ds)"
  by (cases cs rule: deleting.cases) auto

text \<open>A thread is late when it waits for a path whose entry the monitor deletes next.\<close>

definition late :: "server_threads \<Rightarrow> tid \<Rightarrow> bool" where
  "late x t = (case deleting (monitor_calls x) of Some p \<Rightarrow> t \<in> set (creation_waiters (th_server x) p) | None \<Rightarrow> False)"

fun never_late :: "env \<Rightarrow> tid \<Rightarrow> choice list \<Rightarrow> server_threads \<Rightarrow> bool" where
  "never_late env t [] x = True"
| "never_late env t (ch # chs) x =
     (\<not> (ch = Monitor \<and> late x t) \<and>
      (case take_turn env ch x of None \<Rightarrow> True | Some (_, y) \<Rightarrow> never_late env t chs y))"

subsection \<open>The invariant\<close>

definition outstanding :: "server_threads \<Rightarrow> tid \<Rightarrow> nat" where
  "outstanding x t = pending_for (main_calls x) t + owed (th_server x) t"

fun monitor_call :: "method_call \<Rightarrow> bool" where
  "monitor_call (UnlockCreation _) = True"
| "monitor_call (DeleteCreation _) = True"
| "monitor_call (CheckData _) = True"
| "monitor_call MonitorPass = True"
| "monitor_call DataPass = True"
| "monitor_call (PollCreation _) = True"
| "monitor_call (PollData _) = True"
| "monitor_call _ = False"

fun main_call :: "method_call \<Rightarrow> bool" where
  "main_call (DeleteCreation _) = False"
| "main_call MonitorPass = False"
| "main_call DataPass = False"
| "main_call (PollCreation _) = False"
| "main_call (PollData _) = False"
| "main_call _ = True"

fun leaving :: "method_call \<Rightarrow> tid option" where
  "leaving (Handle m) = leaves m"
| "leaving (RemoveClient t) = Some t"
| "leaving _ = None"

lemma calls_of_main: "exec env c s = Inr (ds, s') \<Longrightarrow> main_call c \<Longrightarrow> \<forall>d \<in> set ds. main_call d"
proof (cases c)
  case (Handle m)
  assume "exec env c s = Inr (ds, s')"
  then show ?thesis
    by (cases m) (auto simp: Handle close_calls_def consent_calls_def open_calls_def res_simps split: if_splits)
qed (auto simp: res_simps Let_def split: if_splits)

lemma calls_of_monitor: "exec env c s = Inr (ds, s') \<Longrightarrow> monitor_call c \<Longrightarrow> \<forall>d \<in> set ds. monitor_call d"
  by (cases c) (auto simp: res_simps split: if_splits)

lemma monitor_pends: "monitor_call c \<Longrightarrow> pend c = None"
  by (cases c) simp_all

lemma leaving_of_main: "exec env c s = Inr (ds, s') \<Longrightarrow> d \<in> set ds \<Longrightarrow> leaving d = Some t \<Longrightarrow> leaving c = Some t"
proof (cases c)
  case (Handle m)
  assume "exec env c s = Inr (ds, s')" "d \<in> set ds" "leaving d = Some t"
  then show ?thesis
    by (cases m) (auto simp: Handle close_calls_def consent_calls_def open_calls_def res_simps split: if_splits)
qed (auto simp: res_simps Let_def split: if_splits)

definition tables_wf :: "server \<Rightarrow> bool" where
  "tables_wf s \<longleftrightarrow> cm_wf (srv_clients s) \<and> umap_wf (srv_engine s)"

lemma exec_tables: "exec env c s = Inr (ds, s') \<Longrightarrow> tables_wf s \<Longrightarrow> tables_wf s'"
proof -
  assume e: "exec env c s = Inr (ds, s')" and w: "tables_wf s"
  consider (r) u where "c = RemoveClient u" | (g) u a where "c = RegisterClient u a"
    | (k) "\<And>t. c \<noteq> RemoveClient t" "\<And>t a. c \<noteq> RegisterClient t a" by metis
  then show "tables_wf s'"
  proof cases
    case k
    have "keeps s s'" by (rule exec_keeps[OF e k])
    with w keeps_cm_wf show ?thesis unfolding tables_wf_def keeps_def by blast
  qed (use e w in \<open>auto simp: tables_wf_def cm_wf_remove cm_wf_register\<close>)
qed

definition threads_inv :: "server_threads \<Rightarrow> bool" where
  "threads_inv x \<longleftrightarrow> waiting_wf (th_server x) \<and> tables_wf (th_server x) \<and>
     (\<forall>c \<in> set (main_calls x). main_call c) \<and> (\<forall>c \<in> set (monitor_calls x). monitor_call c) \<and>
     (\<forall>t. outstanding x t \<le> 1) \<and> (\<forall>t. 0 < outstanding x t \<longrightarrow> t \<in> registered (th_server x)) \<and>
     (\<forall>c \<in> set (main_calls x). \<forall>t. leaving c = Some t \<longrightarrow> outstanding x t = 0)"

lemma exec_registered:
  assumes "exec env c s = Inr (ds, s')"
  shows "t \<in> registered s \<Longrightarrow> c \<noteq> RemoveClient t \<Longrightarrow> t \<in> registered s'"
proof -
  assume t: "t \<in> registered s" "c \<noteq> RemoveClient t"
  consider (r) u where "c = RemoveClient u" | (g) u a where "c = RegisterClient u a"
    | (k) "\<And>t. c \<noteq> RemoveClient t" "\<And>t a. c \<noteq> RegisterClient t a" by metis
  then show "t \<in> registered s'"
  proof cases
    case k
    with exec_keeps[OF assms] t(1) show ?thesis by (simp add: keeps_registered)
  qed (use assms t in \<open>auto simp: registered_def remove_client_def register_new_client_def map_emplace_apply\<close>)
qed

lemma remove_owed: "owed s t = 0 \<Longrightarrow> owed (s\<lparr>srv_clients := remove_client t (srv_clients s)\<rparr>) u = owed s u"
  by (auto simp: owed_def buffered_def remove_client_def)

text \<open>One call of the main thread, seen from outside.\<close>

lemma main_exec:
  assumes inv: "threads_inv x" and m: "main_calls x = c # cs" and e: "exec env c (th_server x) = Inr (ds, s)"
  defines "y \<equiv> x\<lparr>main_calls := ds @ cs, th_server := s\<rparr>"
  shows "outstanding y t = outstanding x t" and "threads_inv y"
proof -
  let ?s = "th_server x"
  have wf: "waiting_wf ?s" and mc: "main_call c" and le: "\<And>t. outstanding x t \<le> 1"
    using inv m by (auto simp: threads_inv_def)
  have lv: "outstanding x u = 0" if "d \<in> set (c # cs)" "leaving d = Some u" for d u
    using inv that by (auto simp: threads_inv_def m)
  have out: "outstanding y u = outstanding x u \<and> waiting_wf s" for u
  proof (cases "\<exists>v. c = RemoveClient v")
    case True
    then obtain v where v: "c = RemoveClient v" ..
    have "owed ?s v = 0" using lv[of c v] by (simp add: v outstanding_def)
    from remove_owed[OF this] e wf show ?thesis by (auto simp: v y_def m outstanding_def waiting_wf_def)
  next
    case False
    have "owed ?s v = 0" if "pend c = Some v" for v
      using le[of v] that by (simp add: outstanding_def m)
    moreover have "c \<noteq> DeleteCreation p" "c \<noteq> RemoveClient v" for p v using mc False by auto
    ultimately show ?thesis using exec_outstanding(1)[OF e wf, of u] exec_outstanding(2)[OF e wf]
      by (simp add: y_def outstanding_def m)
  qed
  then show o: "outstanding y t = outstanding x t" for t by blast
  have "u \<in> registered s" if "0 < outstanding x u" for u
  proof -
    have "c \<noteq> RemoveClient u" using lv[of c u] that by auto
    moreover have "u \<in> registered ?s" using inv that by (simp add: threads_inv_def)
    ultimately show ?thesis using exec_registered[OF e, of u] by blast
  qed
  moreover have "outstanding x u = 0" if "d \<in> set (ds @ cs)" "leaving d = Some u" for d u
    using that leaving_of_main[OF e, of d u] lv[of c u] lv[of d u] by auto
  moreover have "tables_wf s" using exec_tables[OF e] inv by (simp add: threads_inv_def)
  ultimately show "threads_inv y" using inv calls_of_main[OF e mc] out
    by (simp add: threads_inv_def o) (auto simp: y_def m)
qed

lemma count_zero_mem: "(count_list xs x = 0) = (x \<notin> set xs)"
  by (simp add: count_list_0_iff)

definition dropped :: "server_threads \<Rightarrow> tid \<Rightarrow> nat" where
  "dropped x t = (case deleting (monitor_calls x) of Some p \<Rightarrow> count_list (creation_waiters (th_server x) p) t | None \<Rightarrow> 0)"

lemma dropped_late: "\<not> late x t \<Longrightarrow> dropped x t = 0"
  by (simp add: late_def dropped_def count_list_0_iff split: option.splits)

lemma monitor_exec:
  assumes inv: "threads_inv x" and m: "monitor_calls x = c # cs" and e: "exec env c (th_server x) = Inr (ds, s)"
  defines "y \<equiv> x\<lparr>monitor_calls := ds @ cs, th_server := s\<rparr>"
  shows "outstanding y t + dropped x t = outstanding x t" and "threads_inv y"
proof -
  let ?s = "th_server x"
  have wf: "waiting_wf ?s" and mc: "monitor_call c" using inv m by (auto simp: threads_inv_def)
  have reg: "registered s = registered ?s" using exec_keeps[OF e] mc keeps_registered by fastforce
  have out: "outstanding y u + dropped x u = outstanding x u \<and> waiting_wf s" for u
  proof (cases "\<exists>p. c = DeleteCreation p")
    case True
    with e delete_owed[OF wf] show ?thesis by (auto simp: y_def outstanding_def dropped_def m)
  next
    case False
    have "pend c = None" "\<And>t. c \<noteq> RemoveClient t" using mc by (auto simp: monitor_pends)
    with conserves_exec[OF e wf, of u] False wf show ?thesis
      by (auto simp: y_def outstanding_def dropped_def m conserves_def deleting_Some split: option.splits)
  qed
  then show "outstanding y t + dropped x t = outstanding x t" for t by blast
  have le: "outstanding y u \<le> outstanding x u" for u using out[of u] by simp
  have "outstanding y u \<le> 1 \<and> (0 < outstanding y u \<longrightarrow> u \<in> registered s)" for u
  proof -
    have "outstanding x u \<le> 1" "0 < outstanding x u \<longrightarrow> u \<in> registered ?s"
      using inv by (simp_all add: threads_inv_def)
    with le[of u] show ?thesis by (simp add: reg)
  qed
  moreover have "outstanding y u = 0" if "d \<in> set (main_calls x)" "leaving d = Some u" for d u
  proof -
    have "outstanding x u = 0" using inv that unfolding threads_inv_def by blast
    with le[of u] show ?thesis by simp
  qed
  moreover have "\<forall>d \<in> set (monitor_calls y). monitor_call d"
    using calls_of_monitor[OF e mc] inv by (auto simp: y_def threads_inv_def m)
  moreover have "\<forall>d \<in> set (main_calls y). main_call d" "main_calls y = main_calls x" "th_server y = s"
    using inv by (simp_all add: y_def threads_inv_def)
  moreover have "waiting_wf s" using out by blast
  moreover have "tables_wf s" using exec_tables[OF e] inv by (simp add: threads_inv_def)
  ultimately show "threads_inv y" unfolding threads_inv_def by metis
qed

lemma step_accounts:
  assumes inv: "threads_inv x" and st: "take_turn env ch x = Some (es, y)"
  shows "outstanding y t + count_list es (Collected t) + (if ch = Monitor then dropped x t else 0) =
      outstanding x t + count_list es (Asked t)" and "threads_inv y"
proof -
  have "outstanding y t + count_list es (Collected t) + (if ch = Monitor then dropped x t else 0) =
      outstanding x t + count_list es (Asked t) \<and> threads_inv y"
  proof (cases ch)
    case (Fetch m)
    with st have x: "main_calls x = []" "may_send m (th_server x)"
      and y: "es = (case asks m of None \<Rightarrow> [] | Some t \<Rightarrow> [Asked t])" "y = x\<lparr>main_calls := [Handle m]\<rparr>"
      by (auto split: if_splits)
    have r: "outstanding y u = outstanding x u + (if asks m = Some u then 1 else 0)" for u
      by (simp add: outstanding_def y(2) x(1))
    have "outstanding x u = owed (th_server x) u" for u by (simp add: outstanding_def x(1))
    with inv x r have "threads_inv y"
      by (auto simp: threads_inv_def may_send_def y(2) registered_def split: option.splits)
         (metis request_roles(2,3) option.distinct(1))+
    with r y(1) Fetch show ?thesis by (auto split: option.splits)
  next
    case Main
    with st obtain c cs ds s where "main_calls x = c # cs" "exec env c (th_server x) = Inr (ds, s)"
      "es = []" "y = x\<lparr>main_calls := ds @ cs, th_server := s\<rparr>"
      by (auto split: list.splits sum.splits)
    with main_exec[OF inv this(1,2)] Main show ?thesis by simp
  next
    case Wake
    with st inv show ?thesis by (auto simp: threads_inv_def outstanding_def split: if_splits)
  next
    case Monitor
    with st obtain c cs ds s where "monitor_calls x = c # cs" "exec env c (th_server x) = Inr (ds, s)"
      "es = []" "y = x\<lparr>monitor_calls := ds @ cs, th_server := s\<rparr>"
      by (auto split: list.splits sum.splits)
    with monitor_exec[OF inv this(1,2)] Monitor show ?thesis by simp
  next
    case (Collect u)
    with st obtain v s where a: "take_answer u (th_server x) = Some (v, s)" "es = [Collected u]"
      "y = x\<lparr>th_server := s\<rparr>" by auto
    note k = taken_answer[OF a(1)]
    have o: "outstanding x w = outstanding y w + (if w = u then 1 else 0)" for w
      using k(3)[of w] by (simp add: outstanding_def a(3))
    have "waiting_wf s" using a(1) inv
      by (auto simp: take_answer_def threads_inv_def waiting_wf_def split: option.splits list.splits)
    moreover have "outstanding y w \<le> outstanding x w" for w using o[of w] by simp
    moreover have "tables_wf s"
    proof -
      from a(1) obtain vs where b: "bufs_response (srv_clients (th_server x)) u = Some (v # vs)"
        "s = th_server x\<lparr>srv_clients := (srv_clients (th_server x))\<lparr>bufs_response :=
           (bufs_response (srv_clients (th_server x)))(u \<mapsto> vs)\<rparr>\<rparr>"
        by (auto simp: take_answer_def split: option.splits list.splits)
      have "tables_wf (th_server x)" using inv by (simp add: threads_inv_def)
      then show ?thesis
        unfolding b(2) tables_wf_def cm_wf_def by (simp add: dom_update_known[where m = "bufs_response (srv_clients (th_server x))", OF b(1)] del: dom_fun_upd) metis
    qed
    ultimately have "threads_inv y" using inv k(2)
      unfolding threads_inv_def by (auto simp: a(3)) (metis le_trans less_le_trans le_0_eq)+
    with o[of t] a(2) Collect show ?thesis by simp
  next
    case (Disk f)
    with st inv show ?thesis by (auto simp: threads_inv_def outstanding_def waiting_wf_def tables_wf_def)
  qed
  then show "outstanding y t + count_list es (Collected t) + (if ch = Monitor then dropped x t else 0) =
      outstanding x t + count_list es (Asked t)" "threads_inv y" by blast+
qed

subsection \<open>Whole runs\<close>

lemma start_threads_inv: "umap_wf eng \<Longrightarrow> threads_inv (threads_start eng f)"
  using start_inv[of eng f] by (simp add: threads_inv_def tables_wf_def threads_start_def outstanding_def server_inv_def)

lemma start_outstanding: "outstanding (threads_start eng f) t = 0"
  by (simp add: threads_start_def outstanding_def server_start_def owed_def buffered_def client_manager_init_def
      in_creation_def in_data_def table_sum_def)

lemma runs_Cons:
  assumes "run_turns env (ch # chs) x = Some (es, z)"
  obtains e y es' where "take_turn env ch x = Some (e, y)" "run_turns env chs y = Some (es', z)" "es = e @ es'"
  using assms by (auto split: option.splits)

lemma runs_inv: "run_turns env chs x = Some (es, y) \<Longrightarrow> threads_inv x \<Longrightarrow> threads_inv y"
proof (induction chs arbitrary: x es)
  case (Cons ch chs)
  from Cons.prems(1) obtain e w es' where "take_turn env ch x = Some (e, w)" "run_turns env chs w = Some (es', y)"
    by (rule runs_Cons)
  with Cons.IH step_accounts(2)[OF Cons.prems(2)] show ?case by blast
qed simp

lemma runs_account:
  assumes "run_turns env chs x = Some (es, y)" and "threads_inv x"
  shows "outstanding y t + count_list es (Collected t) \<le> outstanding x t + count_list es (Asked t)"
    and "never_late env t chs x \<Longrightarrow>
      outstanding y t + count_list es (Collected t) = outstanding x t + count_list es (Asked t)"
proof -
  have "outstanding y t + count_list es (Collected t) \<le> outstanding x t + count_list es (Asked t) \<and>
    (never_late env t chs x \<longrightarrow>
      outstanding y t + count_list es (Collected t) = outstanding x t + count_list es (Asked t))"
    using assms
  proof (induction chs arbitrary: x es)
    case (Cons ch chs)
    from Cons.prems(1) obtain e w es' where s: "take_turn env ch x = Some (e, w)"
        "run_turns env chs w = Some (es', y)" "es = e @ es'" by (rule runs_Cons)
    note a = step_accounts[OF Cons.prems(2) s(1)]
    from Cons.IH[OF s(2) a(2)] a(1)[of t] s(1) dropped_late[of x t] show ?case
      by (auto simp: s(3) split: if_splits)
  qed simp
  then show "outstanding y t + count_list es (Collected t) \<le> outstanding x t + count_list es (Asked t)"
    "never_late env t chs x \<Longrightarrow>
      outstanding y t + count_list es (Collected t) = outstanding x t + count_list es (Asked t)" by blast+
qed

lemma runs_bound: "threads_inv x \<Longrightarrow> outstanding x t \<le> 1"
  by (simp add: threads_inv_def)

text \<open>How a thread gets late.\<close>

fun paired :: "method_call list \<Rightarrow> bool" where
  "paired (c # cs) = ((case deleting cs of Some p \<Rightarrow> c = UnlockCreation p | None \<Rightarrow> True) \<and> paired cs)"
| "paired [] = True"

lemma deleting_append: "deleting (ds @ cs) = (if ds = [] then deleting cs else deleting ds)"
proof (cases ds)
  case (Cons d ds')
  then show ?thesis by (cases d) simp_all
qed simp

lemma paired_append: "paired ds \<Longrightarrow> paired cs \<Longrightarrow> deleting cs = None \<Longrightarrow> paired (ds @ cs)"
  by (induction ds) (auto simp: deleting_append)

lemma deleting_map: "(\<And>x. deleting [f x] = None) \<Longrightarrow> deleting (map f xs) = None"
  by (cases xs) (simp, metis append_Cons append_Nil deleting_append list.distinct(1) list.simps(9))

lemma paired_map: "(\<And>x. deleting [f x] = None) \<Longrightarrow> paired (map f xs)"
  by (induction xs) (simp_all add: deleting_map)

lemma monitor_keeps_paired:
  assumes e: "exec env c s = Inr (ds, s')" and c: "monitor_call c" and p: "paired (c # cs)"
  shows "paired (ds @ cs)"
    and "deleting (ds @ cs) = None \<or> (\<exists>q. c = UnlockCreation q \<and> ds = [] \<and> deleting cs = Some q)"
proof -
  have cs: "paired cs" "deleting cs = None \<or> (\<exists>q. c = UnlockCreation q \<and> deleting cs = Some q)"
    using p by (auto split: option.splits)
  have "paired ds \<and> deleting ds = None \<and> (\<forall>q. c = UnlockCreation q \<longrightarrow> ds = [])"
  proof (cases c)
    case MonitorPass
    with e show ?thesis by (auto simp: paired_append paired_map deleting_append deleting_map)
  next
    case DataPass
    with e show ?thesis by (auto simp: paired_map deleting_map)
  qed (use e c in \<open>auto simp: res_simps split: if_splits\<close>)
  with cs show "paired (ds @ cs)"
    "deleting (ds @ cs) = None \<or> (\<exists>q. c = UnlockCreation q \<and> ds = [] \<and> deleting cs = Some q)"
    by (auto simp: deleting_append intro: paired_append)
qed

lemma check_keeps_creation:
  "checkAndUnlockThreadAwaitingData env p s = Inr s' \<Longrightarrow> creation_waiters s' q = creation_waiters s q"
  by (auto simp: checkAndUnlockThreadAwaitingData_def res_simps creation_waiters_def
      dest!: unlock_loop_conserves split: option.splits)

lemma creation_waiters_same: "srv_fm s' = srv_fm s \<Longrightarrow> creation_waiters s' q = creation_waiters s q"
  by (simp add: creation_waiters_def)

lemma exec_waiters:
  assumes "exec env c s = Inr (ds, s')" and "t \<in> set (creation_waiters s' p)"
  shows "t \<in> set (creation_waiters s p) \<or> c = AddCreation p t"
proof (cases c)
  case (AddCreation q u)
  with assms show ?thesis by (auto simp: creation_waiters_add split: if_splits)
next
  case (AddData q u n)
  with assms show ?thesis by (auto simp: creation_waiters_def addThreadAwaitingData_def Let_def)
next
  case (UnlockCreation q)
  with assms obtain cm where "s' = deleteFileAwaitingCreation q (s\<lparr>srv_clients := cm\<rparr>)"
    by (auto simp: res_simps unlockThreadAwaitingCreation_Inr)
  with assms(2) creation_waiters_same[of "s\<lparr>srv_clients := cm\<rparr>" s] show ?thesis
    by (auto simp: creation_waiters_delete split: if_splits)
next
  case (DeleteCreation q)
  with assms show ?thesis by (auto simp: creation_waiters_delete split: if_splits)
next
  case (CheckData q)
  with assms show ?thesis by (auto simp: res_simps check_keeps_creation)
next
  case (IncreaseClose q)
  with assms show ?thesis
    by (auto simp: res_simps increaseCloseCount_def Let_def creation_waiters_def split: if_splits)
qed (use assms in \<open>auto simp: res_simps Let_def isCommitted_Inr reply_def creation_waiters_def split: if_splits\<close>)

definition races :: "tid \<Rightarrow> choice \<Rightarrow> server_threads \<Rightarrow> bool" where
  "races t ch x \<longleftrightarrow> ch = Main \<and>
     (case deleting (monitor_calls x) of None \<Rightarrow> False | Some p \<Rightarrow> take 1 (main_calls x) = [AddCreation p t])"

fun never_races :: "env \<Rightarrow> tid \<Rightarrow> choice list \<Rightarrow> server_threads \<Rightarrow> bool" where
  "never_races env t [] x = True"
| "never_races env t (ch # chs) x =
     (\<not> races t ch x \<and> (case take_turn env ch x of None \<Rightarrow> True | Some (_, y) \<Rightarrow> never_races env t chs y))"

lemma late_after_race:
  assumes st: "take_turn env ch x = Some (es, y)" and inv: "threads_inv x" and p: "paired (monitor_calls x)"
  shows "paired (monitor_calls y)" and "\<not> late x t \<Longrightarrow> \<not> races t ch x \<Longrightarrow> \<not> late y t"
proof -
  have "paired (monitor_calls y) \<and> (\<not> late x t \<longrightarrow> \<not> races t ch x \<longrightarrow> \<not> late y t)"
  proof (cases ch)
    case Main
    with st obtain c cs ds s where m: "main_calls x = c # cs" "exec env c (th_server x) = Inr (ds, s)"
      "y = x\<lparr>main_calls := ds @ cs, th_server := s\<rparr>"
      by (auto split: list.splits sum.splits)
    with exec_waiters[OF m(2), of t] p Main show ?thesis
      by (auto simp: late_def races_def split: option.splits)
  next
    case Monitor
    with st obtain c cs ds s where m: "monitor_calls x = c # cs" "exec env c (th_server x) = Inr (ds, s)"
      "y = x\<lparr>monitor_calls := ds @ cs, th_server := s\<rparr>"
      by (auto split: list.splits sum.splits)
    have mc: "monitor_call c" using inv m(1) by (auto simp: threads_inv_def)
    note k = monitor_keeps_paired[OF m(2) mc p[unfolded m(1)]]
    from k(2) have "\<not> late y t"
    proof
      assume "\<exists>q. c = UnlockCreation q \<and> ds = [] \<and> deleting cs = Some q"
      then obtain q where q: "c = UnlockCreation q" "ds = []" "deleting cs = Some q" by blast
      with m(2) have "creation_waiters s q = []"
        by (auto simp: res_simps unlockThreadAwaitingCreation_Inr creation_waiters_delete)
      with q m(3) show ?thesis by (simp add: late_def)
    qed (simp add: late_def m(3))
    with k(1) m(3) show ?thesis by simp
  next
    case (Collect u)
    with st p show ?thesis
      by (auto simp: late_def take_answer_def creation_waiters_def split: option.splits list.splits)
  qed (use st p in \<open>auto simp: late_def creation_waiters_def split: if_splits option.splits\<close>)
  then show "paired (monitor_calls y)" "\<not> late x t \<Longrightarrow> \<not> races t ch x \<Longrightarrow> \<not> late y t" by blast+
qed

lemma never_late_unless_raced:
  "never_races env t chs x \<Longrightarrow> threads_inv x \<Longrightarrow> paired (monitor_calls x) \<Longrightarrow> \<not> late x t \<Longrightarrow> never_late env t chs x"
proof (induction chs arbitrary: x)
  case (Cons ch chs)
  then show ?case using late_after_race[of env ch x] step_accounts(2)[OF Cons.prems(2), of env ch]
    by (auto split: option.splits)
qed simp

definition race_run :: "choice list" where
  "race_run =
     [Fetch (HandshakeAnonymous 1 1), Main, Main, Fetch (HandshakeAnonymous 2 2), Main, Main,
      Fetch (Open 2 3 ''/d/n''), Main, Main,
      Fetch (Open 1 3 ''/d/n''), Main,
      Disk ((''/d/n'', Reg []) # sample_fs),
      Wake, Monitor, Monitor, Monitor,
      Main,
      Monitor, Monitor, Collect 2]"

lemma race_facts:
  "case run_turns sample_env race_run (threads_start [] sample_fs) of None \<Rightarrow> False
   | Some (es, y) \<Rightarrow> es = [Asked 2, Asked 1, Collected 2] \<and> outstanding y 1 = 0 \<and> main_calls y = [] \<and> monitor_calls y = [] \<and>
      fs_exists (srv_fs (th_server y)) ''/d/n''"
  by code_simp

lemma nothing_uninvited:
  assumes "run_turns env chs x = Some (es, y)" and "threads_inv x" and "outstanding x t = 0" and "Asked t \<notin> set es"
  shows "Collected t \<notin> set es"
proof -
  have "count_list es (Collected t) = 0"
    using runs_account(1)[OF assms(1,2), of t] assms(3,4) by (simp add: count_list_0_iff)
  then show ?thesis by (simp add: count_list_0_iff)
qed

definition calm_run :: "choice list" where
  "calm_run = 
     [Fetch (HandshakeAnonymous 1 1), Main, Main,
      Fetch (Open 1 3 ''/d/n''), Main, Main, Disk ((''/d/n'', Reg []) # sample_fs),
      Wake, Monitor, Monitor, Monitor, Monitor, Collect 1]"

lemma calm_facts:
  "case run_turns sample_env calm_run (threads_start [] sample_fs) of None \<Rightarrow> False
   | Some (es, y) \<Rightarrow> es = [Asked 1, Collected 1] \<and> outstanding y 1 = 0"
  "never_races sample_env 1 calm_run (threads_start [] sample_fs)"
  by code_simp+

subsection \<open>The next pass of the monitor\<close>

lemma exec_exists: "exec env c s = Inr (ds, s') \<Longrightarrow> fs_exists (srv_fs s) p \<Longrightarrow> fs_exists (srv_fs s') p"
proof (cases c)
  case (SetCommitted q)
  assume "exec env c s = Inr (ds, s')" "fs_exists (srv_fs s) p"
  then obtain f where f: "create_directories (parent_path (metadata_path env q)) (srv_fs s) = Inr f"
      "srv_fs s' = touch (metadata_path env q) f"
    by (auto simp: SetCommitted res_simps getAndCreateMetadataPath_def Let_def)
  have "fs_exists f p" using only_adds_exists[OF create_directories_only_adds[OF f(1)]] \<open>fs_exists (srv_fs s) p\<close> .
  then show ?thesis by (simp add: f(2) fs_exists_def touch_def umap_simps)
next
  case (IncreaseClose q)
  assume "exec env c s = Inr (ds, s')" "fs_exists (srv_fs s) p"
  then obtain f new where f: "create_directories (parent_path (metadata_path env q)) (srv_fs s) = Inr f"
      "srv_fs s' = write_text (metadata_path env q) new f"
    by (auto simp: IncreaseClose res_simps increaseCloseCount_def getAndCreateMetadataPath_def Let_def split: if_splits)
  have "fs_exists f p" using only_adds_exists[OF create_directories_only_adds[OF f(1)]] \<open>fs_exists (srv_fs s) p\<close> .
  then show ?thesis by (simp add: f(2) fs_exists_def write_text_def umap_simps)
qed (auto simp: res_simps Let_def deleteFileAwaitingCreation_def addThreadAwaitingCreation_def
       addThreadAwaitingData_def reply_def same_but_answers_def intro: only_adds_exists
       dest!: same_isCommitted same_unlockCreation same_checkAndUnlock split: if_splits)

lemma exec_buffered:
  assumes "exec env c s = Inr (ds, s')" and "c \<noteq> RemoveClient t" and "0 < buffered (srv_clients s) t"
  shows "0 < buffered (srv_clients s') t"
proof -
  from assms(3) obtain b where b: "bufs_response (srv_clients s) t = Some b" "b \<noteq> []"
    by (auto simp: buffered_def split: option.splits)
  consider (r) u where "c = RemoveClient u" | (g) u a where "c = RegisterClient u a"
    | (k) "\<And>t. c \<noteq> RemoveClient t" "\<And>t a. c \<noteq> RegisterClient t a" by metis
  then show ?thesis
  proof cases
    case k
    have "answers_grow (bufs_response (srv_clients s)) (bufs_response (srv_clients s'))"
      using exec_keeps[OF assms(1) k] by (simp add: keeps_def)
    with b(1) obtain vs where "bufs_response (srv_clients s') t = Some (b @ vs)"
      unfolding answers_grow_def by blast
    with b show ?thesis by (simp add: buffered_def)
  qed (use assms b in \<open>auto simp: buffered_def remove_client_def register_new_client_def map_emplace_apply\<close>)
qed

lemma reply_all_buffered: "reply_all ts v cm = Inr cm' \<Longrightarrow> t \<in> set ts \<Longrightarrow> 0 < buffered cm' t"
  using buffered_reply_all[of ts v cm cm' t] count_list_0_iff[of ts t] by fastforce

text \<open>Who waits for a path goes on waiting, or is answered, whatever call is made but the deletion.\<close>

lemma exec_waits:
  assumes "exec env c s = Inr (ds, s')" and "c \<noteq> DeleteCreation p" and w: "t \<in> set (creation_waiters s p)"
  shows "(t \<in> set (creation_waiters s' p) \<and> c \<noteq> UnlockCreation p) \<or> 0 < buffered (srv_clients s') t"
proof (cases c)
  case (UnlockCreation q)
  with assms(1) obtain cm where cm: "reply_all (creation_waiters s q) 1 (srv_clients s) = Inr cm"
      "s' = deleteFileAwaitingCreation q (s\<lparr>srv_clients := cm\<rparr>)"
    by (auto simp: res_simps unlockThreadAwaitingCreation_Inr)
  have "creation_waiters s' p = creation_waiters s p" if "q \<noteq> p"
    using that cm(2) creation_waiters_same[of "s\<lparr>srv_clients := cm\<rparr>" s p] by (simp add: creation_waiters_delete)
  moreover have "buffered (srv_clients s') t = buffered cm t" by (simp add: cm(2) deleteFileAwaitingCreation_def)
  ultimately show ?thesis using w reply_all_buffered[OF cm(1)] UnlockCreation by (cases "q = p") auto
next
  case (AddCreation q u)
  with assms show ?thesis by (auto simp: creation_waiters_add)
next
  case (AddData q u n)
  with assms show ?thesis by (auto simp: creation_waiters_def addThreadAwaitingData_def Let_def)
next
  case (CheckData q)
  with assms show ?thesis by (auto simp: res_simps check_keeps_creation)
next
  case (IncreaseClose q)
  with assms show ?thesis
    by (auto simp: res_simps increaseCloseCount_def Let_def creation_waiters_def split: if_splits)
next
  case (DeleteCreation q)
  with assms show ?thesis by (auto simp: creation_waiters_delete)
qed (use assms in \<open>auto simp: res_simps Let_def isCommitted_Inr reply_def creation_waiters_def split: if_splits\<close>)

definition to_poll :: "string \<Rightarrow> method_call list \<Rightarrow> bool" where
  "to_poll p cs \<longleftrightarrow> MonitorPass \<in> set cs \<or> PollCreation p \<in> set cs \<or> UnlockCreation p \<in> set cs"

definition on_its_way :: "tid \<Rightarrow> string \<Rightarrow> server_threads \<Rightarrow> bool" where
  "on_its_way t p x \<longleftrightarrow>
     t \<in> set (creation_waiters (th_server x) p) \<and> to_poll p (monitor_calls x) \<or>
     0 < buffered (srv_clients (th_server x)) t"

lemma step_on_its_way:
  assumes st: "take_turn env ch x = Some (es, y)" and inv: "threads_inv x" and nl: "\<not> late x t"
    and ex: "fs_exists (srv_fs (th_server x)) p" and w: "on_its_way t p x"
  shows "Collected t \<in> set es \<or> on_its_way t p y"
proof (cases ch)
  case (Fetch m)
  with st w show ?thesis by (auto simp: on_its_way_def split: if_splits)
next
  case Main
  with st obtain c cs ds s where m: "main_calls x = c # cs" "exec env c (th_server x) = Inr (ds, s)"
    "y = x\<lparr>main_calls := ds @ cs, th_server := s\<rparr>"
    by (auto split: list.splits sum.splits)
  have "main_call c" using inv m(1) by (auto simp: threads_inv_def)
  then have c: "c \<noteq> DeleteCreation p" by auto
  have "c \<noteq> RemoveClient t" if "0 < buffered (srv_clients (th_server x)) t"
    using inv that m(1) by (auto simp: threads_inv_def outstanding_def owed_def)
  with w exec_waits[OF m(2) c, of t] exec_buffered[OF m(2), of t] m(3) show ?thesis
    by (auto simp: on_its_way_def)
next
  case Wake
  with st w show ?thesis by (auto simp: on_its_way_def to_poll_def split: if_splits)
next
  case Monitor
  with st obtain c cs ds s where m: "monitor_calls x = c # cs" "exec env c (th_server x) = Inr (ds, s)"
    "y = x\<lparr>monitor_calls := ds @ cs, th_server := s\<rparr>"
    by (auto split: list.splits sum.splits)
  have mc: "monitor_call c" using inv m(1) by (auto simp: threads_inv_def)
  show ?thesis
  proof (cases "0 < buffered (srv_clients (th_server x)) t")
    case True
    moreover have "c \<noteq> RemoveClient t" using mc by auto
    ultimately show ?thesis using exec_buffered[OF m(2), of t] m(3) by (simp add: on_its_way_def)
  next
    case False
    with w have t: "t \<in> set (creation_waiters (th_server x) p)" "to_poll p (c # cs)"
      by (auto simp: on_its_way_def m(1))
    have c: "c \<noteq> DeleteCreation p" using nl t(1) by (auto simp: late_def m(1))
    have "to_poll p (ds @ cs) \<or> c = UnlockCreation p"
    proof (cases "to_poll p cs")
      case False
      with t(2) consider "c = MonitorPass" | "c = PollCreation p" | "c = UnlockCreation p"
        by (auto simp: to_poll_def)
      then show ?thesis
      proof cases
        case 1
        from t(1) obtain ts where "map_of (thread_awaiting_file_creation (srv_fm (th_server x))) p = Some ts"
          by (cases "map_of (thread_awaiting_file_creation (srv_fm (th_server x))) p") (auto simp: creation_waiters_def)
        from map_of_SomeD[OF this] have "p \<in> set (getFileAwaitingCreation (th_server x))"
          by (force simp: getFileAwaitingCreation_def)
        with 1 m(2) show ?thesis by (auto simp: to_poll_def)
      qed (use m(2) ex in \<open>auto simp: to_poll_def\<close>)
    qed (auto simp: to_poll_def)
    with exec_waits[OF m(2) c t(1)] m(3) show ?thesis by (auto simp: on_its_way_def)
  qed
next
  case (Collect u)
  with st w show ?thesis
    by (auto simp: on_its_way_def take_answer_def creation_waiters_def buffered_def
        split: option.splits list.splits)
next
  case (Disk f)
  with st w show ?thesis by (auto simp: on_its_way_def creation_waiters_def)
qed

lemma step_exists:
  "take_turn env ch x = Some (es, y) \<Longrightarrow> fs_exists (srv_fs (th_server x)) p \<Longrightarrow>
     (\<And>f. ch = Disk f \<Longrightarrow> fs_exists f p) \<Longrightarrow> fs_exists (srv_fs (th_server y)) p"
  by (cases ch) (auto simp: exec_exists take_answer_def split: if_splits list.splits sum.splits option.splits)

lemma runs_on_its_way:
  "run_turns env chs x = Some (es, y) \<Longrightarrow> threads_inv x \<Longrightarrow> paired (monitor_calls x) \<Longrightarrow> \<not> late x t \<Longrightarrow>
   never_races env t chs x \<Longrightarrow> fs_exists (srv_fs (th_server x)) p \<Longrightarrow>
   (\<And>f. Disk f \<in> set chs \<Longrightarrow> fs_exists f p) \<Longrightarrow> on_its_way t p x \<Longrightarrow>
     Collected t \<in> set es \<or> on_its_way t p y"
proof (induction chs arbitrary: x es)
  case (Cons ch chs)
  from Cons.prems(1) obtain e w es' where s: "take_turn env ch x = Some (e, w)"
      "run_turns env chs w = Some (es', y)" "es = e @ es'" by (rule runs_Cons)
  from Cons.prems(5) s(1) have nr: "\<not> races t ch x" "never_races env t chs w" by auto
  note l = late_after_race[OF s(1) Cons.prems(2,3)]
  from step_on_its_way[OF s(1) Cons.prems(2,4,6,8)] show ?case
  proof
    assume "on_its_way t p w"
    from Cons.IH[OF s(2) step_accounts(2)[OF Cons.prems(2) s(1)] l(1) l(2)[OF Cons.prems(4) nr(1)] nr(2) _ _ this]
      step_exists[OF s(1) Cons.prems(6)] Cons.prems(7) s(3)
    show ?case by auto
  qed (simp add: s(3))
qed simp

lemma runs_append:
  "run_turns env (chs @ chs') x = Some (es, z) \<longleftrightarrow>
     (\<exists>es1 y es2. run_turns env chs x = Some (es1, y) \<and> run_turns env chs' y = Some (es2, z) \<and> es = es1 @ es2)"
  by (induction chs arbitrary: x es) (auto split: option.splits)

lemma races_append:
  "run_turns env chs x = Some (es, y) \<Longrightarrow>
     never_races env t (chs @ chs') x = (never_races env t chs x \<and> never_races env t chs' y)"
proof (induction chs arbitrary: x es)
  case (Cons ch chs)
  from Cons.prems obtain e w es' where "take_turn env ch x = Some (e, w)"
      "run_turns env chs w = Some (es', y)" by (rule runs_Cons)
  with Cons.IH show ?case by simp
qed simp

lemma runs_paired:
  "run_turns env chs x = Some (es, y) \<Longrightarrow> threads_inv x \<Longrightarrow> paired (monitor_calls x) \<Longrightarrow> paired (monitor_calls y)"
proof (induction chs arbitrary: x es)
  case (Cons ch chs)
  from Cons.prems(1) obtain e w es' where "take_turn env ch x = Some (e, w)" "run_turns env chs w = Some (es', y)"
    by (rule runs_Cons)
  with Cons.IH step_accounts(2)[OF Cons.prems(2)] late_after_race(1)[OF _ Cons.prems(2,3)] show ?case by blast
qed simp

lemma threads_server_inv:
  assumes "threads_inv x"
  shows "server_inv (th_server x)"
proof -
  have "owed (th_server x) t \<le> 1 \<and> (0 < owed (th_server x) t \<longrightarrow> t \<in> registered (th_server x))" for t
  proof -
    have "outstanding x t \<le> 1" "0 < outstanding x t \<longrightarrow> t \<in> registered (th_server x)"
      using assms by (simp_all add: threads_inv_def)
    then show ?thesis by (simp add: outstanding_def)
  qed
  with assms show ?thesis by (simp add: server_inv_def threads_inv_def tables_wf_def)
qed

definition wait_run :: "choice list" where
  "wait_run = take 7 calm_run"

lemma wait_facts:
  "case run_turns sample_env wait_run (threads_start [] sample_fs) of None \<Rightarrow> False
   | Some (es, x) \<Rightarrow> es = [Asked 1] \<and> monitor_calls x = [] \<and> creation_waiters (th_server x) ''/d/n'' = [1] \<and>
       fs_exists (srv_fs (th_server x)) ''/d/n'' \<and>
       never_races sample_env 1 [Wake, Monitor, Monitor, Monitor, Monitor, Monitor] x \<and>
       (case run_turns sample_env [Wake, Monitor, Monitor, Monitor, Monitor, Monitor] x of None \<Rightarrow> False
        | Some (es', y) \<Rightarrow> es' = [] \<and> monitor_calls y = [])"
  by code_simp

subsection \<open>Properties\<close>

text \<open>A request served call by call, as the handler makes its calls, reaches exactly the state the
  handler reaches when nothing comes in between: with no other thread, the steps of the handlers
  and the handlers as single steps are the same.\<close>

theorem served_in_steps:
  assumes "decode_request req = Some m"
  shows "serve env req s = Inr s' \<longleftrightarrow> calls_run env ([Handle m], s) ([], s')"
  using decoded_served[OF assms] by (simp add: calls_run_iff rbind_right del: rbind.simps)

lemma served_in_steps_witness:
  "calls_run sample_env ([Handle (Open 1 3 ''/d/n'')], joined_server) ([], asking_server)"
proof -
  let ?m = "Open 1 3 ''/d/n''"
  have "decode_request (slot_of (\<lambda>_. CHR 0x00) (request_text ?m)) = Some ?m" by code_simp
  moreover have "fields_ok ?m" by code_simp
  from serve_sent[OF this, of sample_env "\<lambda>_. CHR 0x00" joined_server]
  have "serve sample_env (slot_of (\<lambda>_. CHR 0x00) (request_text ?m)) joined_server = Inr asking_server"
    using joined_opens by simp
  ultimately show ?thesis using served_in_steps by blast
qed

text \<open>C13: However the calls of the request loop and of the monitor are interleaved, a client gets at most
  one answer to each question it asks: the answers it has collected and the one that is still to
  come are never more than its questions, and never more than one is still to come.\<close>

theorem never_answered_twice:
  assumes "run_turns env chs (threads_start eng f) = Some (es, y)" and "umap_wf eng"
  shows "count_list es (Collected t) + outstanding y t \<le> count_list es (Asked t) \<and> outstanding y t \<le> 1"
  using runs_account(1)[OF assms(1) start_threads_inv[OF assms(2)], of t]
    runs_bound[OF runs_inv[OF assms(1) start_threads_inv[OF assms(2)]], of t]
  by (simp add: start_outstanding)

lemma never_answered_twice_witness:
  "\<exists>es y. run_turns sample_env race_run (threads_start [] sample_fs) = Some (es, y) \<and>
     count_list es (Collected 2) = 1 \<and> outstanding y 2 = 0"
proof -
  obtain es y where r: "run_turns sample_env race_run (threads_start [] sample_fs) = Some (es, y)"
    and e: "es = [Asked 2, Asked 1, Collected 2]" using race_facts by (auto split: option.splits)
  from never_answered_twice[OF r, of 2] r show ?thesis by (simp add: e)
qed

text \<open>C11: No answer is lost either, whatever the schedule, but in one case: every question of a client has
  been answered and collected, or its answer is still to come, unless the request loop once put the
  client on the list of a path exactly when the monitor, having woken the list of that path, was
  about to delete it.\<close>

theorem answered_unless_raced:
  assumes "run_turns env chs (threads_start eng f) = Some (es, y)" and "umap_wf eng"
    and "never_races env t chs (threads_start eng f)"
  shows "count_list es (Asked t) = count_list es (Collected t) + outstanding y t"
proof -
  have "paired (monitor_calls (threads_start eng f))" "\<not> late (threads_start eng f) t"
    by (simp_all add: threads_start_def late_def)
  from never_late_unless_raced[OF assms(3) start_threads_inv[OF assms(2)] this]
    runs_account(2)[OF assms(1) start_threads_inv[OF assms(2)], of t] show ?thesis
    by (simp add: start_outstanding)
qed

lemma answered_unless_raced_witness:
  "\<exists>es y. run_turns sample_env calm_run (threads_start [] sample_fs) = Some (es, y) \<and>
     es = [Asked 1, Collected 1] \<and> outstanding y 1 = 0"
proof -
  obtain es y where r: "run_turns sample_env calm_run (threads_start [] sample_fs) = Some (es, y)"
    and e: "es = [Asked 1, Collected 1]" using calm_facts(1) by (auto split: option.splits)
  from answered_unless_raced[OF r _ calm_facts(2)] r show ?thesis by (simp add: e)
qed

text \<open>C40: That case happens: two clients open a file that does not exist yet, the file is created, and the
  monitor wakes the first one between the test and the registration of the second. The second
  one has asked, has no answer, the file is there, both threads of the server are idle, and under
  no schedule it will ever get one.\<close>

theorem race_strands_a_client:
  "\<exists>chs es y. run_turns sample_env chs (threads_start [] sample_fs) = Some (es, y) \<and>
     Asked 1 \<in> set es \<and> Collected 1 \<notin> set es \<and> fs_exists (srv_fs (th_server y)) ''/d/n'' \<and>
     main_calls y = [] \<and> monitor_calls y = [] \<and>
     (\<nexists>chs' es' z. run_turns sample_env chs' y = Some (es', z) \<and> Asked 1 \<notin> set es' \<and> Collected 1 \<in> set es')"
proof -
  let ?x = "threads_start [] sample_fs"
  obtain es y where r: "run_turns sample_env race_run ?x = Some (es, y)"
    and f: "es = [Asked 2, Asked 1, Collected 2]" "outstanding y 1 = 0" "main_calls y = []" "monitor_calls y = []"
      "fs_exists (srv_fs (th_server y)) ''/d/n''"
    using race_facts by (auto split: option.splits)
  have "threads_inv y" by (rule runs_inv[OF r start_threads_inv]) simp
  with nothing_uninvited f(2) have "\<nexists>chs' es' z. run_turns sample_env chs' y = Some (es', z) \<and>
      Asked 1 \<notin> set es' \<and> Collected 1 \<in> set es'" by blast
  with r f show ?thesis by (intro exI[of _ race_run] exI[of _ es] exI[of _ y]) simp
qed

text \<open>C12: A client that waits for a file that exists by now is answered by the next pass of the monitor: if
  the monitor starts a pass and the file stays, then under any schedule in which that client does
  not fall into the race of registration and deletion, when the monitor is idle again the client has
  collected an answer or has one to collect.\<close>

theorem next_pass_answers:
  assumes "run_turns env chs0 (threads_start eng f) = Some (es0, x)" and "umap_wf eng"
    and "monitor_calls x = []" and "t \<in> set (creation_waiters (th_server x) p)"
    and "fs_exists (srv_fs (th_server x)) p" and "\<And>g. Disk g \<in> set chs \<Longrightarrow> fs_exists g p"
    and "run_turns env (Wake # chs) x = Some (es, y)" and "monitor_calls y = []"
    and "never_races env t (Wake # chs) x"
  shows "Collected t \<in> set es \<or> 0 < buffered (srv_clients (th_server y)) t"
proof -
  have inv: "threads_inv x" by (rule runs_inv[OF assms(1) start_threads_inv[OF assms(2)]])
  let ?w = "x\<lparr>monitor_calls := [MonitorPass]\<rparr>"
  from assms(3,7,9) obtain es' where r: "run_turns env chs ?w = Some (es', y)" "es = es'" "never_races env t chs ?w"
    by (auto split: option.splits)
  have "threads_inv ?w" using step_accounts(2)[OF inv, of env Wake "[]" ?w] assms(3) by simp
  moreover have "on_its_way t p ?w" using assms(4) by (simp add: on_its_way_def to_poll_def)
  moreover have "paired (monitor_calls ?w)" "\<not> late ?w t" by (simp_all add: late_def)
  ultimately have "Collected t \<in> set es' \<or> on_its_way t p y"
    using runs_on_its_way[OF r(1)] r(3) assms(5,6) by simp
  then show ?thesis by (simp add: r(2) on_its_way_def to_poll_def assms(8))
qed

lemma next_pass_answers_witness:
  "\<exists>es x y. run_turns sample_env wait_run (threads_start [] sample_fs) = Some (es, x) \<and>
     run_turns sample_env [Wake, Monitor, Monitor, Monitor, Monitor, Monitor] x = Some ([], y) \<and>
     0 < buffered (srv_clients (th_server y)) 1"
proof -
  let ?chs = "[Monitor, Monitor, Monitor, Monitor, Monitor]"
  obtain es x y where r: "run_turns sample_env wait_run (threads_start [] sample_fs) = Some (es, x)"
      "run_turns sample_env (Wake # ?chs) x = Some ([], y)" "monitor_calls y = []"
    and x: "monitor_calls x = []" "creation_waiters (th_server x) ''/d/n'' = [1]"
      "fs_exists (srv_fs (th_server x)) ''/d/n''" "never_races sample_env 1 (Wake # ?chs) x"
    using wait_facts by (auto simp del: run_turns.simps never_races.simps split: option.splits)
  from next_pass_answers[OF r(1) _ x(1) _ x(3) _ r(2,3) x(4)] x(2)
  have "Collected 1 \<in> set ([] :: event list) \<or> 0 < buffered (srv_clients (th_server y)) 1" by simp
  with r show ?thesis by (intro exI[of _ es] exI[of _ x] exI[of _ y]) simp
qed

subsection \<open>Nothing waits but for the lock file\<close>

named_theorems no_block \<comment> \<open>a function that never waits\<close>

lemma rbind_no_block: "rbind x f = Inl Blocked \<longleftrightarrow> x = Inl Blocked \<or> (\<exists>v. x = Inr v \<and> f v = Inl Blocked)"
  by (cases x) simp_all

lemma at_or_throw_no_block [no_block]: "at_or_throw x \<noteq> Inl Blocked"
  by (cases x) simp_all

lemma match_no_block [no_block]: "match_globs g s \<noteq> Inl Blocked"
proof -
  have "match_from glob t gs ts \<noteq> Inl Blocked" for glob t gs ts
    by (induction glob t gs ts rule: match_from.induct) (auto simp: Let_def)
  then show ?thesis by (simp add: match_globs_def)
qed

lemma producer_no_block [no_block]: "isProducer cm eng p t \<noteq> Inl Blocked"
proof -
  have "glob_producer a q kes \<noteq> Inl Blocked" for a q kes
    by (induction a q kes rule: glob_producer.induct) (auto simp: rbind_no_block no_block split: if_splits)
  then show ?thesis by (auto simp: isProducer_def get_app_name_def rbind_no_block no_block split: option.splits)
qed

lemma add_producer_no_block [no_block]: "addProducer p a eng \<noteq> Inl Blocked"
proof -
  have "inherit_rules eng q kes x \<noteq> Inl Blocked" for q kes x
    by (induction eng q kes x rule: inherit_rules.induct) (auto simp: rbind_no_block no_block split: if_splits)
  then show ?thesis by (auto simp: addProducer_def newFile_def rbind_no_block)
qed

lemma directories_no_block [no_block]: "create_directories p f \<noteq> Inl Blocked"
  using create_directories_error[of p f Blocked] by auto

lemma token_no_block [no_block]: "getAndCreateMetadataPath env p f \<noteq> Inl Blocked"
  by (auto simp: getAndCreateMetadataPath_def rbind_no_block no_block Let_def)

lemma is_committed_no_block:
  "is_committed d env eng p f \<noteq> Inl Blocked" "deps_committed d env eng ds b f \<noteq> Inl Blocked"
proof (induction d env eng p f and d env eng ds b f rule: is_committed_deps_committed.induct)
  case (2 d env eng path f)
  then show ?case by (auto simp: rbind_no_block no_block Let_def split: if_splits)
next
  case (4 d env eng fl fls commit_computed f)
  then show ?case by (cases commit_computed) (auto simp: rbind_no_block)
qed simp_all

lemma isCommitted_no_block [no_block]: "isCommitted env p s \<noteq> Inl Blocked"
  by (auto simp: isCommitted_def rbind_no_block is_committed_no_block)

lemma size_no_block [no_block]: "get_file_size_if_exists f p \<noteq> Inl Blocked" "filesize_of f p \<noteq> Inl Blocked"
  by (auto simp: get_file_size_if_exists_def filesize_of_def split: option.splits node.splits)

text \<open>A check of the data waits on no ring, when those of the threads in the list have room.\<close>

lemma unlock_loop_no_block:
  "umap_wf items \<Longrightarrow> \<forall>t \<in> fst ` set items. has_room (srv_clients s) t \<Longrightarrow>
     unlock_loop env path items s \<noteq> Inl Blocked"
proof (induction items arbitrary: s)
  case (Cons it items)
  obtain t e where it: "it = (t, e)" by (cases it)
  from Cons.prems(1) have t: "t \<notin> fst ` set items" and wf: "umap_wf items" by (auto simp: it umap_wf_def)
  have room: "has_room (srv_clients s) t" using Cons.prems(2) by (simp add: it)
  show ?case
  proof
    assume b: "unlock_loop env path (it # items) s = Inl Blocked"
    have reply: "reply_to_client t v (srv_clients s) \<noteq> Inl Blocked" for v
      using reply_room[OF room, of v] by auto
    from b obtain c s1 where c: "isCommitted env path s = Inr (c, s1)"
      and rest: "(\<exists>v cm. reply_to_client t v (srv_clients s1) = Inr cm \<and>
          unlock_loop env path items (s1\<lparr>srv_clients := cm\<rparr>) = Inl Blocked) \<or>
        (\<exists>v. reply_to_client t v (srv_clients s1) = Inl Blocked) \<or> unlock_loop env path items s1 = Inl Blocked"
      by (auto simp: it rbind_no_block no_block Let_def split: if_splits)
    have s1: "srv_clients s1 = srv_clients s" using c by (auto simp: isCommitted_Inr)
    from rest consider (more) v cm where "reply_to_client t v (srv_clients s) = Inr cm"
        "unlock_loop env path items (s1\<lparr>srv_clients := cm\<rparr>) = Inl Blocked"
      | (stay) "unlock_loop env path items s1 = Inl Blocked" using reply by (auto simp: s1)
    then show False
    proof cases
      case more
      have "\<forall>u \<in> fst ` set items. has_room cm u"
      proof
        fix u assume u: "u \<in> fst ` set items"
        with t have "u \<notin> {t}" by blast
        moreover have "has_room (srv_clients s) u" using u Cons.prems(2) by (auto simp: it)
        ultimately show "has_room cm u" by (simp add: reply_answered[OF more(1)] has_room_answered)
      qed
      with Cons.IH[OF wf, of "s1\<lparr>srv_clients := cm\<rparr>"] more(2) show False by simp
    next
      case stay
      with Cons.IH[OF wf, of s1] Cons.prems(2) show False by (simp add: s1 it)
    qed
  qed
qed simp

lemma check_no_block:
  assumes "server_inv s"
  shows "checkAndUnlockThreadAwaitingData env p s \<noteq> Inl Blocked"
proof (cases "map_of (thread_awaiting_data (srv_fm s)) p")
  case (Some th)
  then have w: "data_waiters s p = th" by (simp add: data_waiters_def)
  have "umap_wf th" using assms Some by (auto simp: server_inv_def waiting_wf_def)
  moreover have "has_room (srv_clients s) t" if "t \<in> fst ` set th" for t
    using owed_in_list_room[OF assms, of t] data_waiter_counted[of t s p] that w by simp
  ultimately have "unlock_loop env p th s \<noteq> Inl Blocked" by (intro unlock_loop_no_block) blast+
  with Some show ?thesis by (auto simp: checkAndUnlockThreadAwaitingData_def rbind_no_block)
qed (simp add: checkAndUnlockThreadAwaitingData_def)

lemma handle_no_block [no_block]: "handle_calls env m s \<noteq> Inl Blocked"
  by (cases m) (auto simp: close_calls_def consent_calls_def open_calls_def get_produced_files_def rbind_no_block no_block)

text \<open>Answering, and waking the threads that wait for a path to be created, even succeed.\<close>

lemma reply_succeeds:
  assumes inv: "threads_inv x" and "c = UnlockCreation p \<or> c = ReplyTo t v"
    and "take 1 (main_calls x) = [c] \<or> take 1 (monitor_calls x) = [c]"
  shows "\<exists>s. exec env c (th_server x) = Inr ([], s)"
proof (cases "c = UnlockCreation p")
  case True
  with creation_wakes[OF threads_server_inv[OF inv], of p] show ?thesis by auto
next
  case False
  with assms(2) have c: "c = ReplyTo t v" by simp
  have "c \<in> set (main_calls x) \<or> c \<in> set (monitor_calls x)" using assms(3) in_set_takeD[of c 1] by auto
  moreover have "c \<notin> set (monitor_calls x)" using inv by (auto simp: threads_inv_def c)
  ultimately have "0 < pending_for (main_calls x) t"
    unfolding pending_for_def by (metis c count_list_0_iff gr0I image_eqI list.set_map pend.simps(5))
  moreover have "outstanding x t \<le> 1" using inv by (simp add: threads_inv_def)
  ultimately have "owed (th_server x) t = 0" "0 < outstanding x t" by (simp_all add: outstanding_def)
  moreover from this(2) inv have "t \<in> registered (th_server x)" by (simp add: threads_inv_def)
  ultimately have "has_room (srv_clients (th_server x)) t"
    by (auto simp: registered_def has_room_def owed_def buffered_def CAPIO_REQ_BUFF_CNT_def)
  from reply_room[OF this] obtain cm where "reply_to_client t v (srv_clients (th_server x)) = Inr cm" by blast
  then show ?thesis by (simp add: c reply_def)
qed

lemma call_no_block:
  assumes inv: "threads_inv x" and "take 1 (main_calls x) = [c] \<or> take 1 (monitor_calls x) = [c]"
    and "\<And>p. c \<noteq> IncreaseClose p"
  shows "exec env c (th_server x) \<noteq> Inl Blocked"
proof (cases c)
  case (ReplyTo t v)
  with reply_succeeds[OF inv, of c undefined t v] assms(2) show ?thesis by auto
next
  case (UnlockCreation p)
  with reply_succeeds[OF inv, of c p] assms(2) show ?thesis by auto
next
  case (CheckData p)
  with check_no_block[OF threads_server_inv[OF inv], of env p] show ?thesis by (simp add: rbind_no_block)
qed (use assms(3) in \<open>auto simp: rbind_no_block no_block get_app_name_def Let_def\<close>)

text \<open>C14: No call of either thread of the server waits, in any interleaving, but the one that waits for
  the lock file of a token: whatever call is next, it does not block, in particular not the check of
  the threads that wait for data, which answers them while it holds the mutex of their list (it can
  end in an exception). Waking the threads that wait for a path to be created, and answering a single
  client, succeed: no ring of answers is full and no client is unknown.\<close>

theorem no_reply_blocks:
  assumes "run_turns env chs (threads_start eng f) = Some (es, x)" and "umap_wf eng"
    and "take 1 (main_calls x) = [c] \<or> take 1 (monitor_calls x) = [c]"
  shows "((\<forall>p. c \<noteq> IncreaseClose p) \<longrightarrow> exec env c (th_server x) \<noteq> Inl Blocked) \<and>
    ((\<exists>p t v. c = UnlockCreation p \<or> c = ReplyTo t v) \<longrightarrow> (\<exists>s. exec env c (th_server x) = Inr ([], s)))"
proof -
  have inv: "threads_inv x" by (rule runs_inv[OF assms(1) start_threads_inv[OF assms(2)]])
  show ?thesis using call_no_block[OF inv assms(3)] reply_succeeds[OF inv _ assms(3)] by blast
qed

lemma no_reply_blocks_witness:
  "\<exists>es x s. run_turns sample_env (take 10 calm_run) (threads_start [] sample_fs) = Some (es, x) \<and>
     exec sample_env (UnlockCreation ''/d/n'') (th_server x) = Inr ([], s)"
proof -
  have "case run_turns sample_env (take 10 calm_run) (threads_start [] sample_fs) of None \<Rightarrow> False
     | Some (es, x) \<Rightarrow> take 1 (monitor_calls x) = [UnlockCreation ''/d/n'']" by code_simp
  then obtain es x where r: "run_turns sample_env (take 10 calm_run) (threads_start [] sample_fs) = Some (es, x)"
    and h: "take 1 (monitor_calls x) = [UnlockCreation ''/d/n'']"
    by (auto split: option.splits)
  from no_reply_blocks[OF r, of "UnlockCreation ''/d/n''"] h r show ?thesis by auto
qed

end
