(* ===== verification/Cluster.thy ===== *)
theory Cluster
  imports Node DistSem
begin

text \<open>
  Several servers over one file system, as CAPIO runs a workflow on several nodes: each node has its
  own \<open>capio_server\<close> with its own tables, and what one server tells the others is what it writes to
  the shared file system, the token files. A step is a step of one server, or a change the
  applications make to the files. Every node, seen with the shared files as its own, keeps the
  invariant of one server. A close is taken apart where other servers can see it: the commit, the
  wait for the lock file, the token emptied with the lock held, the new count stored.
\<close>

subsection \<open>What the servers do to the files\<close>

text \<open>Directories and files stay, and the number at the start of a file does not decrease, where
  a file that is not there counts as zero.\<close>

definition fs_grows :: "fs \<Rightarrow> fs \<Rightarrow> bool" where
  "fs_grows f f' \<longleftrightarrow> (\<forall>q. (map_of f q = Some Dir \<longrightarrow> map_of f' q = Some Dir) \<and>
     (\<forall>b. map_of f q = Some (Reg b) \<longrightarrow> (\<exists>b'. map_of f' q = Some (Reg b'))) \<and>
     read_long f q \<le> read_long f' q)"

abbreviation grows :: "server \<Rightarrow> server \<Rightarrow> bool" where
  "grows s s' \<equiv> fs_grows (srv_fs s) (srv_fs s')"

lemma fs_grows_refl [simp]: "fs_grows f f"
  by (simp add: fs_grows_def)

lemma fs_grows_trans [trans]: "fs_grows f g \<Longrightarrow> fs_grows g h \<Longrightarrow> fs_grows f h"
  unfolding fs_grows_def by (meson order_trans)

lemma read_long_added:
  "map_of f' q = map_of f q \<or> map_of f q = None \<and> (map_of f' q = Some Dir \<or> map_of f' q = Some (Reg [])) \<Longrightarrow>
     read_long f' q = read_long f q"
  by (auto simp: read_long_def scan_int_def skip_space_def)

lemma fs_grows_dirs: "only_adds_dirs f f' \<Longrightarrow> fs_grows f f'"
proof -
  assume a: "only_adds_dirs f f'"
  have "read_long f' q = read_long f q" for q
    using a unfolding only_adds_dirs_def by (intro read_long_added) blast
  with only_adds_dirs_keeps[OF a] show ?thesis by (auto simp: fs_grows_def)
qed

lemma fs_grows_touch: "fs_grows f (touch p f)"
proof -
  have "read_long (touch p f) q = read_long f q" for q
    by (rule read_long_added) (auto simp: touch_def umap_simps)
  then show ?thesis by (simp add: fs_grows_def touch_keeps)
qed

lemma read_long_bounds: "- LONG_MAX - 1 \<le> read_long f p \<and> read_long f p \<le> LONG_MAX"
  by (auto simp: read_long_def LONG_MAX_def split: option.splits node.splits)

text \<open>Also where the counter overflows: the text of a number that does not fit reads as the largest.\<close>

lemma read_stored_count:
  assumes "- LONG_MAX \<le> n" and "n \<le> LONG_MAX + 1"
  shows "min LONG_MAX n \<le> read_long (write_text p (close_count_text n) f) p"
proof -
  have s: "scan_int (close_count_text n) = Some (uint (word_of_int n :: u64), [CHR '' '', CHR 0x0A])"
  proof -
    have "show_u64 w = show_int (uint w)" for w
      by (simp add: show_u64_def show_int_def uint_nat[symmetric])
    then show ?thesis by (simp add: close_count_text_def scan_int_space scan_int_show_int)
  qed
  have "n \<le> uint (word_of_int n :: u64)"
  proof (cases "0 \<le> n")
    case True
    then show ?thesis using assms(2) by (simp add: uint_word_of_int LONG_MAX_def)
  next
    case False
    then show ?thesis using uint_ge_0[of "word_of_int n :: u64"] by linarith
  qed
  then show ?thesis by (simp add: read_long_def write_text_def umap_simps s LONG_MAX_def)
qed

lemma read_next_count:
  "min LONG_MAX (read_long f p + 1) \<le> read_long (write_text p (close_count_text (read_long f p + 1)) f) p"
  using read_long_bounds[of f p] by (intro read_stored_count) auto

lemma fs_grows_count:
  assumes "\<not> fs_is_directory f p"
  shows "fs_grows f (write_text p (close_count_text (read_long f p + 1)) f)" (is "fs_grows f ?g")
proof -
  have "map_of ?g q = (if q = p then Some (Reg (close_count_text (read_long f p + 1))) else map_of f q)" for q
    by (simp add: write_text_def umap_simps)
  moreover from this have "read_long f q \<le> read_long ?g q" for q
    using read_next_count[of f p] read_long_bounds[of f p] by (cases "q = p") (auto simp: read_long_def)
  ultimately show ?thesis using assms by (auto simp: fs_grows_def fs_is_directory_def)
qed

lemma fs_grows_same: "same_but_answers s s' \<Longrightarrow> grows s s'"
  by (simp add: same_but_answers_def fs_grows_dirs)

lemma fs_grows_setCommitted: "setCommitted env p s = Inr s' \<Longrightarrow> grows s s'"
proof -
  assume "setCommitted env p s = Inr s'"
  then obtain f s1 where f: "create_directories (parent_path (metadata_path env p)) (srv_fs s) = Inr f"
    and s1: "checkAndUnlockThreadAwaitingData env p (s\<lparr>srv_fs := touch (metadata_path env p) f\<rparr>) = Inr s1"
    and s': "unlockThreadAwaitingCreation p s1 = Inr s'"
    by (auto simp: setCommitted_Inr)
  have "fs_grows (srv_fs s) f" using f by (intro fs_grows_dirs create_directories_only_adds)
  also have "fs_grows f (touch (metadata_path env p) f)" by (rule fs_grows_touch)
  also have "fs_grows \<dots> (srv_fs s1)" using fs_grows_same[OF same_checkAndUnlock[OF s1]] by simp
  also have "fs_grows \<dots> (srv_fs s')" using fs_grows_same[OF same_unlockCreation[OF s']] by simp
  finally show ?thesis .
qed

lemma fs_grows_setCommitted_all: "setCommitted_all env ps s = Inr s' \<Longrightarrow> grows s s'"
  by (induction ps arbitrary: s) (auto simp: res_simps intro: fs_grows_trans fs_grows_setCommitted)

lemma increase_Inr:
  assumes "increaseCloseCount env p s = Inr s'"
  obtains f where "create_directories (parent_path (metadata_path env p)) (srv_fs s) = Inr f"
    "\<not> fs_is_directory f (metadata_path env p)"
    "s' = s\<lparr>srv_fs := write_text (metadata_path env p) (close_count_text (read_long f (metadata_path env p) + 1)) f\<rparr>"
  using assms by (auto simp: increaseCloseCount_def getAndCreateMetadataPath_def Let_def res_simps split: if_splits)

lemma fs_grows_increase: "increaseCloseCount env p s = Inr s' \<Longrightarrow> grows s s'"
proof (elim increase_Inr)
  fix f
  assume f: "create_directories (parent_path (metadata_path env p)) (srv_fs s) = Inr f"
    "\<not> fs_is_directory f (metadata_path env p)"
  assume "s' = s\<lparr>srv_fs := write_text (metadata_path env p) (close_count_text (read_long f (metadata_path env p) + 1)) f\<rparr>"
  with fs_grows_trans[OF fs_grows_dirs[OF create_directories_only_adds[OF f(1)]] fs_grows_count[OF f(2)]]
  show "grows s s'" by simp
qed

lemma fs_grows_reply: "reply t v s = Inr s' \<Longrightarrow> grows s s'"
  by (auto simp: reply_def res_simps)

lemma add_waiter_fs [simp]:
  "srv_fs (addThreadAwaitingCreation p t s) = srv_fs s" "srv_fs (addThreadAwaitingData p t n s) = srv_fs s"
  by (simp_all add: addThreadAwaitingCreation_def addThreadAwaitingData_def Let_def)

lemmas fs_grows_manager = fs_grows_same[OF same_isCommitted] fs_grows_same[OF same_checkAndUnlock]
  fs_grows_same[OF same_unlockCreation] fs_grows_setCommitted fs_grows_setCommitted_all fs_grows_increase
  fs_grows_reply

lemma serve_grows:
  assumes "serve env req s = Inr s'" and "read_next_request req = Inr (code, str)"
  shows "grows s s'"
proof (cases rule: serve_cases[OF assms])
  case 1
  then show ?thesis
    by (auto simp: consent_to_proceed_handler_def do_consent_def res_simps Let_def split: if_splits
        dest!: fs_grows_manager intro: fs_grows_trans)
next
  case 2
  then show ?thesis
    by (auto simp: close_handler_def do_close_def res_simps split: if_splits intro: fs_grows_trans fs_grows_manager)
next
  case 3
  then show ?thesis
    by (auto simp: create_handler_def do_create_def res_simps intro: fs_grows_manager)
next
  case 4
  then show ?thesis
    by (auto simp: exit_handler_def do_exit_def setCommitted_tid_def res_simps intro: fs_grows_manager)
next
  case 7
  then show ?thesis
    by (auto simp: open_handler_def do_open_def res_simps split: if_splits intro: fs_grows_manager)
next
  case 8
  then show ?thesis
    by (auto simp: read_handler_def do_read_def res_simps Let_def split: if_splits
        dest!: fs_grows_manager intro: fs_grows_trans)
next
  case 9
  then show ?thesis by (auto simp: rename_handler_def res_simps intro: fs_grows_manager)
next
  case 10
  then show ?thesis by (auto simp: write_handler_def do_write_def res_simps split: if_splits intro: fs_grows_manager)
qed (auto simp: handshake_named_handler_def do_handshake_def handshake_anonymous_handler_def res_simps)

subsection \<open>The nodes\<close>

text \<open>Where the main thread of a server is in a close that counts. A number is the value of
  \<open>close_count\<close>, with the token emptied and the lock file held.\<close>

datatype closing = Serving | Spins string | Emptied string int

record cluster =
  cl_servers :: "server list"
  cl_fs :: fs
  cl_closing :: "nat \<Rightarrow> closing"

text \<open>A node with the shared files as its own, and the cluster after a step of the node.\<close>

definition node_view :: "cluster \<Rightarrow> nat \<Rightarrow> server" where
  "node_view c i = (cl_servers c ! i)\<lparr>srv_fs := cl_fs c\<rparr>"

definition after_node :: "cluster \<Rightarrow> nat \<Rightarrow> server \<Rightarrow> cluster" where
  "after_node c i s = c\<lparr>cl_servers := (cl_servers c)[i := s], cl_fs := srv_fs s\<rparr>"

definition goes_on :: "cluster \<Rightarrow> nat \<Rightarrow> closing \<Rightarrow> fs \<Rightarrow> cluster" where
  "goes_on c i x f = c\<lparr>cl_fs := f, cl_closing := (cl_closing c)(i := x)\<rparr>"

definition cluster_start :: "engine list \<Rightarrow> fs \<Rightarrow> cluster" where
  "cluster_start engs f =
     \<lparr>cl_servers = map (\<lambda>eng. server_start eng f) engs, cl_fs = f, cl_closing = (\<lambda>_. Serving)\<rparr>"

text \<open>A close of \<open>p\<close> that counts: of a producer, on a node whose rule is to commit on close.\<close>

definition counting_close :: "env \<Rightarrow> string \<Rightarrow> string \<Rightarrow> server \<Rightarrow> bool" where
  "counting_close env req p s \<longleftrightarrow> handled env p \<and>
     getCommitRule (srv_engine s) p = CAPIO_FILE_COMMITTED_ON_CLOSE \<and>
     (\<exists>t. decode_request req = Some (Close t p) \<and> isProducer (srv_clients s) (srv_engine s) p t = Inr True)"

text \<open>The end of \<open>increaseCloseCount\<close>: what was printed reaches the file that is still there, and the lock
  file goes (\<open>unlink\<close> refuses a directory).\<close>

definition store_count :: "string \<Rightarrow> int \<Rightarrow> fs \<Rightarrow> fs" where
  "store_count m n f =
     (let f' = (case map_of f m of Some (Reg b) \<Rightarrow> write_text m (close_count_text n) f | _ \<Rightarrow> f)
      in if fs_is_directory f' (lock_name m) then f' else unlink_file (lock_name m) f')"

text \<open>What the monitor of a server and the clients that collect their answers do.\<close>

inductive own_step :: "env \<Rightarrow> server \<Rightarrow> server \<Rightarrow> bool" for env :: env where
  poll_creation: "fs_exists (srv_fs s) p \<Longrightarrow> unlockThreadAwaitingCreation p s = Inr s' \<Longrightarrow> own_step env s s'"
| poll_delete: "own_step env s (deleteFileAwaitingCreation p s)"
| poll_data: "monitor_data env [p] s = Inr s' \<Longrightarrow> own_step env s s'"
| collect: "take_answer t s = Some (v, s') \<Longrightarrow> own_step env s s'"

text \<open>\<open>A\<close> is what the applications may do to the files.\<close>

inductive cluster_step :: "env \<Rightarrow> (fs \<Rightarrow> fs \<Rightarrow> bool) \<Rightarrow> cluster \<Rightarrow> cluster \<Rightarrow> bool"
  for env :: env and A :: "fs \<Rightarrow> fs \<Rightarrow> bool" where
  watches: "i < length (cl_servers c) \<Longrightarrow> own_step env (node_view c i) s' \<Longrightarrow>
     cluster_step env A c (after_node c i s')"
| serves: "i < length (cl_servers c) \<Longrightarrow> cl_closing c i = Serving \<Longrightarrow>
     read_next_request req = Inr (code, str) \<Longrightarrow> well_behaved code str (node_view c i) \<Longrightarrow>
     \<forall>q. \<not> counting_close env req q (node_view c i) \<Longrightarrow> serve env req (node_view c i) = Inr s' \<Longrightarrow>
     cluster_step env A c (after_node c i s')"
| close_commits: "i < length (cl_servers c) \<Longrightarrow> cl_closing c i = Serving \<Longrightarrow>
     counting_close env req q (node_view c i) \<Longrightarrow> setCommitted env q (node_view c i) = Inr s' \<Longrightarrow>
     cluster_step env A c (goes_on (after_node c i s') i (Spins q) (srv_fs s'))"
| close_empties: "cl_closing c i = Spins q \<Longrightarrow> getAndCreateMetadataPath env q (cl_fs c) = Inr (m, f) \<Longrightarrow>
     \<not> fs_exists f (lock_name m) \<Longrightarrow> \<not> fs_is_directory f m \<Longrightarrow>
     cluster_step env A c (goes_on c i (Emptied q (read_long f m + 1)) (write_text m [] (touch (lock_name m) f)))"
| close_stores: "cl_closing c i = Emptied q n \<Longrightarrow>
     cluster_step env A c (goes_on c i Serving (store_count (metadata_path env q) n (cl_fs c)))"
| files_change: "A (cl_fs c) f \<Longrightarrow> cluster_step env A c (c\<lparr>cl_fs := f\<rparr>)"

abbreviation anything :: "fs \<Rightarrow> fs \<Rightarrow> bool" where
  "anything f f' \<equiv> True"

definition cluster_reachable :: "env \<Rightarrow> engine list \<Rightarrow> cluster \<Rightarrow> bool" where
  "cluster_reachable env engs c \<longleftrightarrow> (\<exists>f. (cluster_step env anything)\<^sup>*\<^sup>* (cluster_start engs f) c)"

lemma own_server_step: "own_step env s s' \<Longrightarrow> server_step env s s'"
proof (induction rule: own_step.induct)
  case (collect t s v s')
  then show ?case
    by (auto simp: take_answer_def split: option.splits list.splits intro: server_step.collect)
qed (blast intro: server_step.intros)+

lemma own_grows: "own_step env s s' \<Longrightarrow> grows s s'"
proof (induction rule: own_step.induct)
  case (poll_creation s p s')
  then show ?case by (blast intro: fs_grows_manager)
next
  case (poll_data p s s')
  then show ?case by (auto simp: res_simps split: if_splits intro: fs_grows_manager)
next
  case (collect t s v s')
  then show ?case by (auto simp: take_answer_def split: option.splits list.splits)
qed simp

lemma cluster_step_mono: "cluster_step env A c c' \<Longrightarrow> (\<And>f f'. A f f' \<Longrightarrow> B f f') \<Longrightarrow> cluster_step env B c c'"
  by (induction rule: cluster_step.induct) (auto intro: cluster_step.intros)

lemma cluster_reachable_more:
  assumes "cluster_reachable env engs c" and "(cluster_step env A)\<^sup>*\<^sup>* c c'"
  shows "cluster_reachable env engs c'"
proof -
  have "(cluster_step env anything)\<^sup>*\<^sup>* c c'"
    using assms(2) by (rule rtranclp_mono[THEN predicate2D, rotated]) (auto intro: cluster_step_mono)
  with assms(1) show ?thesis unfolding cluster_reachable_def by (meson rtranclp_trans)
qed

lemma view_after: "j < length (cl_servers c) \<Longrightarrow>
    node_view (after_node c i s) j = (if i = j then s else (node_view c j)\<lparr>srv_fs := srv_fs s\<rparr>)"
  by (simp add: node_view_def after_node_def)

lemma cluster_parts [simp]:
  "length (cl_servers (after_node c i s)) = length (cl_servers c)"
  "cl_fs (after_node c i s) = srv_fs s" "srv_fs (node_view c i) = cl_fs c"
  "cl_closing (after_node c i s) = cl_closing c"
  "cl_servers (goes_on c i x f) = cl_servers c" "cl_fs (goes_on c i x f) = f"
  "cl_closing (goes_on c i x f) = (cl_closing c)(i := x)"
  "node_view (goes_on c i x f) j = (node_view c j)\<lparr>srv_fs := f\<rparr>"
  "node_view (c\<lparr>cl_fs := f\<rparr>) j = (node_view c j)\<lparr>srv_fs := f\<rparr>"
  by (simp_all add: after_node_def node_view_def goes_on_def)

subsection \<open>Every node keeps the invariant of a server\<close>

lemma inv_fs [simp]: "server_inv (s\<lparr>srv_fs := f\<rparr>) = server_inv s"
  by (simp add: server_inv_def waiting_wf_def)

lemma after_node_inv:
  assumes "\<forall>j < length (cl_servers c). server_inv (node_view c j)" and "server_inv s"
  shows "\<forall>j < length (cl_servers (after_node c i s)). server_inv (node_view (after_node c i s) j)"
  using assms by (simp add: view_after)

lemma cluster_step_inv:
  assumes "cluster_step env A c c'" and "\<forall>j < length (cl_servers c). server_inv (node_view c j)"
  shows "\<forall>j < length (cl_servers c'). server_inv (node_view c' j)"
  using assms
proof (induction rule: cluster_step.induct)
  case (watches i c s')
  then show ?case using step_inv[OF own_server_step] after_node_inv by blast
next
  case (serves i c req code str s')
  then have "server_inv s'" using step_inv[OF server_step.request[OF serves(3,4,6)]] by blast
  with serves show ?case by (intro after_node_inv)
next
  case (close_commits i c req q s')
  then have i: "server_inv (node_view c i)" by blast
  then have "server_inv s'"
    using inv_conserves[OF keeps_setCommitted[OF close_commits(4)]] setCommitted_conserves[OF close_commits(4)]
    by (simp add: server_inv_def)
  with close_commits show ?case using after_node_inv[of c s' i] by simp
qed simp_all

lemma cluster_inv:
  assumes "cluster_reachable env engs c" and "\<forall>eng \<in> set engs. umap_wf eng"
  shows "\<forall>j < length engs. server_inv (node_view c j)" and "length (cl_servers c) = length engs"
proof -
  have l: "length (cl_servers c') = length (cl_servers c)" if "cluster_step env A c c'" for A c c'
    using that by (induction rule: cluster_step.induct) simp_all
  obtain f where r: "(cluster_step env anything)\<^sup>*\<^sup>* (cluster_start engs f) c"
    using assms(1) by (auto simp: cluster_reachable_def)
  have "(\<forall>j < length (cl_servers c). server_inv (node_view c j)) \<and> length (cl_servers c) = length engs"
    using r
  proof (induction rule: rtranclp_induct)
    case base
    have "node_view (cluster_start engs f) j = server_start (engs ! j) f" if "j < length engs" for j
      using that by (simp add: node_view_def cluster_start_def server_start_def)
    then show ?case using assms(2) start_inv by (simp add: cluster_start_def[of engs f])
  next
    case (step c c')
    then show ?case using cluster_step_inv[OF step.hyps(2)] l[OF step.hyps(2)] by simp
  qed
  then show "\<forall>j < length engs. server_inv (node_view c j)" "length (cl_servers c) = length engs" by simp_all
qed

subsection \<open>A close is never forgotten\<close>

text \<open>What the count of the closes of \<open>p\<close> rests on, and applications that leave it alone.\<close>

definition leaves_token :: "env \<Rightarrow> string \<Rightarrow> fs \<Rightarrow> fs \<Rightarrow> bool" where
  "leaves_token env p f f' \<longleftrightarrow>
     (\<forall>q \<in> set (ancestors (parent_path (metadata_path env p))). map_of f q = Some Dir \<longrightarrow> map_of f' q = Some Dir) \<and>
     (\<forall>b. map_of f (metadata_path env p) = Some (Reg b) \<longrightarrow> (\<exists>b'. map_of f' (metadata_path env p) = Some (Reg b'))) \<and>
     (fs_exists f (lock_name (metadata_path env p)) \<longrightarrow> fs_exists f' (lock_name (metadata_path env p)))"

abbreviation token_read :: "env \<Rightarrow> string \<Rightarrow> fs \<Rightarrow> int" where
  "token_read env p f \<equiv> read_long f (metadata_path env p)"

text \<open>Applications do not write the token either.\<close>

definition keeps_token :: "env \<Rightarrow> string \<Rightarrow> fs \<Rightarrow> fs \<Rightarrow> bool" where
  "keeps_token env p f f' \<longleftrightarrow> leaves_token env p f f' \<and> token_read env p f \<le> token_read env p f'"

text \<open>The token is there, with its directories.\<close>

definition token_there :: "env \<Rightarrow> string \<Rightarrow> fs \<Rightarrow> bool" where
  "token_there env p f \<longleftrightarrow> warm env f p \<and> (\<exists>b. map_of f (metadata_path env p) = Some (Reg b))"

lemma leaves_there: "leaves_token env p f f' \<Longrightarrow> token_there env p f \<Longrightarrow> token_there env p f'"
  unfolding token_there_def leaves_token_def warm_def create_directories_same by blast

lemma fs_grows_keeps: "fs_grows f f' \<Longrightarrow> keeps_token env p f f'"
  unfolding fs_grows_def leaves_token_def keeps_token_def fs_exists_def
  by (metis node.exhaust option.distinct(1) option.exhaust)

lemma last_metadata: "last (metadata_path env p) = CHR ''o''"
  by (simp add: metadata_path_def path_append_def)

lemma token_no_lock: "metadata_path env p \<noteq> lock_name (metadata_path env q)"
  using last_metadata[of env p] by (auto simp: lock_name_def dest: arg_cong[of _ _ last])

lemma lock_name_inj [simp]: "lock_name m = lock_name m' \<longleftrightarrow> m = m'"
  by (simp add: lock_name_def)

text \<open>The token of \<open>p\<close> is with a server that rewrites it.\<close>

definition rewritten :: "env \<Rightarrow> string \<Rightarrow> cluster \<Rightarrow> nat \<Rightarrow> int \<Rightarrow> bool" where
  "rewritten env p c i n \<longleftrightarrow> (\<exists>q. cl_closing c i = Emptied q n \<and> metadata_path env q = metadata_path env p)"

text \<open>At least \<open>k\<close> closes are counted, in the token or by the server that rewrites it.\<close>

definition counted :: "env \<Rightarrow> string \<Rightarrow> nat \<Rightarrow> cluster \<Rightarrow> bool" where
  "counted env p k c \<longleftrightarrow>
     (\<forall>i n. rewritten env p c i n \<longrightarrow> int k < n \<and> n \<le> LONG_MAX + 1 \<and> token_there env p (cl_fs c) \<and>
        fs_exists (cl_fs c) (lock_name (metadata_path env p)) \<and> (\<forall>j n'. rewritten env p c j n' \<longrightarrow> j = i)) \<and>
     ((\<forall>i n. \<not> rewritten env p c i n) \<longrightarrow> int k \<le> token_read env p (cl_fs c)) \<and>
     (0 < k \<longrightarrow> token_there env p (cl_fs c))"

lemma counted_keep:
  assumes "counted env p k c" and "keeps_token env p (cl_fs c) (cl_fs c')"
    and "\<And>i n. rewritten env p c' i n \<longleftrightarrow> rewritten env p c i n"
  shows "counted env p k c'"
proof -
  from assms(2) have k: "leaves_token env p (cl_fs c) (cl_fs c')"
    "token_read env p (cl_fs c) \<le> token_read env p (cl_fs c')" by (simp_all add: keeps_token_def)
  show ?thesis
    using assms(1) leaves_there[OF k(1)] k unfolding counted_def assms(3) leaves_token_def by (meson order_trans)
qed

lemma read_long_cong: "map_of f q = map_of g q \<Longrightarrow> read_long f q = read_long g q"
  by (simp add: read_long_def)

lemma store_lookup:
  "map_of (store_count m n f) x =
     (if x = lock_name m then (if map_of f x = Some Dir then Some Dir else None)
      else if x = m then (case map_of f m of Some (Reg b) \<Rightarrow> Some (Reg (close_count_text n)) | y \<Rightarrow> y)
      else map_of f x)"
proof -
  have "lock_name m \<noteq> m" by (simp add: lock_name_def)
  then show ?thesis
    by (auto simp: store_count_def Let_def fs_is_directory_def write_text_def unlink_file_def umap_simps
        split: option.splits node.splits)
qed

lemma store_dirs: "map_of f x = Some Dir \<Longrightarrow> map_of (store_count m n f) x = Some Dir"
  by (auto simp: store_lookup)

lemma store_other:
  assumes "metadata_path env q \<noteq> metadata_path env p"
  shows "keeps_token env p f (store_count (metadata_path env q) n f)" (is "keeps_token env p f ?g")
proof -
  have m: "map_of ?g (metadata_path env p) = map_of f (metadata_path env p)"
    using assms token_no_lock[of env p q] by (simp add: store_lookup)
  have "fs_exists f (lock_name (metadata_path env p)) \<Longrightarrow> fs_exists ?g (lock_name (metadata_path env p))"
    using assms by (auto simp: fs_exists_def store_lookup split: option.splits node.splits)
  with m show ?thesis
    using read_long_cong[OF m] by (auto simp: keeps_token_def leaves_token_def store_dirs)
qed

lemma empties_other:
  assumes "metadata_path env q \<noteq> metadata_path env p" and "getAndCreateMetadataPath env q f0 = Inr (m, f)"
    and "\<not> fs_is_directory f m"
  shows "keeps_token env p f0 (write_text m [] (touch (lock_name m) f))" (is "keeps_token env p f0 (write_text m [] ?g)")
proof -
  from assms(2) have m: "m = metadata_path env q" and f: "fs_grows f0 f"
    by (auto simp: metadata_Inr intro: fs_grows_dirs create_directories_only_adds)
  have "keeps_token env p f0 ?g" by (rule fs_grows_keeps[OF fs_grows_trans[OF f fs_grows_touch]])
  moreover have "keeps_token env p ?g (write_text m [] ?g)"
  proof -
    have l: "map_of (write_text m [] ?g) x = (if x = m then Some (Reg []) else map_of ?g x)" for x
      by (simp add: write_text_def umap_simps)
    have "map_of ?g m \<noteq> Some Dir"
      using assms(3) by (simp add: fs_is_directory_def touch_def umap_simps lock_name_def)
    with l assms(1) m show ?thesis
      using read_long_cong[of "write_text m [] ?g" "metadata_path env p" ?g]
      by (auto simp: keeps_token_def leaves_token_def fs_exists_def)
  qed
  ultimately show ?thesis unfolding keeps_token_def leaves_token_def by (meson order_trans)
qed

lemma empties_same:
  assumes "metadata_path env q = metadata_path env p" and "getAndCreateMetadataPath env q f0 = Inr (m, f)"
    and "\<not> fs_is_directory f m"
  shows "token_there env p (write_text m [] (touch (lock_name m) f))"
    and "fs_exists (write_text m [] (touch (lock_name m) f)) (lock_name m)"
    and "token_read env p f0 \<le> read_long f m" and "m = metadata_path env p"
proof -
  from assms(1,2) have m: "m = metadata_path env p" and f: "create_directories (parent_path m) f0 = Inr f"
    by (auto simp: metadata_Inr)
  then show "m = metadata_path env p" by simp
  have l: "map_of (write_text m [] (touch (lock_name m) f)) x =
      (if x = m then Some (Reg []) else map_of (touch (lock_name m) f) x)" for x
    by (simp add: write_text_def umap_simps)
  have "warm env f p" using f by (simp add: warm_def m create_directories_again)
  then have "warm env (write_text m [] (touch (lock_name m) f)) p"
    by (rule warm_mono) (use assms(3) in \<open>auto simp: l fs_is_directory_def intro: touch_keeps\<close>)
  then show "token_there env p (write_text m [] (touch (lock_name m) f))" by (simp add: token_there_def l m[symmetric])
  show "fs_exists (write_text m [] (touch (lock_name m) f)) (lock_name m)"
  proof -
    have "lock_name m \<noteq> m" by (simp add: lock_name_def)
    then show ?thesis using touch_exists[of "lock_name m" f] by (simp add: fs_exists_def l)
  qed
  show "token_read env p f0 \<le> read_long f m"
    using fs_grows_dirs[OF create_directories_only_adds[OF f]] by (simp add: fs_grows_def m)
qed

text \<open>The server that rewrites the token stores a count one higher.\<close>

lemma store_counts:
  assumes c: "counted env p k c" and r: "cl_closing c i = Emptied q n" "metadata_path env q = metadata_path env p"
    and l: "int l \<le> LONG_MAX" "l \<le> Suc k"
  shows "counted env p l (goes_on c i Serving (store_count (metadata_path env q) n (cl_fs c)))" (is "counted env p l ?c")
proof -
  let ?m = "metadata_path env p"
  have "rewritten env p c i n" using r by (auto simp: rewritten_def)
  with c have n: "int k < n" "n \<le> LONG_MAX + 1" "token_there env p (cl_fs c)"
    and only: "\<And>j n'. rewritten env p c j n' \<Longrightarrow> j = i"
    unfolding counted_def by blast+
  have none: "\<not> rewritten env p ?c j n'" for j n'
    using only[of j n'] by (auto simp: rewritten_def split: if_splits)
  obtain b where b: "map_of (cl_fs c) ?m = Some (Reg b)" using n(3) by (auto simp: token_there_def)
  have m: "map_of (cl_fs ?c) ?m = Some (Reg (close_count_text n))"
    using b token_no_lock[of env p p] by (simp add: store_lookup r(2))
  have "token_there env p (cl_fs ?c)"
    using n(3) m by (auto simp: token_there_def intro: warm_mono store_dirs)
  moreover have "int l \<le> token_read env p (cl_fs ?c)"
  proof -
    have "token_read env p (cl_fs ?c) = read_long (write_text ?m (close_count_text n) (cl_fs c)) ?m"
      using m by (intro read_long_cong) (simp add: write_text_def umap_simps)
    moreover have "int l \<le> min LONG_MAX n" using l n(1) by simp
    moreover have "- LONG_MAX \<le> n" using n(1) by (simp add: LONG_MAX_def)
    ultimately show ?thesis using read_stored_count[of n ?m "cl_fs c"] n(2) by linarith
  qed
  ultimately show ?thesis using none by (simp add: counted_def)
qed

lemma counted_step:
  assumes "cluster_step env (keeps_token env p) c c'" and c: "counted env p k c" and k: "int k \<le> LONG_MAX"
  shows "counted env p k c'"
  using assms(1)
proof cases
  case (watches i s')
  then show ?thesis using fs_grows_keeps[OF own_grows[OF watches(3)]] by (auto intro!: counted_keep[OF c] simp: rewritten_def)
next
  case (serves i req code str s')
  then show ?thesis
    using fs_grows_keeps[OF serve_grows[OF serves(7,4)]] by (auto intro!: counted_keep[OF c] simp: rewritten_def)
next
  case (close_commits i req q s')
  then show ?thesis using fs_grows_keeps[OF fs_grows_setCommitted[OF close_commits(5)]]
    by (intro counted_keep[OF c]) (auto simp: rewritten_def)
next
  case (close_empties i q m f)
  show ?thesis
  proof (cases "metadata_path env q = metadata_path env p")
    case True
    note e = empties_same[OF True close_empties(3,5)]
    have grow: "fs_grows (cl_fs c) f" using close_empties(3)
      by (auto simp: metadata_Inr intro: fs_grows_dirs create_directories_only_adds)
    have free: "\<not> rewritten env p c j n'" for j n'
    proof
      assume "rewritten env p c j n'"
      with c have "fs_exists (cl_fs c) (lock_name (metadata_path env p))" unfolding counted_def by blast
      with fs_grows_keeps[OF grow, of env p] close_empties(4) e(4) show False
        by (simp add: keeps_token_def leaves_token_def)
    qed
    with c have "int k \<le> token_read env p (cl_fs c)" by (simp add: counted_def)
    with e(3) have "int k < read_long f m + 1" by simp
    moreover have "rewritten env p c' j n' \<longleftrightarrow> j = i \<and> n' = read_long f m + 1" for j n'
      using free[of j n'] True by (auto simp: close_empties(1) rewritten_def split: if_splits)
    ultimately show ?thesis
      using e(1,2,4) read_long_bounds[of f m] by (auto simp: counted_def close_empties(1))
  next
    case False
    have "rewritten env p c' j n' = rewritten env p c j n'" for j n'
      using False close_empties(2) by (auto simp: close_empties(1) rewritten_def split: if_splits)
    then show ?thesis
      using empties_other[OF False close_empties(3,5)] by (intro counted_keep[OF c]) (simp_all add: close_empties(1))
  qed
next
  case (close_stores i q n)
  show ?thesis
  proof (cases "metadata_path env q = metadata_path env p")
    case True
    then show ?thesis using store_counts[OF c close_stores(2) True k] by (simp add: close_stores(1))
  next
    case False
    have "rewritten env p c' j n' = rewritten env p c j n'" for j n'
      using False close_stores(2) by (auto simp: close_stores(1) rewritten_def split: if_splits)
    then show ?thesis
      using store_other[OF False] by (intro counted_keep[OF c]) (simp_all add: close_stores(1))
  qed
next
  case (files_change f)
  then show ?thesis by (intro counted_keep[OF c]) (simp_all add: rewritten_def)
qed

text \<open>A run in which at least \<open>k\<close> closes of \<open>p\<close> are counted, on any nodes, among any other steps.\<close>

inductive closes_run :: "env \<Rightarrow> string \<Rightarrow> cluster \<Rightarrow> nat \<Rightarrow> cluster \<Rightarrow> bool"
  for env :: env and p :: string and c :: cluster where
  none: "closes_run env p c 0 c"
| close: "closes_run env p c k c' \<Longrightarrow> cl_closing c' i = Emptied p n \<Longrightarrow>
     closes_run env p c (Suc k) (goes_on c' i Serving (store_count (metadata_path env p) n (cl_fs c')))"
| other: "closes_run env p c k c' \<Longrightarrow> cluster_step env (keeps_token env p) c' c'' \<Longrightarrow>
     closes_run env p c k c''"

lemma closes_run_reachable:
  assumes "closes_run env p c k c'" and "cluster_reachable env engs c"
  shows "cluster_reachable env engs c'"
  using assms
proof (induction rule: closes_run.induct)
  case (close k c' i n)
  then show ?case using cluster_step.close_stores[OF close(2)] by (blast intro: cluster_reachable_more)
next
  case (other k c' c'')
  then show ?case by (blast intro: cluster_reachable_more)
qed

lemma closes_run_counts:
  assumes "closes_run env p c k c'" and "0 \<le> token_read env p (cl_fs c)" and "\<forall>i n. \<not> rewritten env p c i n"
    and "int k \<le> LONG_MAX"
  shows "counted env p k c'"
  using assms
proof (induction rule: closes_run.induct)
  case none
  then show ?case by (simp add: counted_def)
next
  case (close k c' i n)
  then have "counted env p k c'" by simp
  from store_counts[OF this close(2) refl, of "Suc k"] close.prems(3) show ?case by simp
next
  case (other k c' c'')
  then show ?case using counted_step by blast
qed

lemma counted_committed:
  assumes "token_there env p (srv_fs s)" and "n \<le> token_read env p (srv_fs s)"
    and "\<not> fs_is_directory (srv_fs s) p" and "0 < stack_depth env"
    and "getCommitRule (srv_engine s) p = CAPIO_FILE_COMMITTED_ON_CLOSE"
    and "getCommitCloseCount (srv_engine s) p = -1 \<or> getCommitCloseCount (srv_engine s) p \<le> n"
  shows "isCommitted env p s = Inr (True, s)"
proof -
  have "committed env (srv_engine s) (srv_fs s) p"
    using assms by (subst committed_iff) (auto simp: token_there_def fs_exists_def)
  then show ?thesis
    using assms by (subst isCommitted_warm) (auto simp: token_there_def)
qed

text \<open>
  Between the two steps the token holds no text and reads as zero: who asks then, on any node and without
  the lock, finds a file uncommitted that was committed before.
\<close>

lemma emptied_token_counts_nothing:
  assumes "warm env f p" and "\<not> fs_is_directory f p" and "map_of f (metadata_path env p) = Some (Reg [])"
    and "getCommitRule eng p = CAPIO_FILE_COMMITTED_ON_CLOSE" and "0 < getCommitCloseCount eng p"
  shows "is_committed (Suc d) env eng p f = Inr (False, f)"
proof -
  have "read_long f (metadata_path env p) = 0"
    using assms(3) by (simp add: read_long_def scan_int_def skip_space_def)
  with assms show ?thesis by (auto simp: warm_metadata fs_exists_def)
qed

subsection \<open>Properties\<close>

text \<open>
  A run for the examples: two nodes, \<open>/d/p\<close> committed after two closes of application \<open>a\<close>. Threads 5
  and 7 of \<open>a\<close> run on node 0 and node 1; thread 6 of \<open>b\<close> on node 1 reads past the end and waits.
\<close>

definition two_closes :: engine where
  "two_closes = [(''/d/p'', (new_entry CAPIO_FILE_COMMITTED_ON_CLOSE CAPIO_FILE_MODE_UPDATE)
     \<lparr>e_producers := [''a''], e_commit_on_close := 2\<rparr>)]"

definition two_nodes_fs :: fs where
  "two_nodes_fs = (''/d/p'', Reg ''abc'') # sample_fs"

definition node_of :: "client_manager \<Rightarrow> (string, (tid, u64) umap) umap \<Rightarrow> server" where
  "node_of cm w = \<lparr>srv_engine = two_closes, srv_clients = cm,
     srv_fm = \<lparr>thread_awaiting_file_creation = [], thread_awaiting_data = w\<rparr>, srv_fs = two_nodes_fs\<rparr>"

definition two_nodes :: cluster where
  "two_nodes = \<lparr>cl_servers = [node_of (register_new_client 5 ''a'' client_manager_init) [],
      node_of (register_new_client 7 ''a'' (register_new_client 6 ''b'' client_manager_init))
        [(''/d/p'', [(6, 100)])]], cl_fs = two_nodes_fs, cl_closing = (\<lambda>_. Serving)\<rparr>"

lemma cluster_act:
  assumes "cluster_reachable env engs c" and "fields_ok m" and "i < length (cl_servers c)"
    and "cl_closing c i = Serving" and "act env m (node_view c i) = Inr s"
    and "\<And>t. asks m = Some t \<Longrightarrow> t \<in> registered (node_view c i) \<and> owed (node_view c i) t = 0"
    and "leaves m = None" and "\<And>t q. m \<noteq> Close t q"
  shows "cluster_reachable env engs (after_node c i s)"
proof -
  let ?req = "slot_of (\<lambda>_. CHR 0x00) (request_text m)"
  note d = decode_encode[OF assms(2), of "\<lambda>_. CHR 0x00"]
  then obtain code str where r: "read_next_request ?req = Inr (code, str)" "parse_request code str = Some m"
    by (auto simp: decode_request_def split: sum.splits)
  have "cluster_step env anything c (after_node c i s)"
    using assms(5-8) parsed_asker[OF r(2)] d
    by (intro serves[OF assms(3,4) r(1)]) (auto simp: well_behaved_def counting_close_def decoded_served[OF d])
  with assms(1) show ?thesis by (blast intro: cluster_reachable_more)
qed

lemma two_nodes_reachable: "cluster_reachable sample_env [two_closes, two_closes] two_nodes"
proof -
  let ?ini = client_manager_init
  let ?c = "\<lambda>a b w. \<lparr>cl_servers = [node_of a [], node_of b w], cl_fs = two_nodes_fs, cl_closing = (\<lambda>_. Serving)\<rparr>"
  have view: "node_view (?c a b w) 0 = node_of a []" "node_view (?c a b w) 1 = node_of b w"
    "after_node (?c a b w) 0 (node_of d []) = ?c d b w" "after_node (?c a b w) 1 (node_of d v) = ?c a d v" for a b w d v
    by (simp_all add: node_view_def after_node_def node_of_def)
  have "cluster_start [two_closes, two_closes] two_nodes_fs = ?c ?ini ?ini []"
    by (simp add: cluster_start_def server_start_def node_of_def)
  then have 0: "cluster_reachable sample_env [two_closes, two_closes] (?c ?ini ?ini [])"
    unfolding cluster_reachable_def by (metis rtranclp.rtrancl_refl)
  have greet: "act sample_env (HandshakeNamed t t a) (node_of cm w) = Inr (node_of (register_new_client t a cm) w)" for t a cm w
    by (simp add: do_handshake_def node_of_def)
  have f: "fields_ok (HandshakeNamed 5 5 ''a'')" "fields_ok (HandshakeNamed 6 6 ''b'')"
    "fields_ok (HandshakeNamed 7 7 ''a'')" "fields_ok (Read ''/d/p'' 6 3 100)" by code_simp+
  let ?a = "register_new_client 5 ''a'' ?ini" and ?b = "register_new_client 6 ''b'' ?ini"
  let ?b2 = "register_new_client 7 ''a'' ?b"
  have 1: "cluster_reachable sample_env [two_closes, two_closes] (?c ?a ?ini [])"
    using cluster_act[OF 0 f(1), of 0] view(1,3) greet by auto
  have 2: "cluster_reachable sample_env [two_closes, two_closes] (?c ?a ?b [])"
    using cluster_act[OF 1 f(2), of 1] view(2,4) greet by auto
  have 3: "cluster_reachable sample_env [two_closes, two_closes] (?c ?a ?b2 [])"
    using cluster_act[OF 2 f(3), of 1] view(2,4) greet by auto
  have rd: "act sample_env (Read ''/d/p'' 6 3 100) (node_of ?b2 []) = Inr (node_of ?b2 [(''/d/p'', [(6, 100)])])"
  proof -
    have "is_committed (stack_depth sample_env) sample_env two_closes ''/d/p'' two_nodes_fs = Inr (False, two_nodes_fs)"
      "handled sample_env ''/d/p''" "get_file_size_if_exists two_nodes_fs ''/d/p'' = Inr 3"
      "isProducer ?b2 two_closes ''/d/p'' 6 = Inr False"
      by code_simp+
    moreover from this(1) have "isCommitted sample_env ''/d/p'' (node_of ?b2 []) = Inr (False, node_of ?b2 [])"
      by (intro isCommitted_same) (simp add: node_of_def)
    ultimately show ?thesis
      by (simp add: do_read_def) (simp add: node_of_def addThreadAwaitingData_def emplace_def)
  qed
  have "6 \<in> registered (node_of ?b2 [])" "owed (node_of ?b2 []) 6 = 0"
    by (auto simp: registered_def register_new_client_def client_manager_init_def
        map_emplace_def owed_def buffered_def in_creation_def in_data_def table_sum_def node_of_def)
  then show ?thesis
    using cluster_act[OF 3 f(4), of 1] view(2,4) rd by (auto simp: two_nodes_def)
qed

text \<open>A close that nobody disturbs, for the examples: its three steps at once.\<close>

definition close_alone :: "env \<Rightarrow> string \<Rightarrow> nat \<Rightarrow> cluster \<Rightarrow> cluster res" where
  "close_alone env q i c =
     rbind (setCommitted env q (node_view c i)) (\<lambda>s.
     rbind (getAndCreateMetadataPath env q (srv_fs s)) (\<lambda>(m, f).
       if fs_exists f (lock_name m) then Inl Blocked else if fs_is_directory f m then Inl Undefined
       else Inr (goes_on (after_node c i s) i Serving
         (store_count m (read_long f m + 1) (write_text m [] (touch (lock_name m) f))))))"

lemma close_alone_runs:
  assumes "closes_run env p c k c'" and "close_alone env p i c' = Inr c''" and "counting_close env req p (node_view c' i)"
    and "i < length (cl_servers c')" and "cl_closing c' i = Serving"
  shows "closes_run env p c (Suc k) c''"
proof -
  from assms(2) obtain s m f where s: "setCommitted env p (node_view c' i) = Inr s"
      "getAndCreateMetadataPath env p (srv_fs s) = Inr (m, f)" "\<not> fs_exists f (lock_name m)" "\<not> fs_is_directory f m"
    and c'': "c'' = goes_on (after_node c' i s) i Serving
         (store_count m (read_long f m + 1) (write_text m [] (touch (lock_name m) f)))"
    by (auto simp: close_alone_def res_simps split: if_splits)
  have m: "m = metadata_path env p" using s(2) by (simp add: metadata_Inr)
  let ?c1 = "goes_on (after_node c' i s) i (Spins p) (srv_fs s)"
  let ?g = "write_text m [] (touch (lock_name m) f)"
  let ?c2 = "goes_on ?c1 i (Emptied p (read_long f m + 1)) ?g"
  have 1: "closes_run env p c k ?c1"
    by (rule closes_run.other[OF assms(1) close_commits[OF assms(4,5,3) s(1)]])
  have "cluster_step env (keeps_token env p) ?c1 ?c2" using s(2-4) by (intro close_empties) simp_all
  from closes_run.close[OF closes_run.other[OF 1 this], of i]
  have "closes_run env p c (Suc k) (goes_on ?c2 i Serving (store_count m (read_long f m + 1) ?g))" by (simp add: m)
  moreover have "goes_on ?c2 i Serving (store_count m (read_long f m + 1) ?g) = c''" by (simp add: c'' goes_on_def)
  ultimately show ?thesis by simp
qed

text \<open>C10: In a cluster of servers over one file system, once \<open>k\<close> closes of a file by producers have been
  counted, on any nodes and among any other steps (the applications leave the token alone), and in a
  moment in which no server is between emptying the token and storing the new count, a node whose
  rule asks for no more than \<open>k\<close> closes takes the file for committed, whichever nodes the closes were
  served on: a look of its monitor at the file then succeeds, answers every thread of the node that
  waits for its data with the size of the file, and leaves none waiting. A close is not one step
  here: the other servers can act, and read the token, after the commit, while it waits for the lock
  file, and while the token is empty.\<close>

theorem closes_reach_every_node:
  assumes "cluster_reachable env engs c" and "\<forall>eng \<in> set engs. umap_wf eng"
    and "0 \<le> token_read env p (cl_fs c)" and "\<forall>i n. \<not> rewritten env p c i n"
    and "closes_run env p c k c'" and "0 < k" and "int k \<le> LONG_MAX" and "\<forall>i n. \<not> rewritten env p c' i n"
    and "j < length engs" and "map_of (cl_fs c') p = Some (Reg b)" and "0 < stack_depth env"
    and "getCommitRule (srv_engine (node_view c' j)) p = CAPIO_FILE_COMMITTED_ON_CLOSE"
    and "getCommitCloseCount (srv_engine (node_view c' j)) p \<in> {-1} \<union> {..int k}"
  shows "\<exists>s. monitor_data env [p] (node_view c' j) = Inr s \<and> cluster_step env anything c' (after_node c' j s) \<and>
    data_waiters s p = [] \<and>
    (\<forall>t \<in> fst ` set (data_waiters (node_view c' j) p). bufs_response (srv_clients s) t = Some [of_nat (length b)])"
proof -
  let ?s = "node_view c' j"
  note reach = closes_run_reachable[OF assms(5,1)]
  have inv: "server_inv ?s" using cluster_inv(1)[OF reach assms(2)] assms(9) by blast
  have "counted env p k c'" by (rule closes_run_counts[OF assms(5,3,4,7)])
  then have c: "isCommitted env p ?s = Inr (True, ?s)"
    using assms(6,8,10-13) by (intro counted_committed[of env p ?s "int k"]) (auto simp: counted_def fs_is_directory_def)
  have v: "filesize_of (srv_fs ?s) p = Inr (of_nat (length b))"
    using assms(10) by (simp add: filesize_of_def fs_is_directory_def get_file_size_if_exists_def)
  have e: "map_of (srv_engine ?s) p \<noteq> None"
    using assms(12) by (auto simp: getCommitRule_def split: option.splits)
  have r: "released ?s p True v t" for v t by (simp add: released_def)
  from data_wakes[OF inv e c v] r obtain s where
    s: "checkAndUnlockThreadAwaitingData env p ?s = Inr s"
      "\<forall>t \<in> fst ` set (data_waiters ?s p). bufs_response (srv_clients s) t = Some [of_nat (length b)]" by blast
  have wf: "umap_wf (data_waiters ?s p)"
    using inv by (auto simp: server_inv_def waiting_wf_def data_waiters_def split: option.splits)
  have m: "monitor_data env [p] ?s = Inr s" using s(1) assms(10) by (simp add: fs_exists_def)
  have "data_waiters s p = []" using checkAndUnlock_partition(1)[OF s(1) wf c v, of p] r by simp
  moreover have "cluster_step env anything c' (after_node c' j s)"
    using cluster_inv(2)[OF reach assms(2)] assms(9) own_step.poll_data[OF m] by (intro watches) auto
  ultimately show ?thesis using s(2) m by blast
qed

definition two_closed :: "cluster res" where
  "two_closed = rbind (close_alone sample_env ''/d/p'' 0 two_nodes) (close_alone sample_env ''/d/p'' 1)"

lemma closes_reach_every_node_witness:
  "\<exists>c s. two_closed = Inr c \<and> monitor_data sample_env [''/d/p''] (node_view c 1) = Inr s \<and>
     data_waiters (node_view c 1) ''/d/p'' = [(6, 100)] \<and> bufs_response (srv_clients s) 6 = Some [3]"
proof -
  let ?env = sample_env and ?p = "''/d/p''"
  let ?req = "\<lambda>t. slot_of (\<lambda>_. CHR 0x00) (request_text (Close t ?p))"
  have "case two_closed of Inl _ \<Rightarrow> False | Inr c \<Rightarrow> map_of (cl_fs c) ?p = Some (Reg ''abc'') \<and>
      getCommitRule (srv_engine (node_view c 1)) ?p = CAPIO_FILE_COMMITTED_ON_CLOSE \<and>
      getCommitCloseCount (srv_engine (node_view c 1)) ?p = 2 \<and> data_waiters (node_view c 1) ?p = [(6, 100)]"
    by code_simp
  then obtain c where c: "two_closed = Inr c" "map_of (cl_fs c) ?p = Some (Reg ''abc'')"
      "getCommitRule (srv_engine (node_view c 1)) ?p = CAPIO_FILE_COMMITTED_ON_CLOSE"
      "getCommitCloseCount (srv_engine (node_view c 1)) ?p = 2" "data_waiters (node_view c 1) ?p = [(6, 100)]"
    by (auto split: sum.splits)
  then obtain c1 where c1: "close_alone ?env ?p 0 two_nodes = Inr c1" "close_alone ?env ?p 1 c1 = Inr c"
    by (auto simp: two_closed_def res_simps)
  have l: "length (cl_servers two_nodes) = 2" by code_simp
  from c1(1) obtain f where v: "node_view c1 1 = (node_view two_nodes 1)\<lparr>srv_fs := f\<rparr>"
      "length (cl_servers c1) = 2" "cl_closing c1 = (\<lambda>_. Serving)"
    by (auto simp: close_alone_def res_simps view_after l split: if_splits) (auto simp: two_nodes_def)
  have "\<forall>j. cl_closing c j = Serving"
    using c1(2) v(3) by (auto simp: close_alone_def res_simps split: if_splits)
  then have quiet: "\<forall>i n. \<not> rewritten ?env ?p two_nodes i n" "\<forall>i n. \<not> rewritten ?env ?p c i n"
    by (simp_all add: rewritten_def two_nodes_def)
  have d: "decode_request (?req 5) = Some (Close 5 ?p)" "decode_request (?req 7) = Some (Close 7 ?p)"
    by (rule decode_encode, code_simp)+
  have k: "handled ?env ?p" "getCommitRule (srv_engine (node_view two_nodes 0)) ?p = CAPIO_FILE_COMMITTED_ON_CLOSE"
    "getCommitRule (srv_engine (node_view two_nodes 1)) ?p = CAPIO_FILE_COMMITTED_ON_CLOSE"
    "isProducer (srv_clients (node_view two_nodes 0)) (srv_engine (node_view two_nodes 0)) ?p 5 = Inr True"
    "isProducer (srv_clients (node_view two_nodes 1)) (srv_engine (node_view two_nodes 1)) ?p 7 = Inr True"
    by code_simp+
  have n: "counting_close ?env (?req 5) ?p (node_view two_nodes 0)" "counting_close ?env (?req 7) ?p (node_view c1 1)"
    using k d by (auto simp: counting_close_def v simp del: One_nat_def)
  have "closes_run ?env ?p two_nodes (Suc 0) c1"
    by (rule close_alone_runs[OF closes_run.none c1(1) n(1)]) (simp_all add: l, simp add: two_nodes_def)
  then have "closes_run ?env ?p two_nodes (Suc (Suc 0)) c"
    by (rule close_alone_runs[OF _ c1(2) n(2)]) (simp_all add: v)
  moreover have "0 \<le> token_read ?env ?p (cl_fs two_nodes)" "umap_wf two_closes" "0 < stack_depth ?env" by code_simp+
  ultimately have "\<exists>s. monitor_data ?env [?p] (node_view c 1) = Inr s \<and> bufs_response (srv_clients s) 6 = Some [3]"
    using closes_reach_every_node[OF two_nodes_reachable, of ?p 2 c 1 "''abc''"] c quiet
    by (simp add: LONG_MAX_def numeral_2_eq_2 del: monitor_data.simps One_nat_def) blast
  with c show ?thesis by blast
qed

end
