(* ===== verification/LogText.thy ===== *)
theory LogText
  imports Environment
begin

text \<open>
  The texts of the logger (\<open>src/common/capio/logger.hpp\<close>), for both builds that include it: where
  the log file of a thread is, and how a line is put together by \<open>printf\<close> from a format and its
  arguments. A buffer that is too short for what is written into it is undefined behaviour, and so
  is a conversion without an argument for it.
\<close>

definition CAPIO_DEFAULT_LOG_FOLDER :: string where
  "CAPIO_DEFAULT_LOG_FOLDER = ''capio_logs''"

definition CAPIO_LOG_POSIX_DEFAULT_LOG_FILE_PREFIX :: string where
  "CAPIO_LOG_POSIX_DEFAULT_LOG_FILE_PREFIX = ''posix_thread_''"

definition CAPIO_SERVER_DEFAULT_LOG_FILE_PREFIX :: string where
  "CAPIO_SERVER_DEFAULT_LOG_FILE_PREFIX = ''server_thread_''"

definition CAPIO_LOG_PRE_MSG :: string where
  "CAPIO_LOG_PRE_MSG = ''at[%s]: ''"

definition CAPIO_LOG_MAX_MSG_LEN :: nat where
  "CAPIO_LOG_MAX_MSG_LEN = 2048"

definition CAPIO_LOG_POSIX_SYSCALL_START :: string where
  "CAPIO_LOG_POSIX_SYSCALL_START = CHR 0x0A # ''+++++++++ SYSCALL %s (%d) +++++++++''"

definition CAPIO_LOG_POSIX_SYSCALL_END :: string where
  "CAPIO_LOG_POSIX_SYSCALL_END = ''~~~~~~~~~  END SYSCALL ~~~~~~~~~'' @ [CHR 0x0A]"

definition CAPIO_LOG_SERVER_REQUEST_START :: string where
  "CAPIO_LOG_SERVER_REQUEST_START = ''+++++++++++ REQUEST +++++++++++''"

definition CAPIO_LOG_SERVER_REQUEST_END :: string where
  "CAPIO_LOG_SERVER_REQUEST_END = ''~~~~~~~~~ END REQUEST ~~~~~~~~~'' @ [CHR 0x0A]"

definition HOST_NAME_MAX :: nat where "HOST_NAME_MAX = 64"

text \<open>
  What a thread of a build sees of its surroundings: the variables of the environment, the name of
  the host, its own id, the generated table of the names of system calls, the level fixed when the
  program was built, the descriptor the next file to be opened gets, and the folder and prefix the
  server was started with.
\<close>

record log_world =
  lw_posix :: bool
  lw_getenv :: variables
  lw_host :: string
  lw_tid :: tid
  lw_syscall_name :: "int \<Rightarrow> string"
  lw_max_level :: int
  lw_fd :: fd
  lw_master_dir :: string
  lw_prefix :: string

subsection \<open>The name of the log file\<close>

text \<open>A string and its terminator, written into a buffer of \<open>n\<close> bytes.\<close>

definition write_buf :: "nat \<Rightarrow> string \<Rightarrow> string res" where
  "write_buf n s = (if length s < n then Inr s else Inl Undefined)"

text \<open>\<open>gethostname\<close> leaves a name that fills the buffer without its terminator.\<close>

definition host_name :: "log_world \<Rightarrow> string res" where
  "host_name w = write_buf HOST_NAME_MAX (lw_host w)"

text \<open>The static variables of the functions below, \<open>None\<close> for a null pointer.\<close>

record log_statics =
  ls_hostname :: "string option"
  ls_log_dir :: "string option"
  ls_prefix :: "string option"
  ls_posix_dir :: "string option"
  ls_host_dir :: "string option"

definition no_statics :: log_statics where
  "no_statics = \<lparr>ls_hostname = None, ls_log_dir = None, ls_prefix = None, ls_posix_dir = None, ls_host_dir = None\<rparr>"

definition get_hostname :: "log_world \<Rightarrow> log_statics \<Rightarrow> (string \<times> log_statics) res" where
  "get_hostname w s =
     (case ls_hostname s of
        Some hostname_prefix \<Rightarrow> Inr (hostname_prefix, s)
      | None \<Rightarrow> rbind (host_name w) (\<lambda>h. Inr (h, s\<lparr>ls_hostname := Some h\<rparr>)))"

definition get_log_dir :: "log_world \<Rightarrow> log_statics \<Rightarrow> (string \<times> log_statics) res" where
  "get_log_dir w s =
     (case ls_log_dir s of
        Some posix_log_master_dir_name \<Rightarrow> Inr (posix_log_master_dir_name, s)
      | None \<Rightarrow>
          rbind (case lw_getenv w ''CAPIO_LOG_DIR'' of
                   Some d \<Rightarrow> Inr d
                 | None \<Rightarrow> write_buf (length CAPIO_DEFAULT_LOG_FOLDER) CAPIO_DEFAULT_LOG_FOLDER) (\<lambda>d.
          Inr (d, s\<lparr>ls_log_dir := Some d\<rparr>)))"

definition get_log_prefix :: "log_world \<Rightarrow> log_statics \<Rightarrow> (string \<times> log_statics) res" where
  "get_log_prefix w s =
     (case ls_prefix s of
        Some posix_logfile_prefix \<Rightarrow> Inr (posix_logfile_prefix, s)
      | None \<Rightarrow>
          rbind (case lw_getenv w ''CAPIO_LOG_PREFIX'' of
                   Some d \<Rightarrow> Inr d
                 | None \<Rightarrow> write_buf (length CAPIO_LOG_POSIX_DEFAULT_LOG_FILE_PREFIX)
                            CAPIO_LOG_POSIX_DEFAULT_LOG_FILE_PREFIX) (\<lambda>d.
          Inr (d, s\<lparr>ls_prefix := Some d\<rparr>)))"

definition get_posix_log_dir :: "log_world \<Rightarrow> log_statics \<Rightarrow> (string \<times> log_statics) res" where
  "get_posix_log_dir w s =
     (case ls_posix_dir s of
        Some posix_log_dir_path \<Rightarrow> Inr (posix_log_dir_path, s)
      | None \<Rightarrow>
          rbind (get_log_dir w s) (\<lambda>(d, s1).
          rbind (write_buf (length d + 7) (d @ ''/posix'')) (\<lambda>p.
          Inr (p, s1\<lparr>ls_posix_dir := Some p\<rparr>))))"

definition get_host_log_dir :: "log_world \<Rightarrow> log_statics \<Rightarrow> (string \<times> log_statics) res" where
  "get_host_log_dir w s =
     (case ls_host_dir s of
        Some host_log_dir_path \<Rightarrow> Inr (host_log_dir_path, s)
      | None \<Rightarrow>
          rbind (get_posix_log_dir w s) (\<lambda>(d, s1).
          rbind (get_hostname w s1) (\<lambda>(h, s2).
          rbind (write_buf (length d + HOST_NAME_MAX) (d @ ''/'' @ h)) (\<lambda>p.
          Inr (p, s2\<lparr>ls_host_dir := Some p\<rparr>)))))"

text \<open>\<open>logfile_path\<close> is a thread-local array, empty until the first call.\<close>

definition setup_posix_log_filename ::
    "log_world \<Rightarrow> string \<Rightarrow> log_statics \<Rightarrow> (string \<times> log_statics) res" where
  "setup_posix_log_filename w logfile_path s =
     (if logfile_path \<noteq> [] then Inr (logfile_path, s)
      else rbind (get_host_log_dir w s) (\<lambda>(d, s1).
           rbind (get_log_prefix w s1) (\<lambda>(prefix, s2).
           rbind (write_buf PATH_MAX (d @ ''/'' @ prefix @ show_int (lw_tid w) @ ''.log'')) (\<lambda>p.
           Inr (p, s2)))))"

text \<open>The server joins strings; only the name of the host goes through a fixed buffer.\<close>

definition server_log_names :: "log_world \<Rightarrow> (string \<times> string) res" where
  "server_log_names w =
     rbind (host_name w) (\<lambda>hostname.
       let output_folder = lw_master_dir w @ ''/server/'' @ hostname in
       Inr (output_folder, output_folder @ ''/'' @ lw_prefix w @ show_int (lw_tid w) @ ''.log''))"

text \<open>The prefix given to the server on its command line.\<close>

definition logfile_argument :: "string \<Rightarrow> string" where
  "logfile_argument token =
     (if sublist ''.log'' token then take (length token - 4) token else token)"

lemma write_buf_Inr [res_simps]: "write_buf n s = Inr s' \<longleftrightarrow> length s < n \<and> s' = s"
  by (auto simp: write_buf_def)

subsection \<open>The text of a line\<close>

text \<open>
  The conversions of \<open>printf\<close> the messages of the program use: \<open>%s\<close>, the signed \<open>d\<close>, the unsigned
  \<open>u\<close>, \<open>x\<close>, \<open>X\<close> and \<open>o\<close>, of an \<open>int\<close> or with the modifiers \<open>l\<close> and \<open>ll\<close> of 64 bits, padded to a width.
  A conversion without an argument, or whose argument is of another kind, is undefined. The program
  prints no percent sign.
\<close>

datatype log_arg = Num int | Str string

definition is_conversion_digit :: "char \<Rightarrow> bool" where
  "is_conversion_digit c \<longleftrightarrow> c \<in> set digits"

text \<open>After the percent sign: the padding character, the width, the modifiers and the letter.\<close>

definition conversion :: "string \<Rightarrow> ((char \<times> nat \<times> nat \<times> char) \<times> string) option" where
  "conversion s =
     (let fill_char = (if s \<noteq> [] \<and> hd s = CHR ''0'' then CHR ''0'' else CHR '' '');
          wd = takeWhile is_conversion_digit s; s1 = dropWhile is_conversion_digit s;
          bits = (if s1 \<noteq> [] \<and> hd s1 = CHR ''l'' then 64 else 32);
          s2 = dropWhile (\<lambda>c. c = CHR ''l'') s1 in
      case s2 of
        [] \<Rightarrow> None
      | c # rest \<Rightarrow> Some ((fill_char, foldl (\<lambda>n d. 10 * n + (of_char d - 48)) 0 wd, bits, c), rest))"

text \<open>The digits of a number in a base, from a table of digits.\<close>

fun show_base :: "string \<Rightarrow> nat \<Rightarrow> nat \<Rightarrow> string" where
  "show_base ds b n =
     (if b < 2 \<or> n < b then [ds ! n] else show_base ds b (n div b) @ [ds ! (n mod b)])"

declare show_base.simps [simp del]

definition pad_to :: "char \<Rightarrow> nat \<Rightarrow> string \<Rightarrow> string" where
  "pad_to fill_char wd s = replicate (wd - length s) fill_char @ s"

definition show_arg :: "char \<times> nat \<times> nat \<times> char \<Rightarrow> log_arg \<Rightarrow> string option" where
  "show_arg = (\<lambda>(fill_char, wd, bits, c) a.
     (case a of
        Str s \<Rightarrow> if c = CHR ''s'' then Some (pad_to CHR '' '' wd s) else None
      | Num n \<Rightarrow>
          let u = nat (take_bit bits n); i = signed_take_bit (bits - 1) n in
          if c = CHR ''d'' then
            Some (if i < 0 \<and> fill_char = CHR ''0'' then CHR ''-'' # pad_to fill_char (wd - 1) (show_nat (nat (- i)))
                  else pad_to fill_char wd (show_int i))
          else if c = CHR ''u'' then Some (pad_to fill_char wd (show_nat u))
          else if c = CHR ''x'' then Some (pad_to fill_char wd (show_base ''0123456789abcdef'' 16 u))
          else if c = CHR ''X'' then Some (pad_to fill_char wd (show_base ''0123456789ABCDEF'' 16 u))
          else if c = CHR ''o'' then Some (pad_to fill_char wd (show_base digits 8 u))
          else None))"

lemma conversion_shorter: "conversion s = Some (k, rest) \<Longrightarrow> length rest < length s"
proof -
  assume c: "conversion s = Some (k, rest)"
  let ?s2 = "dropWhile (\<lambda>c. c = CHR ''l'') (dropWhile is_conversion_digit s)"
  have "length ?s2 \<le> length s"
    by (meson length_dropWhile_le le_trans)
  moreover have "length rest < length ?s2"
    using c by (auto simp: conversion_def Let_def split: list.splits)
  ultimately show ?thesis by simp
qed

function c_format :: "string \<Rightarrow> log_arg list \<Rightarrow> string option" where
  "c_format [] args = Some []"
| "c_format (c # cs) args =
     (if c \<noteq> CHR ''%'' then map_option ((#) c) (c_format cs args)
      else case conversion cs of
             None \<Rightarrow> None
           | Some (k, rest) \<Rightarrow>
               (case args of
                  [] \<Rightarrow> None
                | a # as \<Rightarrow>
                    (case show_arg k a of
                       None \<Rightarrow> None
                     | Some s \<Rightarrow> map_option ((@) s) (c_format rest as))))"
  by pat_completeness auto
termination
  by (relation "measure (length \<circ> fst)") (auto dest!: conversion_shorter)

declare c_format.simps(2) [simp del]

text \<open>How many arguments a format reads.\<close>

function conversions :: "string \<Rightarrow> nat" where
  "conversions [] = 0"
| "conversions (c # cs) =
     (if c \<noteq> CHR ''%'' then conversions cs
      else case conversion cs of None \<Rightarrow> 1 | Some (k, rest) \<Rightarrow> Suc (conversions rest))"
  by pat_completeness auto
termination
  by (relation "measure length") (auto dest!: conversion_shorter)

declare conversions.simps(2) [simp del]

lemma format_reads_conversions: "c_format f as = Some s \<Longrightarrow> conversions f \<le> length as"
proof (induction f as arbitrary: s rule: c_format.induct)
  case (2 c cs as)
  then show ?case
    by (auto simp: c_format.simps(2)[of c] conversions.simps(2)[of c]
        split: if_splits option.splits list.splits prod.splits)
qed simp

lemma format_plain:
  "CHR ''%'' \<notin> set p \<Longrightarrow> c_format (p @ f) as = map_option ((@) p) (c_format f as)"
  by (induction p; cases "c_format f as") (auto simp: c_format.simps(2))

lemma conversions_plain: "CHR ''%'' \<notin> set p \<Longrightarrow> conversions (p @ f) = conversions f"
  by (induction p) (auto simp: conversions.simps(2))

subsection \<open>Where the log file is\<close>

lemmas log_name_simps = setup_posix_log_filename_def get_host_log_dir_def get_posix_log_dir_def get_log_dir_def
  get_log_prefix_def get_hostname_def host_name_def no_statics_def write_buf_def HOST_NAME_MAX_def

text \<open>The name of the log file of a thread is the one the comments describe exactly when both
  variables are set, the name of the host has at most 62 characters and the whole fits a path; in
  every other case, with none of the variables set in particular, naming the file writes past one
  of its buffers.\<close>

theorem log_file_name:
  "(\<exists>s. setup_posix_log_filename w [] no_statics = Inr (p, s)) \<longleftrightarrow>
     (\<exists>d prefix. lw_getenv w ''CAPIO_LOG_DIR'' = Some d \<and> lw_getenv w ''CAPIO_LOG_PREFIX'' = Some prefix \<and>
        length (lw_host w) \<le> 62 \<and> length p < PATH_MAX \<and>
        p = d @ ''/posix/'' @ lw_host w @ ''/'' @ prefix @ show_int (lw_tid w) @ ''.log'') \<and>
   (setup_posix_log_filename w [] no_statics = Inl Undefined \<or>
    (\<exists>r. setup_posix_log_filename w [] no_statics = Inr r))"
proof (cases "lw_getenv w ''CAPIO_LOG_DIR''")
  case None
  then show ?thesis
    by (simp add: log_name_simps)
next
  case (Some d)
  then show ?thesis
    by (cases "lw_getenv w ''CAPIO_LOG_PREFIX''") (auto simp: log_name_simps)
qed

lemma write_buf_fault: "write_buf n s = Inl e \<Longrightarrow> e = Undefined"
  by (simp add: write_buf_def split: if_splits)

lemma log_name_faults:
  "get_log_dir w s = Inl e \<Longrightarrow> e = Undefined"
  "get_log_prefix w s = Inl e \<Longrightarrow> e = Undefined"
  "get_hostname w s = Inl e \<Longrightarrow> e = Undefined"
  by (auto simp: get_log_dir_def get_log_prefix_def get_hostname_def host_name_def rbind_Inl_iff
      dest: write_buf_fault split: option.splits)

lemma log_folder_faults:
  "get_posix_log_dir w s = Inl e \<Longrightarrow> e = Undefined"
  by (auto simp: get_posix_log_dir_def rbind_Inl_iff dest: write_buf_fault log_name_faults split: option.splits)

lemma host_folder_faults:
  "get_host_log_dir w s = Inl e \<Longrightarrow> e = Undefined"
  by (auto simp: get_host_log_dir_def rbind_Inl_iff
      dest: write_buf_fault log_name_faults log_folder_faults split: option.splits)

lemma setup_faults: "setup_posix_log_filename w p s = Inl e \<Longrightarrow> e = Undefined"
  by (auto simp: setup_posix_log_filename_def rbind_Inl_iff
      dest: write_buf_fault log_name_faults host_folder_faults split: if_splits)

subsection \<open>The message of a second server\<close>

definition CAPIO_SHM_CANARY_ERROR :: string where
  "CAPIO_SHM_CANARY_ERROR =
     ''FATAL ERROR:  Shared memories for workflow %s already '' @
     ''exists. One of two (or both) reasons are to blame: '' @ CHR 0x0A # ''             '' @
     ''either a previous run of CAPIO terminated without '' @
     ''cleaning up memory, or another instance of CAPIO'' @ CHR 0x0A # ''             '' @
     ''is already running. Clean shared memory and then retry''"

text \<open>\<open>new char[strlen]\<close> of the format, and \<open>sprintf\<close> with the name of the workflow into it.\<close>

definition canary_message :: "string \<Rightarrow> string res" where
  "canary_message canary_name =
     (case c_format CAPIO_SHM_CANARY_ERROR [Str canary_name] of
        None \<Rightarrow> Inl Undefined
      | Some m \<Rightarrow> if length m < length CAPIO_SHM_CANARY_ERROR then Inr m else Inl Undefined)"

text \<open>The two characters of the conversion make room for a name of one character and the terminator:
  the message for any longer name, that of the default workflow included, overruns its buffer.\<close>

lemma canary_message_overruns: "canary_message name = Inl Undefined \<longleftrightarrow> 2 \<le> length name"
proof -
  let ?pre = "''FATAL ERROR:  Shared memories for workflow ''"
  define post where "post = '' already '' @
     ''exists. One of two (or both) reasons are to blame: '' @ CHR 0x0A # ''             '' @
     ''either a previous run of CAPIO terminated without '' @
     ''cleaning up memory, or another instance of CAPIO'' @ CHR 0x0A # ''             '' @
     ''is already running. Clean shared memory and then retry''"
  have split: "CAPIO_SHM_CANARY_ERROR = ?pre @ CHR ''%'' # CHR ''s'' # post"
    by (simp add: CAPIO_SHM_CANARY_ERROR_def post_def)
  have pre: "CHR ''%'' \<notin> set ?pre" and post: "CHR ''%'' \<notin> set post"
    unfolding post_def by code_simp+
  have "c_format post [] = Some post" using format_plain[OF post, of "[]" "[]"] by simp
  moreover have "conversion (CHR ''s'' # post) = Some ((CHR '' '', 0, 32, CHR ''s''), post)"
    by (simp add: conversion_def is_conversion_digit_def digits_def)
  ultimately have "c_format (CHR ''%'' # CHR ''s'' # post) [Str name] = Some (name @ post)"
    by (simp add: c_format.simps(2) show_arg_def pad_to_def)
  then have "c_format CAPIO_SHM_CANARY_ERROR [Str name] = Some (?pre @ name @ post)"
    unfolding split format_plain[OF pre] by simp
  then show ?thesis by (simp add: canary_message_def) (simp add: split not_less)
qed

end
