(* ===== verification/Logging.thy ===== *)
theory Logging
  imports LogText
begin

text \<open>
  What a \<open>Logger\<close> (\<open>src/common/capio/logger.hpp\<close>) writes when it is created, used and destroyed, in
  the library and in the server, and the log of a run against the transcript of its statements.
\<close>

subsection \<open>The log of a thread\<close>

text \<open>
  \<open>lg_open\<close> is \<open>logfileOpen\<close> or \<open>logfile.is_open ()\<close>, \<open>lg_limit\<close> the variable \<open>CAPIO_LOG_LEVEL\<close>,
  \<open>lg_lines\<close> what the file of the thread holds, each line without its line end.
\<close>

record log_state =
  lg_open :: bool
  lg_fd :: fd
  lg_path :: string
  lg_level :: int
  lg_syscalls :: bool
  lg_limit :: int
  lg_continue :: bool
  lg_lines :: "string list"
  lg_files :: fs
  lg_statics :: log_statics

text \<open>
  Raw system calls answer the negated error. The folder of a relative name without a slash is the
  working directory, which exists.
\<close>

definition folder_exists :: "string \<Rightarrow> fs \<Rightarrow> bool" where
  "folder_exists p f \<longleftrightarrow> parent_path p = [] \<or> fs_is_directory f (parent_path p)"

definition sys_mkdir :: "string \<Rightarrow> fs \<Rightarrow> fs" where
  "sys_mkdir p f = (if folder_exists p f then emplace p Dir f else f)"

definition sys_open_log :: "fd \<Rightarrow> string \<Rightarrow> fs \<Rightarrow> fd \<times> fs" where
  "sys_open_log d p f =
     (if fs_is_directory f p then (- EISDIR, f)
      else if \<not> folder_exists p f then (- ENOENT, f)
      else (d, AList.update p (Reg []) f))"

definition open_posix_logfile :: "log_world \<Rightarrow> log_state \<Rightarrow> log_state res" where
  "open_posix_logfile w st =
     rbind (setup_posix_log_filename w (lg_path st) (lg_statics st)) (\<lambda>(p, s).
     rbind (get_log_dir w s) (\<lambda>(d1, s1).
     rbind (get_posix_log_dir w s1) (\<lambda>(d2, s2).
     rbind (get_host_log_dir w s2) (\<lambda>(d3, s3).
       let f = sys_mkdir d3 (sys_mkdir d2 (sys_mkdir d1 (lg_files st)));
           (logfileFD, f') = sys_open_log (lw_fd w) p f in
       if logfileFD = -1 then Inl ErrExit
       else Inr (st\<lparr>lg_path := p, lg_level := 0, lg_files := f', lg_fd := logfileFD, lg_open := True,
                    lg_lines := [], lg_statics := s3\<rparr>)))))"

definition open_server_logfile :: "log_world \<Rightarrow> log_state \<Rightarrow> log_state res" where
  "open_server_logfile w st =
     rbind (server_log_names w) (\<lambda>(output_folder, logfile_name).
     rbind (create_directories output_folder (lg_files st)) (\<lambda>f.
       let (d, f') = sys_open_log (lw_fd w) logfile_name f in
       Inr (if d < 0 then st\<lparr>lg_files := f\<rparr>
            else st\<lparr>lg_path := logfile_name, lg_files := f', lg_fd := d, lg_open := True, lg_lines := []\<rparr>)))"

definition open_logfile :: "log_world \<Rightarrow> log_state \<Rightarrow> log_state res" where
  "open_logfile w st =
     (if lg_open st then Inr st
      else if lw_posix w then open_posix_logfile w st else open_server_logfile w st)"

text \<open>The level up to which a build writes: a constant, or the variable.\<close>

definition level_limit :: "log_world \<Rightarrow> log_state \<Rightarrow> int" where
  "level_limit w st = (if lw_posix w then lw_max_level w else lg_limit st)"

definition append_line :: "string \<Rightarrow> log_state \<Rightarrow> log_state" where
  \<comment> \<open>a write to a descriptor or stream that is not open has no effect\<close>
  "append_line buffer st =
     (if lg_open st \<and> 0 \<le> lg_fd st then st\<lparr>lg_lines := lg_lines st @ [buffer]\<rparr> else st)"

definition log_write_to :: "log_world \<Rightarrow> string \<Rightarrow> log_state \<Rightarrow> log_state" where
  "log_write_to w buffer st =
     (if lg_level st < level_limit w st \<or> level_limit w st < 0 then append_line buffer st else st)"

subsection \<open>A logger\<close>

definition format_or_undefined :: "string \<Rightarrow> log_arg list \<Rightarrow> string res" where
  "format_or_undefined f as = (case c_format f as of None \<Rightarrow> Inl Undefined | Some s \<Rightarrow> Inr s)"

text \<open>The array \<open>format\<close> of a logger: the prefix with the invoker, and the message as it is.\<close>

definition logger_format :: "string \<Rightarrow> string \<Rightarrow> string res" where
  "logger_format invoker message =
     rbind (format_or_undefined CAPIO_LOG_PRE_MSG [Str invoker]) (\<lambda>pre.
       write_buf CAPIO_LOG_MAX_MSG_LEN (pre @ message))"

text \<open>
  At the outermost level of a hooked call the first argument is taken off the list that measures
  the line; the line itself is printed from a copy of the list made before, into a buffer of the
  measured size. The header goes into a page.
\<close>

definition syscall_header ::
    "log_world \<Rightarrow> log_arg list \<Rightarrow> log_state \<Rightarrow> (log_arg list \<times> log_state) res" where
  "syscall_header w argp st =
     (if lw_posix w \<and> lg_level st = 0 \<and> lg_syscalls st then
        (case argp of
           Num n # argp' \<Rightarrow>
             rbind (format_or_undefined CAPIO_LOG_POSIX_SYSCALL_START
                      [Str (lw_syscall_name w (to_int32 n)), Num n]) (\<lambda>buf1.
             rbind (write_buf 4096 buf1) (\<lambda>buf1.
             Inr (argp', log_write_to w buf1 st)))
         | _ \<Rightarrow> Inl Undefined)
      else Inr (argp, st))"

definition logger_new ::
    "log_world \<Rightarrow> string \<Rightarrow> string \<Rightarrow> log_arg list \<Rightarrow> log_state \<Rightarrow> log_state res" where
  "logger_new w invoker message args st =
     rbind (open_logfile w st) (\<lambda>st1.
     rbind (write_buf 256 invoker) (\<lambda>invoker.
     rbind (logger_format invoker message) (\<lambda>format.
     rbind (syscall_header w args st1) (\<lambda>(argp, st2).
     rbind (format_or_undefined format argp) (\<lambda>measured.
     rbind (format_or_undefined format args) (\<lambda>line.
       let st3 = log_write_to w (take (length measured) line) st2 in
       Inr (st3\<lparr>lg_level := lg_level st3 + 1\<rparr>)))))))"

definition logger_delete :: "log_world \<Rightarrow> string \<Rightarrow> log_state \<Rightarrow> log_state res" where
  "logger_delete w invoker st =
     rbind (logger_format invoker ''returned'') (\<lambda>format.
       let st1 = log_write_to w format (st\<lparr>lg_level := lg_level st - 1\<rparr>) in
       Inr (if lw_posix w \<and> lg_level st1 = 0 \<and> lg_syscalls st1
            then log_write_to w CAPIO_LOG_POSIX_SYSCALL_END st1 else st1))"

definition logger_log ::
    "log_world \<Rightarrow> string \<Rightarrow> string \<Rightarrow> log_arg list \<Rightarrow> log_state \<Rightarrow> log_state res" where
  "logger_log w invoker message args st =
     rbind (logger_format invoker message) (\<lambda>format.
       if \<not> lw_posix w \<and> invoker = ''capio_server'' \<and>
          (message = CAPIO_LOG_SERVER_REQUEST_START \<or> message = CAPIO_LOG_SERVER_REQUEST_END)
       then Inr (append_line message st)
       else rbind (format_or_undefined format args) (\<lambda>line. Inr (log_write_to w line st)))"

text \<open>\<open>ERR_EXIT\<close> with logging compiled in; the flag tells whether the program has ended.\<close>

definition err_exit ::
    "log_world \<Rightarrow> string \<Rightarrow> string \<Rightarrow> log_arg list \<Rightarrow> log_state \<Rightarrow> (log_state \<times> bool) res" where
  "err_exit w invoker message args st =
     rbind (logger_log w invoker message args st) (\<lambda>st1. Inr (st1, \<not> lg_continue st1))"

definition start_syscall_logging :: "log_state \<Rightarrow> log_state" where
  "start_syscall_logging st = st\<lparr>lg_syscalls := True\<rparr>"

text \<open>\<open>SyscallLoggingSuspender\<close>: its constructor and its destructor.\<close>

definition suspend_syscall_logging :: "log_state \<Rightarrow> log_state" where
  "suspend_syscall_logging st = st\<lparr>lg_syscalls := False\<rparr>"

definition resume_syscall_logging :: "log_state \<Rightarrow> log_state" where
  "resume_syscall_logging st = st\<lparr>lg_syscalls := True\<rparr>"

subsection \<open>What a run of the code logs\<close>

text \<open>
  The logging statements of a run, nested as the calls are: \<open>LOG\<close>, \<open>ERR_EXIT\<close>, a scope opened by
  \<open>START_LOG\<close> (its invoker, message and arguments, and what happens inside), and a scope with
  \<open>SUSPEND_SYSCALL_LOGGING\<close>. An exit of the program leaves the open loggers as they are.
\<close>

datatype log_event =
    Msg string "log_arg list"
  | Fatal string "log_arg list"
  | Scope string string "log_arg list" "log_event list"
  | Suspended "log_event list"

fun run_event :: "log_world \<Rightarrow> string \<Rightarrow> log_event \<Rightarrow> log_state \<Rightarrow> (log_state \<times> bool) res"
  and run_events :: "log_world \<Rightarrow> string \<Rightarrow> log_event list \<Rightarrow> log_state \<Rightarrow> (log_state \<times> bool) res" where
  "run_event w invoker (Msg message args) st =
     rbind (logger_log w invoker message args st) (\<lambda>st1. Inr (st1, False))"
| "run_event w invoker (Fatal message args) st = err_exit w invoker message args st"
| "run_event w invoker (Scope f message args body) st =
     rbind (logger_new w f message args st) (\<lambda>st1.
     rbind (run_events w f body st1) (\<lambda>(st2, exited).
       if exited then Inr (st2, True)
       else rbind (logger_delete w f st2) (\<lambda>st3. Inr (st3, False))))"
| "run_event w invoker (Suspended body) st =
     rbind (run_events w invoker body (suspend_syscall_logging st)) (\<lambda>(st1, exited).
       Inr (if exited then st1 else resume_syscall_logging st1, exited))"
| "run_events w invoker [] st = Inr (st, False)"
| "run_events w invoker (e # es) st =
     rbind (run_event w invoker e st) (\<lambda>(st1, exited).
       if exited then Inr (st1, True) else run_events w invoker es st1)"

subsection \<open>The transcript of a run\<close>

text \<open>
  What the log is meant to hold: one line for each statement, with the depth of the calls around
  it; those whose depth is below the limit are written, up to the first statement that ends the
  program.
\<close>

definition message_text :: "string \<Rightarrow> string \<Rightarrow> log_arg list \<Rightarrow> string option" where
  "message_text invoker message args = map_option ((@) (''at['' @ invoker @ '']: '')) (c_format message args)"

record mark =
  mk_depth :: int
  mk_text :: string
  mk_fatal :: bool

definition mark_of :: "int \<Rightarrow> string \<Rightarrow> string \<Rightarrow> log_arg list \<Rightarrow> bool \<Rightarrow> mark" where
  "mark_of d invoker message args fatal =
     \<lparr>mk_depth = d, mk_text = the (message_text invoker message args), mk_fatal = fatal\<rparr>"

fun transcript :: "string \<Rightarrow> int \<Rightarrow> log_event \<Rightarrow> mark list" where
  "transcript invoker d (Msg message args) = [mark_of d invoker message args False]"
| "transcript invoker d (Fatal message args) = [mark_of d invoker message args True]"
| "transcript invoker d (Scope f message args body) =
     mark_of d f message args False # concat (map (transcript f (d + 1)) body) @ [mark_of d f ''returned'' [] False]"
| "transcript invoker d (Suspended body) = concat (map (transcript invoker d) body)"

fun upto_fatal :: "mark list \<Rightarrow> mark list" where
  "upto_fatal [] = []"
| "upto_fatal (m # ms) = m # (if mk_fatal m then [] else upto_fatal ms)"

definition ends_program :: "log_state \<Rightarrow> mark list \<Rightarrow> bool" where
  "ends_program st ms \<longleftrightarrow> \<not> lg_continue st \<and> (\<exists>m \<in> set ms. mk_fatal m)"

definition written :: "log_world \<Rightarrow> log_state \<Rightarrow> mark list \<Rightarrow> string list" where
  "written w st ms =
     map mk_text (filter (\<lambda>m. mk_depth m < level_limit w st \<or> level_limit w st < 0)
       (if lg_continue st then ms else upto_fatal ms))"

text \<open>Messages whose arguments fit their conversions and which fit the buffers.\<close>

definition message_ok :: "string \<Rightarrow> string \<Rightarrow> log_arg list \<Rightarrow> bool" where
  "message_ok invoker message args \<longleftrightarrow>
     CHR ''%'' \<notin> set invoker \<and> length invoker < 256 \<and> invoker \<noteq> ''capio_server'' \<and>
     length invoker + length message + 6 < CAPIO_LOG_MAX_MSG_LEN \<and> c_format message args \<noteq> None"

fun event_ok :: "string \<Rightarrow> log_event \<Rightarrow> bool" where
  "event_ok invoker (Msg message args) = message_ok invoker message args"
| "event_ok invoker (Fatal message args) = message_ok invoker message args"
| "event_ok invoker (Scope f message args body) = (message_ok f message args \<and> list_all (event_ok f) body)"
| "event_ok invoker (Suspended body) = list_all (event_ok invoker) body"

text \<open>A log that is open, in a place where no header of a system call is written.\<close>

definition log_ready :: "log_world \<Rightarrow> log_state \<Rightarrow> bool" where
  "log_ready w st \<longleftrightarrow> lg_open st \<and> 0 \<le> lg_fd st \<and> (lw_posix w \<longrightarrow> 0 < lg_level st)"

subsection \<open>The log against the transcript\<close>

lemma pre_msg: "c_format CAPIO_LOG_PRE_MSG [Str f] = Some (''at['' @ f @ '']: '')"
  by (simp add: CAPIO_LOG_PRE_MSG_def c_format.simps conversion_def is_conversion_digit_def digits_def
      show_arg_def pad_to_def)

lemma logger_format_ok:
  "length f + length m + 6 < CAPIO_LOG_MAX_MSG_LEN \<Longrightarrow> logger_format f m = Inr (''at['' @ f @ '']: '' @ m)"
  by (simp add: logger_format_def format_or_undefined_def pre_msg write_buf_def)

lemma format_message:
  "CHR ''%'' \<notin> set f \<Longrightarrow> c_format (''at['' @ f @ '']: '' @ m) as = message_text f m as"
  using format_plain[of "''at['' @ f @ '']: ''" m as] by (simp add: message_text_def)

lemma message_text_ok:
  assumes "message_ok f m as"
  shows "logger_format f m = Inr (''at['' @ f @ '']: '' @ m)"
    and "format_or_undefined (''at['' @ f @ '']: '' @ m) as = Inr (the (message_text f m as))"
  using assms by (auto simp: message_ok_def logger_format_ok format_or_undefined_def format_message
      message_text_def simp del: append.simps)

definition same_log :: "log_state \<Rightarrow> log_state \<Rightarrow> bool" where
  "same_log st st' \<longleftrightarrow> lg_open st' = lg_open st \<and> lg_fd st' = lg_fd st \<and> lg_limit st' = lg_limit st \<and>
     lg_continue st' = lg_continue st"

definition extends :: "log_world \<Rightarrow> log_state \<Rightarrow> mark list \<Rightarrow> log_state \<Rightarrow> bool" where
  "extends w st ms st' \<longleftrightarrow> same_log st st' \<and> lg_lines st' = lg_lines st @ written w st ms \<and>
     (\<not> ends_program st ms \<longrightarrow> lg_level st' = lg_level st)"

lemma ends_program_append [simp]:
  "ends_program st (ms @ ns) \<longleftrightarrow> ends_program st ms \<or> ends_program st ns"
  by (auto simp: ends_program_def)

lemma upto_fatal_append:
  "upto_fatal (ms @ ns) = (if \<exists>m \<in> set ms. mk_fatal m then upto_fatal ms else ms @ upto_fatal ns)"
  by (induction ms) auto

lemma upto_fatal_same: "\<forall>m \<in> set ms. \<not> mk_fatal m \<Longrightarrow> upto_fatal ms = ms"
  by (induction ms) auto

lemma written_append:
  "written w st (ms @ ns) =
     (if ends_program st ms then written w st ms else written w st ms @ written w st ns)"
  by (auto simp: written_def ends_program_def upto_fatal_append upto_fatal_same)

lemma level_limit_same: "same_log st st' \<Longrightarrow> level_limit w st' = level_limit w st"
  by (simp add: same_log_def level_limit_def)

lemma marks_same:
  "same_log st st' \<Longrightarrow> written w st' ms = written w st ms"
  "same_log st st' \<Longrightarrow> ends_program st' ms = ends_program st ms"
  by (simp_all add: written_def ends_program_def level_limit_same) (simp_all add: same_log_def)

lemma extends_trans:
  "extends w st ms st1 \<Longrightarrow> \<not> ends_program st ms \<Longrightarrow> extends w st1 ns st2 \<Longrightarrow> extends w st (ms @ ns) st2"
  by (auto simp: extends_def marks_same written_append) (auto simp: same_log_def)

lemma log_ready_extends:
  "log_ready w st \<Longrightarrow> extends w st ms st' \<Longrightarrow> \<not> ends_program st ms \<Longrightarrow> log_ready w st'"
  by (auto simp: log_ready_def extends_def same_log_def)

lemma write_extends:
  assumes "lg_open st" "0 \<le> lg_fd st" "mk_depth m = lg_level st" "mk_text m = s"
  shows "extends w st [m] (log_write_to w s st)"
  using assms by (simp add: extends_def written_def log_write_to_def append_line_def same_log_def)

lemma log_extends:
  assumes r: "log_ready w st" and ok: "message_ok f m as"
  shows "\<exists>st'. logger_log w f m as st = Inr st' \<and> extends w st [mark_of (lg_level st) f m as b] st'"
proof -
  have "f \<noteq> ''capio_server''"
    using ok by (simp add: message_ok_def)
  then have "logger_log w f m as st = Inr (log_write_to w (the (message_text f m as)) st)"
    by (simp add: logger_log_def message_text_ok[OF ok] del: append.simps)
  then show ?thesis
    using r by (intro exI[of _ "log_write_to w (the (message_text f m as)) st"] conjI write_extends)
      (simp_all add: log_ready_def mark_of_def)
qed

lemma new_extends:
  assumes r: "log_ready w st" and ok: "message_ok f m as"
  shows "\<exists>st'. logger_new w f m as st = Inr (st'\<lparr>lg_level := lg_level st' + 1\<rparr>) \<and>
    extends w st [mark_of (lg_level st) f m as False] st'"
proof -
  let ?l = "the (message_text f m as)"
  have "syscall_header w as st = Inr (as, st)" "open_logfile w st = Inr st" "write_buf 256 f = Inr f"
    using r ok by (auto simp: syscall_header_def log_ready_def open_logfile_def write_buf_def message_ok_def)
  then have "logger_new w f m as st = Inr ((log_write_to w ?l st)\<lparr>lg_level := lg_level (log_write_to w ?l st) + 1\<rparr>)"
    by (simp add: logger_new_def message_text_ok[OF ok] Let_def del: append.simps)
  then show ?thesis
    using r by (intro exI[of _ "log_write_to w ?l st"] conjI write_extends)
      (simp_all add: log_ready_def mark_of_def)
qed

lemma returned_ok: "message_ok f m as \<Longrightarrow> message_ok f ''returned'' []"
  by (auto simp: message_ok_def CAPIO_LOG_MAX_MSG_LEN_def c_format.simps)

lemma returned_text: "the (message_text f ''returned'' []) = ''at['' @ f @ '']: '' @ ''returned''"
  by (simp add: message_text_def c_format.simps)

lemma delete_extends:
  assumes r: "log_ready w st" "lg_level st' = lg_level st + 1" "same_log st st'" and ok: "message_ok f ''returned'' []"
  shows "\<exists>st2. logger_delete w f st' = Inr st2 \<and>
    extends w (st'\<lparr>lg_level := lg_level st\<rparr>) [mark_of (lg_level st) f ''returned'' [] False] st2"
proof -
  let ?st = "st'\<lparr>lg_level := lg_level st\<rparr>"
  let ?s = "log_write_to w (the (message_text f ''returned'' [])) ?st"
  have e: "extends w ?st [mark_of (lg_level st) f ''returned'' [] False] ?s"
    using r by (intro write_extends) (simp_all add: log_ready_def mark_of_def same_log_def)
  then have "lg_level ?s = lg_level st"
    by (simp add: extends_def ends_program_def mark_of_def)
  then have "logger_delete w f st' = Inr ?s"
    using r by (auto simp: logger_delete_def message_text_ok(1)[OF ok] returned_text Let_def log_ready_def
        simp del: append.simps append_Cons append_Nil)
  then show ?thesis using e by blast
qed

lemma extends_level: "extends w st ms st' \<Longrightarrow> extends w (st\<lparr>lg_level := a\<rparr>) ms (st'\<lparr>lg_level := a\<rparr>)"
  by (auto simp: extends_def same_log_def written_def level_limit_def ends_program_def)

lemma extends_cong:
  assumes "extends w s ms s'" "same_log st s" "lg_lines s = lg_lines st" "lg_level s = lg_level st"
    and "same_log s' st'" "lg_lines st' = lg_lines s'" "lg_level st' = lg_level s'"
  shows "extends w st ms st'"
  using assms marks_same[OF assms(2)] by (simp add: extends_def) (simp add: same_log_def)

lemma extends_stop:
  "extends w st ms st' \<Longrightarrow> ends_program st ms \<Longrightarrow> extends w st (ms @ ns) st'"
  by (simp add: extends_def written_append)

definition logs :: "log_world \<Rightarrow> mark list \<Rightarrow> log_state \<Rightarrow> (log_state \<times> bool) res \<Rightarrow> bool" where
  "logs w ms st r \<longleftrightarrow> (\<exists>st'. r = Inr (st', ends_program st ms) \<and> extends w st ms st')"

lemma logs_list:
  assumes "\<And>e st. e \<in> set es \<Longrightarrow> log_ready w st \<Longrightarrow> logs w (transcript f (lg_level st) e) st (run_event w f e st)"
    and "log_ready w st"
  shows "logs w (concat (map (transcript f (lg_level st)) es)) st (run_events w f es st)"
  using assms
proof (induction es arbitrary: st)
  case Nil
  then show ?case by (simp add: logs_def extends_def same_log_def written_def ends_program_def)
next
  case (Cons e es)
  let ?m = "transcript f (lg_level st) e"
  obtain st1 where 1: "run_event w f e st = Inr (st1, ends_program st ?m)" "extends w st ?m st1"
    using Cons.prems(1)[of e st] Cons.prems(2) by (auto simp: logs_def)
  show ?case
  proof (cases "ends_program st ?m")
    case True
    then show ?thesis
      using 1 by (auto simp: logs_def extends_stop)
  next
    case False
    then have "lg_level st1 = lg_level st" "log_ready w st1" "same_log st st1"
      using 1 Cons.prems(2) by (auto simp: extends_def intro: log_ready_extends)
    then have "logs w (concat (map (transcript f (lg_level st)) es)) st1 (run_events w f es st1)"
      using Cons.IH[of st1] Cons.prems(1) by simp
    then show ?thesis
      using 1 False \<open>same_log st st1\<close> by (auto simp: logs_def marks_same intro: extends_trans)
  qed
qed

lemma logs_scope:
  assumes r: "log_ready w st" and ok: "message_ok f m as"
    and body: "\<And>st. log_ready w st \<Longrightarrow> logs w (concat (map (transcript f (lg_level st)) es)) st (run_events w f es st)"
  shows "logs w (transcript g (lg_level st) (Scope f m as es)) st (run_event w g (Scope f m as es) st)"
proof -
  let ?m = "mark_of (lg_level st) f m as False" and ?r = "mark_of (lg_level st) f ''returned'' [] False"
  let ?b = "concat (map (transcript f (lg_level st + 1)) es)"
  obtain s1 where 1: "logger_new w f m as st = Inr (s1\<lparr>lg_level := lg_level s1 + 1\<rparr>)" "extends w st [?m] s1"
    using new_extends[OF r ok] by blast
  have n: "\<not> ends_program st [?m]"
    by (simp add: ends_program_def mark_of_def)
  then have l: "lg_level s1 = lg_level st" "same_log st s1"
    using 1 by (auto simp: extends_def)
  let ?s1 = "s1\<lparr>lg_level := lg_level s1 + 1\<rparr>"
  have "log_ready w ?s1" "same_log st ?s1"
    using r l by (auto simp: log_ready_def same_log_def)
  then obtain st2 where 2: "run_events w f es ?s1 = Inr (st2, ends_program st ?b)" "extends w ?s1 ?b st2"
    using body[of ?s1] l by (auto simp: logs_def marks_same)
  have "s1\<lparr>lg_level := lg_level st\<rparr> = s1"
    by (simp flip: l(1))
  then have 3: "extends w s1 ?b (st2\<lparr>lg_level := lg_level st\<rparr>)"
    using extends_level[OF 2(2), of "lg_level st"] by simp
  note 4 = extends_trans[OF 1(2) n 3]
  show ?thesis
  proof (cases "ends_program st ?b")
    case True
    then have e: "ends_program st ([?m] @ ?b)"
      by (auto simp: ends_program_def)
    then have "extends w st ([?m] @ ?b) st2"
      using 4 by (simp add: extends_def same_log_def)
    from extends_stop[OF this e, of "[?r]"] show ?thesis
      using 1 2 True by (auto simp: logs_def ends_program_def)
  next
    case False
    have "\<not> ends_program ?s1 ?b"
      using False marks_same(2)[OF \<open>same_log st ?s1\<close>, of ?b] by blast
    then have s2: "lg_level st2 = lg_level st + 1" "same_log ?s1 st2"
      using 2(2) l by (simp_all add: extends_def)
    have s3: "same_log st st2"
      using s2(2) l(2) by (simp add: same_log_def)
    obtain st3 where 5: "logger_delete w f st2 = Inr st3" "extends w (st2\<lparr>lg_level := lg_level st\<rparr>) [?r] st3"
      using delete_extends[OF r s2(1) s3 returned_ok[OF ok]] by blast
    have "\<not> ends_program st ([?m] @ ?b)"
      using False n by (auto simp: ends_program_def)
    from extends_trans[OF 4 this 5(2)] show ?thesis
      using 1 2 5 False n by (auto simp: logs_def ends_program_def mark_of_def)
  qed
qed

lemma run_logs:
  "log_ready w st \<Longrightarrow> event_ok f e \<Longrightarrow> logs w (transcript f (lg_level st) e) st (run_event w f e st)"
proof (induction e arbitrary: f st)
  case (Msg m as)
  then show ?case
    using log_extends[of w st f m as False] by (auto simp: logs_def ends_program_def mark_of_def)
next
  case (Fatal m as)
  obtain st1 where "logger_log w f m as st = Inr st1" "extends w st [mark_of (lg_level st) f m as True] st1"
    using log_extends[of w st f m as True] Fatal by auto
  then show ?case
    by (auto simp: logs_def err_exit_def extends_def same_log_def ends_program_def mark_of_def)
next
  case (Scope g m as es)
  then show ?case
    by (intro logs_scope logs_list) (auto simp: list_all_iff)
next
  case (Suspended es)
  let ?s = "suspend_syscall_logging st" and ?b = "concat (map (transcript f (lg_level st)) es)"
  have s: "lg_level ?s = lg_level st" "log_ready w ?s" "same_log st ?s" "lg_lines ?s = lg_lines st"
    using Suspended.prems by (auto simp: suspend_syscall_logging_def log_ready_def same_log_def)
  have "logs w (concat (map (transcript f (lg_level ?s)) es)) ?s (run_events w f es ?s)"
    using Suspended s by (intro logs_list) (auto simp: list_all_iff)
  then obtain st1 where 1: "run_events w f es ?s = Inr (st1, ends_program st ?b)" "extends w ?s ?b st1"
    using s by (auto simp: logs_def marks_same)
  then have "extends w st ?b st1"
    using s by (intro extends_cong[OF 1(2)]) (simp_all add: same_log_def)
  moreover have "extends w st ?b (resume_syscall_logging st1)"
    using s by (intro extends_cong[OF 1(2)]) (simp_all add: same_log_def resume_syscall_logging_def)
  ultimately have "extends w st ?b (if ends_program st ?b then st1 else resume_syscall_logging st1)"
    by simp
  then show ?case
    using 1 by (auto simp: logs_def)
qed

text \<open>C36: A run of the code whose log is open leaves in it exactly the transcript of its logging statements:
  the lines whose depth is below the limit of the build, in order, up to the message of the first exit
  when the program does not continue on errors; and the level is the one it had before, so that the
  depths of what follows are right. This is so where the arguments of every message fit its conversions
  and the line its buffer, as \<open>event_ok\<close> says, and, in the build of the library, below the first level: the
  outermost statement of an intercepted call writes a header and is not covered (once the logging of system calls
  has started it is undefined, \<open>hooked_call_log_undefined\<close>).\<close>

theorem log_is_filtered_transcript:
  assumes "lg_open st" and "0 \<le> lg_fd st" and "lw_posix w \<Longrightarrow> 0 < lg_level st" and "event_ok f e"
  shows "\<exists>st'. run_event w f e st = Inr (st', ends_program st (transcript f (lg_level st) e)) \<and>
    lg_lines st' = lg_lines st @ written w st (transcript f (lg_level st) e) \<and>
    (\<not> ends_program st (transcript f (lg_level st) e) \<longrightarrow> lg_level st' = lg_level st)"
proof -
  have "log_ready w st"
    using assms(1-3) by (simp add: log_ready_def)
  then show ?thesis
    using run_logs[of w st f e] assms(4) by (auto simp: logs_def extends_def)
qed

definition sample_log_world :: log_world where
  "sample_log_world = \<lparr>lw_posix = False, lw_getenv = (\<lambda>_. None), lw_host = ''node1'', lw_tid = 7,
     lw_syscall_name = (\<lambda>_. ''openat''), lw_max_level = -1, lw_fd = 3, lw_master_dir = ''/logs'', lw_prefix = ''server_''\<rparr>"

definition sample_log :: log_state where
  "sample_log = \<lparr>lg_open = True, lg_fd = 3, lg_path = ''/logs/x.log'', lg_level = 0, lg_syscalls = False, lg_limit = 2,
     lg_continue = False, lg_lines = [], lg_files = [], lg_statics = no_statics\<rparr>"

definition sample_run :: log_event where
  "sample_run = Scope ''read'' ''call(tid=%d)'' [Num 7]
     [Msg ''seen %s'' [Str ''a''], Scope ''get'' ''call()'' [] [Msg ''deep'' []], Fatal ''bad %d'' [Num 3], Msg ''late'' []]"

theorem log_is_filtered_transcript_witness:
  "\<exists>st'. run_event sample_log_world ''main'' sample_run sample_log = Inr (st', True) \<and>
     lg_lines st' = [''at[read]: call(tid=7)'', ''at[read]: seen a'', ''at[get]: call()'', ''at[get]: returned'', ''at[read]: bad 3'']"
proof -
  have o: "event_ok ''main'' sample_run" by code_simp
  have t: "transcript ''main'' 0 sample_run =
    [\<lparr>mk_depth = 0, mk_text = ''at[read]: call(tid=7)'', mk_fatal = False\<rparr>,
     \<lparr>mk_depth = 1, mk_text = ''at[read]: seen a'', mk_fatal = False\<rparr>,
     \<lparr>mk_depth = 1, mk_text = ''at[get]: call()'', mk_fatal = False\<rparr>,
     \<lparr>mk_depth = 2, mk_text = ''at[get]: deep'', mk_fatal = False\<rparr>,
     \<lparr>mk_depth = 1, mk_text = ''at[get]: returned'', mk_fatal = False\<rparr>,
     \<lparr>mk_depth = 1, mk_text = ''at[read]: bad 3'', mk_fatal = True\<rparr>,
     \<lparr>mk_depth = 1, mk_text = ''at[read]: late'', mk_fatal = False\<rparr>,
     \<lparr>mk_depth = 0, mk_text = ''at[read]: returned'', mk_fatal = False\<rparr>]"
    by code_simp
  have l: "lg_level sample_log = 0" "lg_open sample_log" "lg_fd sample_log = 3" "\<not> lw_posix sample_log_world"
    by (simp_all add: sample_log_def sample_log_world_def)
  show ?thesis
    using log_is_filtered_transcript[of sample_log sample_log_world "''main''" sample_run] o l
    by (auto simp: t written_def ends_program_def level_limit_def sample_log_def)
qed

subsection \<open>The header of a system call\<close>

lemma only_undefined:
  "write_buf n s = Inl e \<Longrightarrow> e = Undefined"
  "format_or_undefined f as = Inl e \<Longrightarrow> e = Undefined"
  "logger_format f m = Inl e \<Longrightarrow> e = Undefined"
  by (auto simp: write_buf_def format_or_undefined_def logger_format_def rbind_Inl_iff split: if_splits option.splits)

lemma conversions_message: "CHR ''%'' \<notin> set f \<Longrightarrow> conversions (''at['' @ f @ '']: '' @ m) = conversions m"
  using conversions_plain[of "''at['' @ f @ '']: ''" m] by simp

lemma syscall_header_takes_argument:
  assumes "lw_posix w" "lg_level st = 0" "lg_syscalls st"
  shows "(\<exists>n argp st'. args = Num n # argp \<and> syscall_header w args st = Inr (argp, st')) \<or>
    syscall_header w args st = Inl Undefined"
proof (cases "syscall_header w args st")
  case (Inl e)
  then show ?thesis
    by (auto simp: syscall_header_def rbind_Inl_iff dest: only_undefined split: if_splits list.splits log_arg.splits)
next
  case (Inr r)
  then show ?thesis
    using assms by (auto simp: syscall_header_def res_simps split: if_splits list.splits log_arg.splits)
qed

text \<open>C37: In a build of the library with logging, the first line of every intercepted call is undefined
  behaviour once the logging of system calls has started: the header takes the first argument from
  the list that measures the line, so that as many arguments as the message has conversions, which
  every caller passes, are one too few (none at all when the message has no conversion).\<close>

theorem hooked_call_log_undefined:
  assumes "lw_posix w" and "lg_open st" and "lg_level st = 0" and "lg_syscalls st"
    and "CHR ''%'' \<notin> set invoker" and "length args = conversions message"
  shows "logger_new w invoker message args st = Inl Undefined"
proof -
  have "c_format (''at['' @ invoker @ '']: '' @ message) argp = None" if "args = Num n # argp" for n argp
  proof (cases "c_format (''at['' @ invoker @ '']: '' @ message) argp")
    case (Some s)
    then have "conversions (''at['' @ invoker @ '']: '' @ message) \<le> length argp"
      by (rule format_reads_conversions)
    then show ?thesis
      using assms(6) that by (simp only: conversions_message[OF assms(5)]) simp
  qed
  note short = this
  show ?thesis
  proof (cases "logger_format invoker message")
    case (Inl e)
    then show ?thesis
      using assms(2) only_undefined(3)[OF Inl]
      by (cases "write_buf 256 invoker") (auto simp: logger_new_def open_logfile_def write_buf_def split: if_splits)
  next
    case (Inr format)
    then have "format = ''at['' @ invoker @ '']: '' @ message"
      by (auto simp: logger_format_def format_or_undefined_def pre_msg write_buf_def split: if_splits)
    then show ?thesis
      using syscall_header_takes_argument[OF assms(1,3,4), of args] short assms(2) Inr
      by (auto simp: logger_new_def open_logfile_def write_buf_def format_or_undefined_def simp del: append.simps)
  qed
qed

theorem hooked_call_log_undefined_witness:
  "logger_new (sample_log_world\<lparr>lw_posix := True\<rparr>) ''hook'' ''call(syscall_number=%ld)'' [Num 257]
     (start_syscall_logging sample_log) = Inl Undefined"
  by (rule hooked_call_log_undefined)
    (simp_all add: sample_log_world_def sample_log_def start_syscall_logging_def conversions.simps conversion_def
      is_conversion_digit_def digits_def)

subsection \<open>A log file that cannot be opened\<close>

lemma raw_open_not_minus_one: "0 \<le> lw_fd w \<Longrightarrow> fst (sys_open_log (lw_fd w) p f) \<noteq> -1"
  by (auto simp: sys_open_log_def EISDIR_def ENOENT_def)

lemma open_posix_fault:
  assumes "0 \<le> lw_fd w" and "open_posix_logfile w st = Inl e"
  shows "e = Undefined"
  using assms raw_open_not_minus_one[OF assms(1)]
  by (auto simp: open_posix_logfile_def rbind_Inl_iff Let_def prod.case_eq_if
      dest: setup_faults log_name_faults log_folder_faults host_folder_faults split: if_splits)

lemma open_server_fault:
  assumes "open_server_logfile w st = Inl e"
  shows "e = Undefined \<or> e = FilesystemError"
proof -
  consider "server_log_names w = Inl e" | d f where "create_directories d f = Inl e"
    using assms by (auto simp: open_server_logfile_def rbind_Inl_iff Let_def prod.case_eq_if)
  then show ?thesis
    by cases (auto simp: server_log_names_def host_name_def rbind_Inl_iff Let_def create_directories_def
        dest: only_undefined mkdirs_error split: if_splits)
qed

definition unopened :: "log_state \<Rightarrow> log_state \<Rightarrow> bool" where
  "unopened st st' \<longleftrightarrow> lg_lines st' = lg_lines st \<and> lg_fd st' = lg_fd st \<and> lg_open st'"

lemma write_unopened: "lg_fd st < 0 \<Longrightarrow> log_write_to w s st = st"
  by (simp add: log_write_to_def append_line_def)

lemma header_unopened: "syscall_header w as st = Inr (r, st1) \<Longrightarrow> lg_fd st < 0 \<Longrightarrow> st1 = st"
  by (auto simp: syscall_header_def write_unopened res_simps split: if_splits list.splits log_arg.splits)

lemma log_unopened:
  "logger_log w f m as st = Inr st' \<Longrightarrow> lg_open st \<Longrightarrow> lg_fd st < 0 \<Longrightarrow> unopened st st'"
  by (auto simp: logger_log_def res_simps write_unopened append_line_def unopened_def split: if_splits)

lemma new_unopened:
  "logger_new w f m as st = Inr st' \<Longrightarrow> lg_open st \<Longrightarrow> lg_fd st < 0 \<Longrightarrow> unopened st st'"
  by (auto simp: logger_new_def res_simps write_unopened open_logfile_def Let_def unopened_def dest!: header_unopened)

lemma delete_unopened:
  "logger_delete w f st = Inr st' \<Longrightarrow> lg_open st \<Longrightarrow> lg_fd st < 0 \<Longrightarrow> unopened st st'"
  by (auto simp: logger_delete_def res_simps write_unopened Let_def unopened_def split: if_splits)

lemma unopened_trans: "unopened st st1 \<Longrightarrow> unopened st1 st2 \<Longrightarrow> unopened st st2"
  by (simp add: unopened_def)

lemma unopenedD: "unopened st st' \<Longrightarrow> lg_fd st < 0 \<Longrightarrow> lg_open st' \<and> lg_fd st' < 0"
  by (simp add: unopened_def)

lemma run_unopened:
  "run_event w f e st = Inr (st', x) \<Longrightarrow> lg_open st \<Longrightarrow> lg_fd st < 0 \<Longrightarrow> unopened st st'"
  "run_events w f es st = Inr (st', x) \<Longrightarrow> lg_open st \<Longrightarrow> lg_fd st < 0 \<Longrightarrow> unopened st st'"
proof (induction w f e st and w f es st arbitrary: st' x and st' x rule: run_event_run_events.induct)
  case (1 w f m as st)
  then show ?case
    by (auto simp: res_simps dest: log_unopened)
next
  case (2 w f m as st)
  then show ?case
    by (auto simp: err_exit_def res_simps dest: log_unopened)
next
  case (3 w f g m as body st)
  obtain st1 st2 y where r: "logger_new w g m as st = Inr st1" "run_events w g body st1 = Inr (st2, y)"
    and e: "if y then st' = st2 else logger_delete w g st2 = Inr st'"
    using "3.prems"(1) by (auto simp: res_simps split: if_splits)
  have u1: "unopened st st1"
    using new_unopened[OF r(1)] "3.prems" by simp
  then have u2: "unopened st1 st2"
    using "3.IH"[OF r] unopenedD[OF u1] "3.prems" by simp
  note u = unopened_trans[OF u1 u2]
  then show ?case
    using e delete_unopened[of w g st2 st'] unopenedD[OF u] "3.prems"
    by (auto intro: unopened_trans split: if_splits)
next
  case (4 w f body st)
  let ?s = "suspend_syscall_logging st"
  obtain st1 where r: "run_events w f body ?s = Inr (st1, x)"
    and e: "st' = (if x then st1 else resume_syscall_logging st1)"
    using "4.prems"(1) by (auto simp: res_simps)
  have "unopened ?s st1"
    using "4.IH"[OF r] "4.prems" by (simp add: suspend_syscall_logging_def)
  then show ?case
    using e by (auto simp: unopened_def suspend_syscall_logging_def resume_syscall_logging_def)
next
  case (5 w f st)
  then show ?case by (simp add: unopened_def)
next
  case (6 w f e es st)
  obtain st1 y where r: "run_event w f e st = Inr (st1, y)"
    and e: "if y then st' = st1 else run_events w f es st1 = Inr (st', x)"
    using "6.prems"(1) by (auto simp: res_simps split: if_splits)
  have u1: "unopened st st1"
    using "6.IH"(1)[OF r] "6.prems" by simp
  then show ?case
    using e "6.IH"(2)[OF r] unopenedD[OF u1] "6.prems" by (auto intro: unopened_trans split: if_splits)
qed

text \<open>The exit for a log file that cannot be opened is never taken, since a raw system call answers
  the negated error and not minus one: the logger goes on with the error as its descriptor, and
  whatever is run after that, no line of it is kept.\<close>

theorem unopened_log_is_lost:
  assumes "0 \<le> lw_fd w"
  shows "open_posix_logfile w st \<noteq> Inl ErrExit \<and>
    (\<forall>st1 f es st2 exited. open_posix_logfile w st = Inr st1 \<and> lg_fd st1 < 0 \<and>
       run_events w f es st1 = Inr (st2, exited) \<longrightarrow> lg_lines st2 = [])"
proof (intro conjI allI impI)
  show "open_posix_logfile w st \<noteq> Inl ErrExit"
    using open_posix_fault[OF assms] by fastforce
  fix st1 f es st2 exited
  assume o: "open_posix_logfile w st = Inr st1 \<and> lg_fd st1 < 0 \<and> run_events w f es st1 = Inr (st2, exited)"
  then have "lg_open st1" "lg_lines st1 = []"
    by (auto simp: open_posix_logfile_def res_simps Let_def prod.case_eq_if split: if_splits)
  then show "lg_lines st2 = []"
    using run_unopened(2)[of w f es st1 st2 exited] o by (simp add: unopened_def)
qed

definition lost_log_world :: log_world where
  "lost_log_world = sample_log_world\<lparr>lw_posix := True,
     lw_getenv := [''CAPIO_LOG_DIR'' \<mapsto> ''/no/logs'', ''CAPIO_LOG_PREFIX'' \<mapsto> ''t'']\<rparr>"

definition unopened_log :: log_state where
  "unopened_log = sample_log\<lparr>lg_open := False, lg_path := [], lg_files := [(''/'', Dir)]\<rparr>"

theorem unopened_log_is_lost_witness:
  "\<exists>st1 st2. open_posix_logfile lost_log_world unopened_log = Inr st1 \<and>
     run_events lost_log_world ''init'' [Msg ''ready'' []] st1 = Inr (st2, False) \<and> lg_lines st2 = []"
proof -
  have "case open_posix_logfile lost_log_world unopened_log of Inl e \<Rightarrow> False
    | Inr st1 \<Rightarrow> lg_fd st1 < 0 \<and> (case run_events lost_log_world ''init'' [Msg ''ready'' []] st1 of
        Inl e \<Rightarrow> False | Inr (st2, x) \<Rightarrow> \<not> x)"
    by code_simp
  then obtain st1 st2 where 1: "open_posix_logfile lost_log_world unopened_log = Inr st1" "lg_fd st1 < 0"
    "run_events lost_log_world ''init'' [Msg ''ready'' []] st1 = Inr (st2, False)"
    by (auto split: sum.splits prod.splits simp del: run_event.simps run_events.simps)
  moreover have "0 \<le> lw_fd lost_log_world"
    by (simp add: lost_log_world_def sample_log_world_def)
  ultimately show ?thesis
    using unopened_log_is_lost[of lost_log_world unopened_log] by blast
qed

end
