(* ===== verification/CLPrint.thy ===== *)
theory CLPrint
  imports CLEngine
begin

text \<open>
  The table of the expected file system the server prints at its start
  (\<open>print\<close> of \<open>src/server/capio-cl-engine/capio_cl_engine.hpp\<close>), as the list of its lines.
\<close>

text \<open>\<open>std::setw\<close> and the text after it, with the fill character set to a space.\<close>

definition setw :: "int \<Rightarrow> string \<Rightarrow> string" where
  "setw n s = replicate (nat n - length s) CHR '' '' @ s"

definition ESC :: char where "ESC = CHR 0x1B"

definition CAPIO_LOG_SERVER_CLI_LEVEL_JSON :: string where
  "CAPIO_LOG_SERVER_CLI_LEVEL_JSON = ''[ '' @ [ESC] @ ''[1;34m SERVER '' @ [ESC] @ ''[0m ] ''"

definition truncateLastN :: "string \<Rightarrow> nat \<Rightarrow> string" where
  "truncateLastN str n = (if length str > n then ''[..] '' @ drop (length str - n) str else str)"

definition print_header :: "string \<Rightarrow> string \<Rightarrow> string list" where
  "print_header node_name workflow_name =
     [CAPIO_LOG_SERVER_CLI_LEVEL_JSON @ '' [ '' @ node_name @ '' ] Composition of expected CAPIO FS: '',
      '''',
      ''|===========================================================================================================================|'',
      ''|'' @ setw 124 ''|'',
      ''|     Parsed configuration file for workflow: '' @ [ESC] @ ''[1;36m'' @ workflow_name @
        setw (83 - int (length workflow_name)) ([ESC] @ ''[0m |''),
      ''|'' @ setw 124 ''|'',
      ''|===========================================================================================================================|'',
      ''|======|===================|===================|====================|====================|============|===========|=========|'',
      ''| Kind | Filename          | Producer step     | Consumer step      |  Commit Rule       |  Fire Rule | Permanent | Exclude |'',
      ''|======|===================|===================|====================|====================|============|===========|=========|'']"

text \<open>The cell of a column of steps: the step of the row, if the list has one.\<close>

definition producer_cell :: "string list \<Rightarrow> nat \<Rightarrow> string" where
  "producer_cell ps i =
     (if i < length ps
      then let prod1 = truncateLastN (ps ! i) 12 in prod1 @ setw (20 - int (length prod1)) '' | ''
      else setw 20 '' | '')"

definition consumer_cell :: "string list \<Rightarrow> nat \<Rightarrow> string" where
  "consumer_cell cs i =
     (if i < length cs
      then let cons1 = truncateLastN (cs ! i) 12 in '' '' @ cons1 @ setw (20 - int (length cons1)) '' | ''
      else setw 21 '' | '')"

definition yes_no :: "bool \<Rightarrow> string" where
  "yes_no b = (if b then ''YES'' else ''NO '')"

definition rule_cells :: "entry \<Rightarrow> string" where
  "rule_cells e =
     (let commit_rule = e_commit_rule e; fire_rule = e_fire_rule e;
          exclude = e_permanent e; permanent = e_exclude e in
      '' '' @ commit_rule @ setw (20 - int (length commit_rule)) '' | '' @
      fire_rule @ setw (13 - int (length fire_rule)) '' | '' @
      ''    '' @ yes_no permanent @ ''   |   '' @ yes_no exclude @ ''   |'')"

definition print_row :: "string \<Rightarrow> entry \<Rightarrow> nat \<Rightarrow> string" where
  "print_row path e i =
     (let name_trunc = truncateLastN path 12; kind = (if e_is_file e then ''F'' else ''D'') in
      (if i > 0 then ''|      |                   | ''
       else ''|   '' @ kind @ ''  | '' @ name_trunc @ setw (20 - int (length name_trunc)) ''| '') @
      producer_cell (e_producers e) i @ consumer_cell (e_consumers e) i @
      (if i = 0 then rule_cells e
       else setw 20 ''|'' @ setw 13 ''|'' @ setw 12 ''|'' @ setw 10 ''|''))"

definition print_entry :: "string \<times> entry \<Rightarrow> string list" where
  "print_entry = (\<lambda>(path, e).
     map (print_row path e) [0 ..< Suc (max (length (e_producers e)) (length (e_consumers e)))] @
     [''*~~~~~~~~~~~~~~~~~~~~~~~~~~~~~~~~~~~~~~~~~~~~~~~~~~~~~~~~~~~~~~~~~~~~~~~~~~~~~~~~~~~~~~~~~~~~~~~~~~~~~~~~~~~~~~~~~~~~~~~~~~~*''])"

definition print_engine :: "string \<Rightarrow> string \<Rightarrow> engine \<Rightarrow> string list" where
  "print_engine node_name workflow_name locations =
     print_header node_name workflow_name @ concat (map print_entry locations) @ ['''']"

subsection \<open>The table is rectangular\<close>

lemma length_setw: "length (setw n s) = max (nat n) (length s)"
  by (simp add: setw_def)

lemma length_truncateLastN: "length (truncateLastN s 12) \<le> 17"
  by (simp add: truncateLastN_def)

lemma nat_pad: "l \<le> 17 \<Longrightarrow> l + nat (20 - int l) = 20"
  by simp

lemma length_cells: "length (producer_cell ps i) = 20" "length (consumer_cell cs i) = 21"
  using length_truncateLastN[of "ps ! i"] length_truncateLastN[of "cs ! i"]
  by (simp_all add: producer_cell_def consumer_cell_def length_setw Let_def nat_pad)

lemma length_rule_cells:
  "length (e_commit_rule e) \<le> 17 \<Longrightarrow> length (e_fire_rule e) \<le> 10 \<Longrightarrow> length (rule_cells e) = 55"
  by (simp add: rule_cells_def length_setw Let_def yes_no_def)

text \<open>Every line of the rows of an entry, whatever the lengths of its path and of its steps, is as
  wide as the frame of the table, for the rules the language has; and there is one row for each
  producer and each consumer, with one more below them.\<close>

theorem table_is_rectangular:
  assumes "length (e_commit_rule e) \<le> 17" and "length (e_fire_rule e) \<le> 10"
  shows "(\<forall>l \<in> set (print_entry (path, e)). length l = 125) \<and>
    length (print_entry (path, e)) = max (length (e_producers e)) (length (e_consumers e)) + 2"
proof -
  have "length (print_row path e i) = 125" for i
    using assms length_truncateLastN[of path]
    by (simp add: print_row_def Let_def length_cells length_rule_cells length_setw nat_pad)
  then show ?thesis
    by (auto simp: print_entry_def)
qed

definition sample_printed :: entry where
  "sample_printed = \<lparr>e_producers = [''a_rather_long_step_name'', ''b''], e_consumers = [''c''],
     e_commit_rule = CAPIO_FILE_COMMITTED_ON_TERMINATION, e_fire_rule = CAPIO_FILE_MODE_NO_UPDATE,
     e_permanent = True, e_exclude = False, e_is_file = True, e_commit_on_close = -1, e_dir_count = 0, e_deps = []\<rparr>"

theorem table_is_rectangular_witness:
  "\<forall>l \<in> set (print_entry (''/d/a/path/that/is/long'', sample_printed)). length l = 125"
  using table_is_rectangular[of sample_printed "''/d/a/path/that/is/long''"]
  by (simp add: sample_printed_def CAPIO_FILE_COMMITTED_ON_TERMINATION_def CAPIO_FILE_MODE_NO_UPDATE_def)

subsection \<open>The columns of the flags\<close>

text \<open>The first row of an entry shows under \emph{Permanent} whether the path is excluded and under
  \emph{Exclude} whether it is permanent, where the header of the table has these two columns at
  the same places.\<close>

theorem flag_columns_swapped:
  assumes "length (e_commit_rule e) \<le> 17" and "length (e_fire_rule e) \<le> 10"
  shows "take 3 (drop 108 (print_row path e 0)) = yes_no (e_exclude e) \<and>
    take 3 (drop 118 (print_row path e 0)) = yes_no (e_permanent e) \<and>
    take 9 (drop 104 (print_header node_name workflow_name ! 8)) = ''Permanent'' \<and>
    take 7 (drop 116 (print_header node_name workflow_name ! 8)) = ''Exclude''"
proof -
  let ?f = "''    '' @ yes_no (e_exclude e) @ ''   |   '' @ yes_no (e_permanent e) @ ''   |''"
  define p where "p = (let name_trunc = truncateLastN path 12; kind = (if e_is_file e then ''F'' else ''D'') in
    ''|   '' @ kind @ ''  | '' @ name_trunc @ setw (20 - int (length name_trunc)) ''| '') @
    producer_cell (e_producers e) 0 @ consumer_cell (e_consumers e) 0 @
    '' '' @ e_commit_rule e @ setw (20 - int (length (e_commit_rule e))) '' | '' @
    e_fire_rule e @ setw (13 - int (length (e_fire_rule e))) '' | ''"
  have r: "print_row path e 0 = p @ ?f"
    by (simp add: print_row_def rule_cells_def p_def Let_def)
  have "length p = 104"
    using assms length_truncateLastN[of path] by (simp add: p_def Let_def length_cells length_setw nat_pad)
  then have p: "drop 108 (print_row path e 0) = drop 4 ?f" "drop 118 (print_row path e 0) = drop 14 ?f"
    by (simp_all add: r del: append_assoc)
  show ?thesis
    by (simp add: p yes_no_def print_header_def)
qed

theorem flag_columns_swapped_witness:
  "take 3 (drop 108 (print_row ''/f'' sample_printed 0)) = ''NO ''"
  using flag_columns_swapped[of sample_printed "''/f''"]
  by (simp add: sample_printed_def yes_no_def CAPIO_FILE_COMMITTED_ON_TERMINATION_def CAPIO_FILE_MODE_NO_UPDATE_def)

end
