(* ===== verification/Examples.thy ===== *)
theory Examples
  imports CScan "HOL-Library.Signed_Division"
begin

text \<open>
  The programs of \<open>src/examples/mpi_io_examples\<close>, which write and read files through MPI; they run
  on CAPIO unchanged. What a program does is the list of its MPI calls, messages and text files;
  what MPI gives back (the rank, the number of processes, whether a file opens, the elements it reads
  or receives, what \<open>malloc\<close> gives) are arguments. Values of type \<open>int\<close> are integers; where the size of a
  matrix is computed the product is tested for overflow (\<open>int_times\<close>), and the other products, of an
  offset in it, are smaller. The sizes of \<open>consecutive_writes\<close> and \<open>repeated_writes\<close> are at most 240 times
  the number of processes. Of the two exceptions \<open>stoi\<close> throws no
  difference is made, both are \<open>OutOfRange\<close>.
\<close>

datatype mpi_event =
    Say string
  | FileOpen string
  | SetView int                \<comment> \<open>displacement in bytes; the elements are of type \<open>MPI_INT\<close>\<close>
  | CreateDarray int int int int \<comment> \<open>processes, rank, side of the matrix, side of the grid\<close>
  | SetDarrayView
  | FileWrite "int list"
  | FileRead int               \<comment> \<open>number of elements\<close>
  | FileClose
  | SendTo int "int list"
  | Receive int int int        \<comment> \<open>from, place in the buffer, number of elements\<close>
  | WriteText string string    \<comment> \<open>a text file and what is written to it\<close>

definition sizeof_int :: int where "sizeof_int = 4"

text \<open>A product of two values of type \<open>int\<close>, which is undefined where it overflows.\<close>

definition int_times :: "int \<Rightarrow> int \<Rightarrow> int res" where
  "int_times a b = (if - (2 ^ 31) \<le> a * b \<and> a * b < 2 ^ 31 then Inr (a * b) else Inl Undefined)"

subsection \<open>Writing in order of rank: \<open>consecutive\_writes.cpp\<close> and \<open>repeated\_writes.cpp\<close>\<close>

definition initialize_consecutive :: "nat \<Rightarrow> int list" where
  "initialize_consecutive n = map int [0..<n]"

definition consecutive_writes_main :: "bool \<Rightarrow> int \<Rightarrow> mpi_event list" where
  "consecutive_writes_main opened my_rank =
     map (\<lambda>x. Say (''buf[i]: '' @ show_int x)) (initialize_consecutive 10) @
     FileOpen ''./output_bin'' #
     (if opened
      then [SetView (my_rank * 10 * sizeof_int), FileWrite (initialize_consecutive 10), FileClose]
      else [Say ''error: impossible open file ./output_bin''])"

definition initialize_buffer :: "nat \<Rightarrow> int \<Rightarrow> int list" where
  "initialize_buffer n rank = map (\<lambda>i. int i + rank) [0..<n]"

text \<open>The rounds after the first: every element is raised by one, in place, and the view moves on.\<close>

fun write_rounds :: "int list \<Rightarrow> int \<Rightarrow> int \<Rightarrow> int list \<Rightarrow> mpi_event list" where
  "write_rounds [] rank comm_size buf = []"
| "write_rounds (j # js) rank comm_size buf =
     (let buf' = map (\<lambda>n. n + 1) buf
      in SetView (rank * 10 * sizeof_int + j * 10 * sizeof_int * comm_size) # FileWrite buf' #
         write_rounds js rank comm_size buf')"

definition repeated_writes_main :: "bool \<Rightarrow> int \<Rightarrow> int \<Rightarrow> mpi_event list" where
  "repeated_writes_main opened rank comm_size =
     FileOpen ''./output_bin'' #
     (if opened then
        [SetView (rank * 10 * sizeof_int), FileWrite (initialize_buffer 10 rank)] @
        write_rounds [1..5] rank comm_size (initialize_buffer 10 rank) @ [FileClose]
      else [Say ''error: impossible open file ./output_bin''])"

subsection \<open>The arguments of the matrix programs\<close>

text \<open>\<open>std::sqrt\<close> of a number of processes, cut to an integer.\<close>

definition isqrt :: "nat \<Rightarrow> nat" where
  "isqrt n = last (filter (\<lambda>k. k * k \<le> n) [0..<Suc n])"

definition is_square_number :: "nat \<Rightarrow> bool" where
  "is_square_number n \<longleftrightarrow> isqrt n * isqrt n = n"

definition stoi :: "string \<Rightarrow> int res" where
  "stoi s = (case scan_int s of None \<Rightarrow> Inl OutOfRange
     | Some (i, _) \<Rightarrow> if - (2 ^ 31) \<le> i \<and> i < 2 ^ 31 then Inr i else Inl OutOfRange)"

definition print_error_msg :: "int \<Rightarrow> int \<Rightarrow> mpi_event list" where
  "print_error_msg rank error_code =
     (if rank \<noteq> 0 then []
      else [Say (if error_code = 0 then ''input error: the side length of the matrix is needed in input''
        else if error_code = 1 then ''input error: the side length of the matrix must be even and > 0''
        else if error_code = 2 then ''input error: the number of processes must a square number''
        else if error_code = 3 then ''input error: the matrix can't be divided in square blocks using the numbers of processes given''
        else ''undefined error'')])"

text \<open>The inner \<open>Inl\<close> are the messages for refused arguments, the inner \<open>Inr\<close> is the side of the matrix.
  \<open>smod\<close> is the remainder of C, with the sign of the dividend.\<close>

definition get_input :: "int \<Rightarrow> nat \<Rightarrow> string list \<Rightarrow> (mpi_event list + int) res" where
  "get_input my_rank num_processes argv =
     (if length argv \<noteq> 2 then Inr (Inl (print_error_msg my_rank 0))
      else rbind (stoi (argv ! 1)) (\<lambda>side. Inr (
        if side smod 2 \<noteq> 0 \<or> side = 0 then Inl (print_error_msg my_rank 1)
        else if \<not> is_square_number num_processes then Inl (print_error_msg my_rank 2)
        else if side smod int (isqrt num_processes) \<noteq> 0 then Inl (print_error_msg my_rank 3)
        else Inr side)))"

definition print_error :: "int \<Rightarrow> int \<Rightarrow> string \<Rightarrow> mpi_event list" where
  "print_error my_rank error_code additional_msg =
     (if my_rank \<noteq> 0 then []
      else Say (if error_code = 0 then ''input error: side length needed''
        else if error_code = 1 then ''input error: the number of worker must be a square number != 0''
        else if error_code = 2 then ''input error: the matrix can't be divided in square blocks using the numbers of processes given''
        else ''undefined error'') #
        (if additional_msg \<noteq> [] then [Say additional_msg] else []))"

definition get_inputs :: "int \<Rightarrow> string list \<Rightarrow> nat \<Rightarrow> (mpi_event list + int) res" where
  "get_inputs my_rank argv num_processes =
     (let num_workers = num_processes - 1
      in if length argv \<noteq> 2 then Inr (Inl (print_error my_rank 0 []))
         else if \<not> is_square_number num_workers \<or> num_workers = 0 then
           Inr (Inl (print_error my_rank 1 (''num of workers given: '' @ show_nat num_workers)))
         else rbind (stoi (argv ! 1)) (\<lambda>side. Inr (
           if side smod int (isqrt num_workers) \<noteq> 0
           then Inl (print_error my_rank 2 (''num of processes given: '' @ show_nat num_processes))
           else Inr side)))"

subsection \<open>\<open>create\_matrix.cpp\<close>\<close>

definition initialize_local_array :: "nat \<Rightarrow> int list" where
  "initialize_local_array b = concat (map (\<lambda>i. map (\<lambda>j. int i + int j) [0..<b]) [0..<b])"

definition write_matrix :: "bool \<Rightarrow> int \<Rightarrow> nat \<Rightarrow> int \<Rightarrow> int list \<Rightarrow> mpi_event list" where
  "write_matrix opened my_rank num_processes side local_array =
     [CreateDarray (int num_processes) my_rank side (int (isqrt num_processes)), FileOpen ''./matrix_bin''] @
     (if opened then [SetDarrayView, FileWrite local_array, FileClose]
      else [Say ''error: impossible open file ./matrix_bin''])"

text \<open>A negative side passes the test of the arguments; MPI then gets sizes it does not allow.\<close>

definition create_matrix_main :: "bool \<Rightarrow> int \<Rightarrow> nat \<Rightarrow> string list \<Rightarrow> mpi_event list res" where
  "create_matrix_main opened my_rank num_processes argv =
     rbind (get_input my_rank num_processes argv) (\<lambda>i. case i of
         Inl msgs \<Rightarrow> Inr msgs
       | Inr side \<Rightarrow>
           if side < 0 then Inl Undefined
           else let side_block = nat side div isqrt num_processes
                in rbind (int_times (int side_block) (int side_block)) (\<lambda>local_array_size. Inr ([Say ''before initialization local array '', Say ''after initialization local array ''] @
                  write_matrix opened my_rank num_processes side (initialize_local_array side_block))))"

subsection \<open>\<open>read\_matrix.cpp\<close>\<close>

definition print_partial_matrix :: "int list \<Rightarrow> nat \<Rightarrow> int \<Rightarrow> mpi_event" where
  "print_partial_matrix array b my_rank =
     WriteText (''block_'' @ show_int my_rank @ ''.txt'')
       (concat (map (\<lambda>i. concat (map (\<lambda>j. show_int (array ! (i * b + j)) @ '' '') [0..<b - 1]) @
          show_int (array ! (i * b + (b - 1))) @ [CHR 0x0A]) [0..<b]))"

text \<open>The text of \<open>output_matrix.txt\<close>: rows of blocks, rows of a block, blocks of a row, elements.\<close>

definition matrix_text :: "int list \<Rightarrow> nat \<Rightarrow> nat \<Rightarrow> nat \<Rightarrow> string" where
  "matrix_text buf blocks_size num_processes b =
     (let num_blocks = isqrt num_processes
      in concat (map (\<lambda>i. concat (map (\<lambda>j.
           concat (map (\<lambda>k. concat (map (\<lambda>z.
             let rank_proc = i * num_blocks + k
             in show_int (buf ! (rank_proc * blocks_size + (j * b + z))) @ '' '') [0..<b])) [0..<num_blocks]) @
           [CHR 0x0A]) [0..<b])) [0..<num_blocks]))"

text \<open>\<open>MPI_Recv\<close> of a block into its place of the buffer; beyond its end it writes into other memory.\<close>

definition put_block :: "nat \<Rightarrow> int list \<Rightarrow> int list \<Rightarrow> int list res" where
  "put_block k xs buf =
     (if k + length xs \<le> length buf then Inr (take k buf @ xs @ drop (k + length xs) buf) else Inl Undefined)"

fun receive_all :: "nat list \<Rightarrow> nat \<Rightarrow> (nat \<Rightarrow> int list) \<Rightarrow> int list \<Rightarrow> int list res" where
  "receive_all [] blocks_size received buf = Inr buf"
| "receive_all (rank # ranks) blocks_size received buf =
     rbind (put_block ((rank - 1) * blocks_size) (received rank) buf) (receive_all ranks blocks_size received)"

text \<open>\<open>malloc n\<close> is memory for \<open>n\<close> elements, with what it happens to hold, or null.\<close>

definition master :: "int \<Rightarrow> nat \<Rightarrow> nat \<Rightarrow> (nat \<Rightarrow> int list option) \<Rightarrow> (nat \<Rightarrow> int list) \<Rightarrow> mpi_event list res" where
  "master num_elems b num_processes malloc received =
     (case malloc (nat num_elems) of
        None \<Rightarrow> Inl Undefined
      | Some buf \<Rightarrow>
          let blocks_size = b * b
          in rbind (receive_all [1..<num_processes] blocks_size received buf) (\<lambda>buf'. Inr (
               concat (map (\<lambda>rank. [Say (''master start receive from '' @ show_nat rank),
                 Receive (int rank) (int ((rank - 1) * blocks_size)) (int blocks_size),
                 Say (''master received data from '' @ show_nat rank)]) [1..<num_processes]) @
               [WriteText ''output_matrix.txt'' (matrix_text buf' blocks_size num_processes b),
                Say ''master ended computation ''])))"

definition read_block :: "bool \<Rightarrow> int \<Rightarrow> nat \<Rightarrow> nat \<Rightarrow> int \<Rightarrow> mpi_event list" where
  "read_block opened worker_rank num_workers local_array_size side =
     [CreateDarray (int num_workers) worker_rank side (int (isqrt num_workers)), FileOpen ''./matrix_bin''] @
     (if opened then [SetDarrayView, Say (''process '' @ show_int worker_rank @ '' is reading ''),
        FileRead (int local_array_size), FileClose]
      else [Say ''error: impossible open file ./matrix_bin''])"

text \<open>\<open>data\<close> is what the array holds after \<open>read_block\<close>: what MPI read, or what \<open>malloc\<close> left.\<close>

definition worker :: "bool \<Rightarrow> int \<Rightarrow> nat \<Rightarrow> nat \<Rightarrow> int \<Rightarrow> int list \<Rightarrow> bool \<Rightarrow> mpi_event list" where
  "worker opened worker_rank num_workers b side data sent =
     (let w = ''worker '' @ show_int worker_rank
      in read_block opened worker_rank num_workers (b * b) side @
         [Say (w @ '' is writing its block ''), print_partial_matrix data b worker_rank,
          Say (w @ '' ended to write ''), Say (''local_array_size '' @ show_nat (b * b)), SendTo 0 data] @
         (if sent then [] else [Say (w @ '' error during send'')]) @
         [Say (w @ '' ended its computation '')])"

text \<open>\<open>start\<close>, in the process with the rank \<open>my_rank\<close>; rank 0 is the master.\<close>

definition read_matrix_start ::
  "int \<Rightarrow> nat \<Rightarrow> string list \<Rightarrow> (nat \<Rightarrow> int list option) \<Rightarrow> (nat \<Rightarrow> int list) \<Rightarrow> bool \<Rightarrow> int \<Rightarrow> int list \<Rightarrow> bool \<Rightarrow> mpi_event list res" where
  "read_matrix_start my_rank num_processes argv malloc received opened worker_rank data sent =
     rbind (get_inputs my_rank argv num_processes) (\<lambda>i. case i of
         Inl msgs \<Rightarrow> Inr msgs
       | Inr side \<Rightarrow>
           rbind (int_times side side) (\<lambda>num_elems.
             if side < 0 then Inl Undefined
             else let b = nat side div isqrt (num_processes - 1)
                  in if my_rank = 0 then master num_elems b num_processes malloc received
                     else Inr (worker opened worker_rank (num_processes - 1) b side data sent)))"

subsection \<open>\<open>print\_bin\_file\_mpi.cpp\<close>\<close>

definition print_buf :: "string \<Rightarrow> mpi_event list" where
  "print_buf buf = Say ''print buffer'' # map (\<lambda>c. Say [c]) buf"

definition print_bin_input :: "int \<Rightarrow> int \<Rightarrow> string list \<Rightarrow> mpi_event list + string" where
  "print_bin_input my_rank comm_world_size argv =
     (if 1 < comm_world_size then
        Inl (if my_rank = 0 then [Say ''error: this program must be launched with only one process''] else [])
      else if length argv \<noteq> 2 then
        Inl [Say ''input error: miss some inputs'', Say ''inputs needed: path of the file to read'']
      else Inr (argv ! 1))"

text \<open>\<open>read\<close> is the rest of the file before each read; a read gives its first 1024 characters.\<close>

function print_loop :: "string \<Rightarrow> mpi_event list" where
  "print_loop rest =
     (let buf = take 1024 rest
      in FileRead 1024 # print_buf buf @
         (if length buf = 1024 then print_loop (drop 1024 rest)
          else [Say (''num_read '' @ show_nat (length buf)), FileClose]))"
  by auto
termination by (relation "measure length") auto

declare print_loop.simps [simp del]

definition print_bin_file_main :: "bool \<Rightarrow> int \<Rightarrow> int \<Rightarrow> string list \<Rightarrow> string \<Rightarrow> mpi_event list" where
  "print_bin_file_main opened my_rank comm_world_size argv content =
     (case print_bin_input my_rank comm_world_size argv of
        Inl msgs \<Rightarrow> msgs
      | Inr path \<Rightarrow> FileOpen path #
          (if opened then print_loop content else [Say (''error path '' @ path @ '' not valid '')]))"


subsection \<open>Where the elements land\<close>

text \<open>The place in the file, in bytes, and the value of every element a list of calls writes: a write
  goes on where the last one ended, a view moves to its displacement.\<close>

fun placed :: "mpi_event list \<Rightarrow> int \<Rightarrow> (int \<times> int) list" where
  "placed [] at = []"
| "placed (SetView d # es) at = placed es d"
| "placed (FileWrite xs # es) at =
     map (\<lambda>i. (at + sizeof_int * int i, xs ! i)) [0..<length xs] @ placed es (at + sizeof_int * int (length xs))"
| "placed (_ # es) at = placed es at"

lemma raise_buffer: "map (\<lambda>n. n + 1) (initialize_buffer k r) = initialize_buffer k (r + 1)"
  by (simp add: initialize_buffer_def)

definition round_of :: "int \<Rightarrow> int \<Rightarrow> int \<Rightarrow> (int \<times> int) list" where
  "round_of n r j = map (\<lambda>i. (4 * (10 * (j * n + r) + int i), int i + (r + j))) [0..<10]"

lemma placed_main:
  "placed (repeated_writes_main True r n) 0 = concat (map (round_of n r) [0, 1, 2, 3, 4, 5])"
proof -
  have js: "[1..5] = [1, 2, 3, 4, 5 :: int]" by code_simp
  have nth: "i \<in> {0..<10} \<Longrightarrow> initialize_buffer 10 b ! i = int i + b" for i b
    by (simp add: initialize_buffer_def del: upt.simps upt_conv_Cons)
  have len: "length (initialize_buffer 10 b) = 10" for b by (simp add: initialize_buffer_def)
  show ?thesis
    by (simp add: repeated_writes_main_def js raise_buffer Let_def sizeof_int_def len nth round_of_def
        algebra_simps del: upt.simps upt_conv_Cons)
qed

definition value_at :: "int \<Rightarrow> int \<Rightarrow> int" where
  "value_at n k = k mod 10 + (k div 10) mod n + k div 10 div n"

lemma place_split:
  fixes n r j i :: int
  assumes "0 \<le> r" "r < n" "0 \<le> i" "i < 10"
  shows "(10 * (j * n + r) + i) mod 10 = i" "(10 * (j * n + r) + i) div 10 mod n = r"
    "(10 * (j * n + r) + i) div 10 div n = j"
proof -
  have m: "(10 * m + i) div 10 = m" "(10 * m + i) mod 10 = i" for m using assms by simp_all
  show "(10 * (j * n + r) + i) mod 10 = i" by (rule m)
  show "(10 * (j * n + r) + i) div 10 mod n = r" "(10 * (j * n + r) + i) div 10 div n = j"
    unfolding m(1) using assms by simp_all
qed

lemma placed_set:
  assumes "0 < n"
  shows "set (concat (map (\<lambda>r. placed (repeated_writes_main True r n) 0) [0..n - 1])) =
    (\<lambda>k. (4 * k, value_at n k)) ` {0..<60 * n}" (is "?A = ?f ` ?B")
proof
  show "?A \<subseteq> ?f ` ?B"
  proof
    fix x assume "x \<in> ?A"
    then obtain r j i where rj: "0 \<le> r" "r < n" "j \<in> {0, 1, 2, 3, 4, 5}" and i: "i < 10"
      and x: "x = (4 * (10 * (j * n + r) + int i), int i + (r + j))"
      by (fastforce simp: placed_main round_of_def)
    let ?k = "10 * (j * n + r) + int i"
    have "j * n + r < 6 * n"
    proof -
      have "j \<le> 5" using rj(3) by auto
      then have "j * n \<le> 5 * n" using assms by (intro mult_right_mono) auto
      with rj(2) show ?thesis by simp
    qed
    moreover have "0 \<le> j * n + r" using rj assms by auto
    ultimately have "?k \<in> ?B" using i by auto
    moreover have "x = ?f ?k"
      using place_split[OF rj(1,2), of "int i" j] i by (simp add: x value_at_def)
    ultimately show "x \<in> ?f ` ?B" by blast
  qed
  show "?f ` ?B \<subseteq> ?A"
  proof
    fix x assume "x \<in> ?f ` ?B"
    then obtain k where k: "0 \<le> k" "k < 60 * n" and x: "x = (4 * k, value_at n k)" by auto
    define r j i where d: "r = k div 10 mod n" "j = k div 10 div n" "i = nat (k mod 10)"
    have e: "k = 10 * (j * n + r) + int i" by (simp add: d) 
    have "0 \<le> r" "r < n" using assms by (simp_all add: d)
    moreover have "j * n + r < 6 * n" using k(2) e by simp
    with \<open>0 \<le> r\<close> have "j * n < 6 * n" by linarith
    then have "j < 6" using assms by simp
    moreover have "0 \<le> j" using k(1) assms by (simp add: d pos_imp_zdiv_nonneg_iff)
    ultimately have "r \<in> set [0..n - 1]" "j \<in> {0, 1, 2, 3, 4, 5}" by auto
    moreover have "i < 10" by (simp add: d nat_less_iff)
    moreover have "x = (4 * (10 * (j * n + r) + int i), int i + (r + j))"
      using e by (simp add: x value_at_def d)
    ultimately show "x \<in> ?A" by (force simp: placed_main round_of_def)
  qed
qed

lemma placed_length:
  "0 < n \<Longrightarrow> length (concat (map (\<lambda>r. placed (repeated_writes_main True r n) 0) [0..n - 1])) = 60 * nat n"
  by (simp add: length_concat placed_main round_of_def comp_def sum_list_triv del: upt.simps upt_conv_Cons)


subsection \<open>Blocks and rows\<close>

lemma isqrt_unique: "k * k \<le> n \<Longrightarrow> n < Suc k * Suc k \<Longrightarrow> isqrt n = k"
proof -
  assume k: "k * k \<le> n" "n < Suc k * Suc k"
  have le: "m * m \<le> n \<longleftrightarrow> m \<le> k" for m
  proof
    assume "m * m \<le> n"
    then show "m \<le> k" using k(2) mult_le_mono[of "Suc k" m "Suc k" m] by (cases "m \<le> k") auto
  next
    assume "m \<le> k"
    then show "m * m \<le> n" using k(1) mult_le_mono[of m k m k] by simp
  qed
  have "k \<le> n" using k(1) by (metis le_square le_trans)
  then have "[0..<Suc n] = [0..<Suc k] @ [Suc k..<Suc n]"
    using upt_add_eq_append[of 0 "Suc k" "n - k"] by simp
  moreover have "filter (\<lambda>m. m \<le> k) [0..<Suc k] = [0..<Suc k]" "filter (\<lambda>m. m \<le> k) [Suc k..<Suc n] = []"
    by (auto simp: filter_id_conv filter_empty_conv simp del: upt_Suc)
  ultimately have "filter (\<lambda>m. m \<le> k) [0..<Suc n] = [0..<Suc k]" by (simp del: upt_Suc)
  then show ?thesis unfolding isqrt_def le by simp
qed

text \<open>The master counts itself among the processes and still gets the side of the grid of workers.\<close>

lemma isqrt_grid: "isqrt (p * p) = p" "0 < p \<Longrightarrow> isqrt (p * p + 1) = p"
  by (rule isqrt_unique; simp)+

lemma upt_blocks: "[0..<p * b] = concat (map (\<lambda>i. map (\<lambda>j. i * b + j) [0..<b]) [0..<p])"
proof (induction p)
  case (Suc p)
  have "[0..<Suc p * b] = [0..<p * b] @ [p * b..<p * b + b]"
    using upt_add_eq_append[of 0 "p * b" b] by (simp add: add.commute)
  moreover have "map (\<lambda>j. p * b + j) [0..<b] = [p * b..<p * b + b]"
    using map_add_upt[of "p * b" b] by (simp add: add.commute)
  ultimately show ?case using Suc by simp
qed simp

lemma cell_bound:
  assumes "i < p" and "k < q"
  shows "i * q + k < p * (q :: nat)"
proof -
  have "i * q + k < Suc i * q" using assms(2) by simp
  also have "\<dots> \<le> p * q" using assms(1) by (intro mult_le_mono1) simp
  finally show ?thesis .
qed

lemma concat_map_concat: "concat (map g (concat xss)) = concat (map (\<lambda>xs. concat (map g xs)) xss)"
  by (induction xss) simp_all

lemma concat_blocks:
  "concat (map g [0..<p * b]) = concat (map (\<lambda>i. concat (map (\<lambda>j. g (i * b + j)) [0..<b])) [0..<p])"
  by (simp add: upt_blocks concat_map_concat comp_def)


text \<open>Every block arrives at its place.\<close>

lemma put_block_nth:
  assumes "k + length xs \<le> length buf"
  shows "\<exists>buf'. put_block k xs buf = Inr buf' \<and> length buf' = length buf \<and>
    (\<forall>i < length buf. buf' ! i = (if k \<le> i \<and> i < k + length xs then xs ! (i - k) else buf ! i))"
  using assms by (auto simp: put_block_def nth_append)

lemma block_places:
  assumes "0 < r" "0 < q" "m < (bs :: nat)"
  shows "(q - 1) * bs \<le> (r - 1) * bs + m \<and> (r - 1) * bs + m < (q - 1) * bs + bs \<longleftrightarrow> r = q"
proof
  assume "(q - 1) * bs \<le> (r - 1) * bs + m \<and> (r - 1) * bs + m < (q - 1) * bs + bs"
  then have "((r - 1) * bs + m) div bs = q - 1" using assms(3) by (intro div_nat_eqI) (auto simp: algebra_simps)
  moreover have "((r - 1) * bs + m) div bs = r - 1" using assms(3) by simp
  ultimately show "r = q" using assms(1,2) by simp
qed (use assms in simp)

lemma block_end: "0 < r \<Longrightarrow> (r - 1) * bs + bs = r * (bs :: nat)"
  by (cases r) simp_all

lemma receive_all_nth:
  assumes "\<forall>r \<in> set ranks. length (received r) = bs \<and> 0 < r \<and> r * bs \<le> length buf"
  shows "\<exists>buf'. receive_all ranks bs received buf = Inr buf' \<and>
    (\<forall>r m. 0 < r \<longrightarrow> m < bs \<longrightarrow> r * bs \<le> length buf \<longrightarrow>
      buf' ! ((r - 1) * bs + m) = (if r \<in> set ranks then received r ! m else buf ! ((r - 1) * bs + m)))"
  using assms
proof (induction ranks arbitrary: buf)
  case (Cons q qs)
  then have q: "length (received q) = bs" "0 < q" "q * bs \<le> length buf" by auto
  with block_end[OF q(2), of bs] put_block_nth[of "(q - 1) * bs" "received q" buf] obtain b where
    b: "put_block ((q - 1) * bs) (received q) buf = Inr b" "length b = length buf"
      "\<forall>i < length buf. b ! i = (if (q - 1) * bs \<le> i \<and> i < (q - 1) * bs + bs
         then received q ! (i - (q - 1) * bs) else buf ! i)" by auto
  from Cons.prems b(2) Cons.IH[of b] obtain buf' where
    n: "receive_all qs bs received b = Inr buf'"
      "\<And>r m. 0 < r \<Longrightarrow> m < bs \<Longrightarrow> r * bs \<le> length buf \<Longrightarrow>
        buf' ! ((r - 1) * bs + m) = (if r \<in> set qs then received r ! m else b ! ((r - 1) * bs + m))" by auto
  have "b ! ((r - 1) * bs + m) = (if r = q then received q ! m else buf ! ((r - 1) * bs + m))"
    if r: "0 < r" "m < bs" "r * bs \<le> length buf" for r m
  proof -
    have "(r - 1) * bs + m < length buf" using block_end[OF r(1), of bs] r(2,3) by linarith
    with b(3) have "b ! ((r - 1) * bs + m) =
      (if (q - 1) * bs \<le> (r - 1) * bs + m \<and> (r - 1) * bs + m < (q - 1) * bs + bs
       then received q ! ((r - 1) * bs + m - (q - 1) * bs) else buf ! ((r - 1) * bs + m))" by blast
    then show ?thesis unfolding block_places[OF r(1) q(2) r(2)] by simp
  qed
  with n b(1) show ?case by auto
qed simp

lemma matrix_text_rows:
  assumes "0 < p" and "length buf = p * p * (b * b)"
    and "\<And>w. 0 < w \<Longrightarrow> w \<le> p * p \<Longrightarrow> length (received w) = b * b"
    and "\<And>w r c. 0 < w \<Longrightarrow> w \<le> p * p \<Longrightarrow> r < b \<Longrightarrow> c < b \<Longrightarrow>
      received w ! (r * b + c) = stored ((w - 1) div p * b + r) ((w - 1) mod p * b + c)"
  shows "\<exists>B. receive_all [1..<p * p + 1] (b * b) received buf = Inr B \<and>
    matrix_text B (b * b) (p * p + 1) b =
      concat (map (\<lambda>R. concat (map (\<lambda>C. show_int (stored R C) @ '' '') [0..<p * b]) @ [CHR 0x0A]) [0..<p * b])"
proof -
  have fits: "w * (b * b) \<le> length buf" if "w \<le> p * p" for w
    using that assms(2) mult_le_mono1 by metis
  have "\<forall>r \<in> set [1..<p * p + 1]. length (received r) = b * b \<and> 0 < r \<and> r * (b * b) \<le> length buf"
    using assms(3) fits by auto
  from receive_all_nth[OF this] obtain B where
    B: "receive_all [1..<p * p + 1] (b * b) received buf = Inr B"
      "\<And>r m. 0 < r \<Longrightarrow> m < b * b \<Longrightarrow> r \<le> p * p \<Longrightarrow>
        B ! ((r - 1) * (b * b) + m) = (if r \<in> set [1..<p * p + 1] then received r ! m else buf ! ((r - 1) * (b * b) + m))"
    using fits by blast
  have el: "B ! ((i * p + k) * (b * b) + (j * b + z)) = stored (i * b + j) (k * b + z)"
    if "i < p" "k < p" "j < b" "z < b" for i k j z
  proof -
    let ?w = "i * p + k + 1"
    have "i * p + k < p * p" using that(1,2) by (rule cell_bound)
    then have w: "0 < ?w" "?w \<le> p * p" by auto
    have m: "j * b + z < b * b" using that(3,4) by (rule cell_bound)
    have "B ! ((?w - 1) * (b * b) + (j * b + z)) = received ?w ! (j * b + z)"
      using B(2)[OF w(1) m w(2)] w by (simp del: upt_Suc)
    also have "\<dots> = stored (i * b + j) (k * b + z)" using assms(4)[OF w that(3,4)] that(2) by simp
    finally show ?thesis by simp
  qed
  have "matrix_text B (b * b) (p * p + 1) b =
     concat (map (\<lambda>i. concat (map (\<lambda>j. concat (map (\<lambda>k. concat (map (\<lambda>z.
       show_int (stored (i * b + j) (k * b + z)) @ '' '') [0..<b])) [0..<p]) @ [CHR 0x0A]) [0..<b])) [0..<p])"
    unfolding matrix_text_def isqrt_grid(2)[OF assms(1)] Let_def
    by (intro arg_cong[where f = concat] map_cong refl arg_cong2[where f = append]) (simp add: el)
  then have "matrix_text B (b * b) (p * p + 1) b =
      concat (map (\<lambda>R. concat (map (\<lambda>C. show_int (stored R C) @ '' '') [0..<p * b]) @ [CHR 0x0A]) [0..<p * b])"
    by (simp only: concat_blocks)
  with B(1) show ?thesis by blast
qed


lemma stoi_show: "0 \<le> n \<Longrightarrow> n < 2 ^ 31 \<Longrightarrow> stoi (show_int n) = Inr n"
  using scan_int_show_int[of "[]" n] by (simp add: stoi_def)

lemma inputs_accepted:
  assumes "0 < p" and "int (p * b) < 2 ^ 31"
  shows "get_inputs my_rank [prog, show_int (int (p * b))] (p * p + 1) = Inr (Inr (int (p * b)))"
proof -
  have "is_square_number (p * p)" by (simp add: is_square_number_def isqrt_grid)
  moreover have "int (p * b) smod int (isqrt (p * p)) = 0" by (simp add: isqrt_grid signed_modulo_int_def)
  moreover have "stoi (show_int (int (p * b))) = Inr (int (p * b))" using stoi_show[of "int (p * b)"] assms(2) by simp
  ultimately show ?thesis using assms(1) by (simp add: get_inputs_def Let_def)
qed

text \<open>What \<open>create_matrix\<close> writes: in row \<open>i\<close> and column \<open>j\<close> of its block, their sum.\<close>

lemma local_array_nth: "i < b \<Longrightarrow> j < b \<Longrightarrow> initialize_local_array b ! (i * b + j) = int i + int j"
proof -
  assume ij: "i < b" "j < b"
  have "initialize_local_array b = map (\<lambda>m. int (m div b) + int (m mod b)) [0..<b * b]"
    unfolding initialize_local_array_def upt_blocks map_concat
    by (intro arg_cong[where f = concat]) (auto simp: comp_def)
  with ij cell_bound[OF ij] show ?thesis by simp
qed

text \<open>The message says that the side must be positive; a negative even one is accepted.\<close>

lemma negative_side_accepted: "get_input my_rank 4 [prog, ''-4''] = Inr (Inr (- 4))"
proof -
  have "stoi ''-4'' = Inr (- 4)" by code_simp
  moreover have "is_square_number 4" "isqrt 4 = 2" by code_simp+
  ultimately show ?thesis by (simp add: get_input_def signed_modulo_int_def)
qed

text \<open>The characters that \<open>print_bin_file_mpi\<close> prints, each on a line of its own, are those of the file.\<close>

definition shown :: "mpi_event list \<Rightarrow> string" where
  "shown es = concat (map (\<lambda>e. case e of Say [c] \<Rightarrow> [c] | _ \<Rightarrow> []) es)"

lemma shown_simps [simp]:
  "shown [] = []" "shown (Say [c] # es) = c # shown es" "shown (Say (c # d # m) # es) = shown es"
  "shown (FileRead n # es) = shown es" "shown (FileClose # es) = shown es" "shown (es @ es') = shown es @ shown es'"
  by (simp_all add: shown_def)

lemma shown_chars [simp]: "shown (map (\<lambda>c. Say [c]) cs) = cs"
  by (induction cs) simp_all

lemma file_is_printed: "shown (print_loop rest) = rest"
proof (induction rest rule: print_loop.induct)
  case (1 rest)
  show ?case
  proof (cases "length (take 1024 rest) = 1024")
    case True
    with 1 show ?thesis by (subst print_loop.simps) (simp add: print_buf_def Let_def)
  next
    case False
    then have "take 1024 rest = rest" by simp
    then show ?thesis using False by (subst print_loop.simps) (simp add: print_buf_def Let_def)
  qed
qed

subsection \<open>Properties\<close>

text \<open>The processes of \<open>repeated_writes.cpp\<close> together write every element of the file exactly once, and
  no two of them the same one: the element at index \<open>k\<close> of \<open>60 * n\<close> is written by the process
  \<open>(k div 10) mod n\<close> in round \<open>k div 10 div n\<close>, with the value that the rank, the round and the index
  in the buffer add up to. So the file is the same in whatever order the processes write.\<close>

theorem repeated_writes_tile:
  assumes "0 < n"
  shows "set (concat (map (\<lambda>r. placed (repeated_writes_main True r n) 0) [0..n - 1])) =
      (\<lambda>k. (4 * k, k mod 10 + (k div 10) mod n + k div 10 div n)) ` {0..<60 * n} \<and>
    length (concat (map (\<lambda>r. placed (repeated_writes_main True r n) 0) [0..n - 1])) = 60 * nat n"
  using placed_set[OF assms] placed_length[OF assms] by (simp only: value_at_def)

lemma repeated_writes_tile_witness:
  "(4 * 119, 9 + 1 + 5) \<in> set (concat (map (\<lambda>r. placed (repeated_writes_main True r 2) 0) [0..1]))"
proof -
  have "(4 * 119, 9 + 1 + 5) \<in> (\<lambda>k :: int. (4 * k, k mod 10 + (k div 10) mod 2 + k div 10 div 2)) ` {0..<60 * 2}"
    by (rule image_eqI[of _ _ 119]) auto
  with repeated_writes_tile[of 2] show ?thesis by simp
qed

text \<open>The number of elements is computed in an \<open>int\<close>: from a side of 46341 on the program is undefined.\<close>

theorem matrix_size_overflows:
  assumes "0 < p" and "int (p * b) < 2 ^ 31" and "2 ^ 31 \<le> int (p * b) * int (p * b)"
  shows "read_matrix_start r (p * p + 1) [prog, show_int (int (p * b))] malloc received opened wr dt sent = Inl Undefined"
  using inputs_accepted[OF assms(1,2), of r prog] assms(3) by (simp add: read_matrix_start_def int_times_def)

lemma matrix_size_overflows_witness:
  "read_matrix_start 0 5 [''read_matrix'', show_int (int (2 * 32768))] malloc received True 0 [] True = Inl Undefined"
  using matrix_size_overflows[of 2 32768 0 "''read_matrix''" malloc received True 0 "[]" True] by simp

text \<open>C34: The master of \<open>read_matrix.cpp\<close> prints the matrix as it is stored, as long as the number of its
  elements fits an \<open>int\<close> and \<open>malloc\<close> has memory for them. Started with a side that the grid of workers
  divides, and with blocks that hold what MPI shows each worker of the file, it accepts its arguments,
  writes no block beyond the buffer it allocated, puts the blocks together and writes the rows of the
  file, one line each: the loops over blocks, over rows in a block and over columns visit the elements in
  the order of the file. That a distributed array shows the worker \<open>w\<close> the block in row \<open>w div p\<close> and
  column \<open>w mod p\<close> of the grid, row by row, is what MPI documents.\<close>

theorem matrix_printed_as_stored:
  assumes "0 < p" and "int (p * b) * int (p * b) < 2 ^ 31"
    and "malloc (p * b * (p * b)) = Some buf" and "length buf = p * b * (p * b)"
    and "\<And>w r c. w < p * p \<Longrightarrow> r < b \<Longrightarrow> c < b \<Longrightarrow>
      view w (r * b + c) = (w div p * b + r) * (p * b) + (w mod p * b + c)"
    and "\<And>w. 0 < w \<Longrightarrow> w \<le> p * p \<Longrightarrow> received w = map (\<lambda>m. stored (view (w - 1) m)) [0..<b * b]"
  shows "\<exists>es. read_matrix_start 0 (p * p + 1) [prog, show_int (int (p * b))] malloc received opened wr dt sent = Inr es \<and>
    WriteText ''output_matrix.txt'' (concat (map (\<lambda>R.
      concat (map (\<lambda>C. show_int (stored (R * (p * b) + C)) @ '' '') [0..<p * b]) @ [CHR 0x0A]) [0..<p * b])) \<in> set es"
proof -
  have "received w ! (r * b + c) = stored (((w - 1) div p * b + r) * (p * b) + ((w - 1) mod p * b + c))"
    if "0 < w" "w \<le> p * p" "r < b" "c < b" for w r c
    using assms(5)[of "w - 1" r c] assms(6)[OF that(1,2)] cell_bound[OF that(3,4)] that by simp
  moreover have "length buf = p * p * (b * b)" using assms(4) by (simp add: algebra_simps)
  moreover have "length (received w) = b * b" if "0 < w" "w \<le> p * p" for w using assms(6)[OF that] by simp
  ultimately obtain B where B: "receive_all [1..<p * p + 1] (b * b) received buf = Inr B"
      "matrix_text B (b * b) (p * p + 1) b = concat (map (\<lambda>R.
        concat (map (\<lambda>C. show_int (stored (R * (p * b) + C)) @ '' '') [0..<p * b]) @ [CHR 0x0A]) [0..<p * b])"
    using matrix_text_rows[OF assms(1), of buf b received "\<lambda>R C. stored (R * (p * b) + C)"] by blast
  have side: "int (p * b) \<le> int (p * b) * int (p * b)" using le_square[of "p * b"]
    by (metis of_nat_le_iff of_nat_mult)
  have "- (2 ^ 31) \<le> int (p * b) * int (p * b)" by (rule order_trans[OF _ zero_le_square]) simp
  with assms(2) have size: "int_times (int (p * b)) (int (p * b)) = Inr (int (p * b * (p * b)))"
    unfolding int_times_def by (simp only: simp_thms if_True of_nat_mult)
  have "int (p * b) < 2 ^ 31" using side assms(2) by linarith
  from inputs_accepted[OF assms(1) this, of 0 prog] have
    "read_matrix_start 0 (p * p + 1) [prog, show_int (int (p * b))] malloc received opened wr dt sent =
      master (int (p * b * (p * b))) b (p * p + 1) malloc received"
    unfolding read_matrix_start_def
    using assms(1) by (simp add: size isqrt_grid Let_def not_less del: upt_Suc of_nat_mult)
  moreover have "malloc (nat (int (p * b * (p * b)))) = Some buf" using assms(3) by (simp only: nat_int)
  ultimately show ?thesis using B by (simp add: master_def Let_def del: upt_Suc of_nat_mult)
qed

lemma matrix_printed_as_stored_witness:
  "\<exists>es. read_matrix_start 0 5 [''read_matrix'', ''4''] (\<lambda>n. Some (replicate n 0))
      (\<lambda>w. map (\<lambda>m. int (((w - 1) div 2 * 2 + m div 2) * 4 + ((w - 1) mod 2 * 2 + m mod 2))) [0..<4])
      True 0 [] True = Inr es \<and>
    WriteText ''output_matrix.txt'' (concat (map (\<lambda>R. concat (map (\<lambda>C. show_int (int (R * 4 + C)) @ '' '') [0..<4]) @ [CHR 0x0A]) [0..<4])) \<in> set es"
proof -
  let ?view = "\<lambda>w m. (w div 2 * 2 + m div 2) * 4 + (w mod 2 * 2 + m mod 2 :: nat)"
  have n: "show_int 4 = ''4''" by code_simp
  have "\<exists>es. read_matrix_start 0 (2 * 2 + 1) [''read_matrix'', show_int (int (2 * 2))] (\<lambda>n. Some (replicate n 0))
      (\<lambda>w. map (\<lambda>m. int (?view (w - 1) m)) [0..<2 * 2]) True 0 [] True = Inr es \<and>
    WriteText ''output_matrix.txt'' (concat (map (\<lambda>R. concat (map (\<lambda>C.
      show_int (int (R * (2 * 2) + C)) @ '' '') [0..<2 * 2]) @ [CHR 0x0A]) [0..<2 * 2])) \<in> set es"
    by (rule matrix_printed_as_stored[where view = ?view and buf = "replicate 16 0"]) auto
  then show ?thesis by (simp add: n del: upt.simps upt_conv_Cons)
qed

end
