(* ===== verification/Spec2Isabelle.thy ===== *)
theory Spec2Isabelle
  imports DistSem RingSteps ControlModule Shutdown Conversations Interleaving Cluster Logging CLPrint Examples
begin

text \<open>
  CAPIO is a middleware that lets the steps of a workflow exchange files while they are still being
  written. A library preloaded into every application intercepts its system calls (\<open>src/posix\<close>);
  where a call concerns a file below the CAPIO directory it sends a request through a ring in shared
  memory (\<open>src/common/capio/queue.hpp\<close>) to the server of the node (\<open>src/server\<close>), and for some
  requests blocks until the server answers on the ring of the thread. The server knows from the
  CAPIO-CL rules who produces a path and when it is committed, records commits as token files in a
  metadata directory that all nodes share, and keeps the threads whose file does not exist yet or
  is not ready waiting; a monitor thread looks at the file system for them.

  Theories, in the order of the imports:

  \<^item> \<open>CapioPrelude\<close>: the result type (\<open>Inl\<close> of a \<open>fault\<close>: an exception, an exit, undefined
    behaviour, an exhausted stack or a block that cannot end), unordered maps as association lists
    in iteration order with their locale, searching in strings.
  \<^item> \<open>StdPath\<close>: what the source uses of \<open>std::filesystem::path\<close>, and the path predicates of
    \<open>common/capio/filesystem.hpp\<close>. \<open>CScan\<close>: \<open>printf\<close> and \<open>sscanf\<close> of numbers and words.
    \<open>Globs\<close>: \<open>match_globs\<close> of \<open>server/utils/common.hpp\<close>.
  \<^item> \<open>Fifo\<close>: the interface of a bounded queue and of a channel over it, as locales. \<open>RingQueue\<close>:
    \<open>queue.hpp\<close> as bytes, offsets and semaphore counts, an interpretation of the interface.
    \<open>RingSteps\<close>: the same calls by any number of threads at once, one step per semaphore call.
  \<^item> \<open>ClientManager\<close> (\<open>client_manager.hpp\<close>), \<open>CLEngine\<close> (\<open>capio_cl_engine.hpp\<close>), \<open>JsonParser\<close>
    (\<open>json_parser.hpp\<close>: the walk over a document of the simdjson package that calls the setters of
    \<open>CLEngine\<close>; invariants of the table are an instance of one locale).
  \<^item> \<open>FileSys\<close>: the file system calls. \<open>FileManager\<close> (\<open>file_manager_impl.hpp\<close>): the record
    \<open>server\<close> is the state of the whole server, and every method a function on it. \<open>Committing\<close>
    and \<open>Waiting\<close> prove what it does, \<open>DistSem\<close> what several servers do to one token
    (\<open>distributed_semaphore.hpp\<close>), one step per system call.
  \<^item> \<open>Handlers\<close>: \<open>client-manager/handlers\<close>, the dispatch of \<open>request_handler_engine.hpp\<close> and
    \<open>fs_monitor.hpp\<close>. \<open>Answers\<close>: how many answers each operation leaves owed. \<open>ServerSteps\<close>: the
    server as a transition system of requests, monitor passes and clients that take answers.
  \<^item> \<open>Requests\<close>: the texts of \<open>posix/utils/requests.hpp\<close> and \<open>cache.hpp\<close>, what the server reads
    in them, and the two interpretations of the channel.
  \<^item> \<open>PosixFiles\<close>: the descriptor tables of \<open>posix/utils/filesystem.hpp\<close>. \<open>Caches\<close>: the requests
    and caches of a client. \<open>PosixHandlers\<close>: \<open>posix/handlers\<close> and the registration of \<open>posix/utils/clone.hpp\<close>.
  \<^item> \<open>Environment\<close>: the functions of \<open>common/capio/env.hpp\<close> and \<open>posix/utils/env.hpp\<close>, and the
    environment records of the server and of a client made with them.
  \<^item> \<open>SharedMemory\<close>: \<open>shm.hpp\<close>, \<open>semaphore.hpp\<close> and the constructor and destructor of a queue, on
    named objects and semaphores; the two kinds of semaphore are instances of one locale.
    \<open>Snapshot\<close>: \<open>snapshot.hpp\<close> and \<open>execve\<close> on them.
  \<^item> \<open>Threads\<close>: \<open>clone.hpp\<close> as a step relation of parents, whose hook is its calls one after the other,
    children and exits; and calls of a thread with the caches of its own.
  \<^item> \<open>LibCapio\<close>: \<open>libcapio_posix.cpp\<close>, that is the table of system calls, the hook on raw arguments
    and the start of the library. \<open>ServerStart\<close>: \<open>capio_server.cpp\<close> and \<open>signals.hpp\<close>, from the
    command line to the loop of the requests and back at a signal. \<open>ControlModule\<close>: \<open>capio_ctl.hpp\<close>
    and its client \<open>capioctl.cpp\<close>. \<open>Shutdown\<close>: the signals, and their handler
    between any two calls of the start on named objects, inside the constructors too.
  \<^item> \<open>Node\<close>: the threads of all applications, the ring of requests, the server and its monitor as
    one transition system. \<open>Conversations\<close>: what one intercepted call sends and waits for.
  \<^item> \<open>Interleaving\<close>: the handlers of the server and the passes of its monitor as the calls they make,
    one after the other (\<open>exec\<close>), and the two threads that make them in any order (\<open>run_turns\<close>, which
    computes the run of a schedule). \<open>Cluster\<close>: any number of servers, one on each node, over the file
    system they share, where a close that counts is taken apart at each change the others can see.
  \<^item> \<open>LogText\<close>: the names of the log files and the formats of \<open>logger.hpp\<close>. \<open>Logging\<close>: the logger of
    both builds, and its log against the transcript of a run. \<open>CLPrint\<close>: the table \<open>print\<close> of
    \<open>capio_cl_engine.hpp\<close> writes. \<open>Examples\<close>: the MPI programs under \<open>examples\<close>, as lists of MPI calls.
  \<^item> This theory: a property from the intercepted call to the server and back.

  What the lemmas show. The ring is a bounded first-in first-out queue for every sequence of
  operations, also when the steps of any number of threads interleave, none of which waits without
  reason, and the requests put into it are served in order as if there were no texts. Every
  request that asks for an answer leaves at most one owed to its thread, in the two lists and its ring
  together; no step duplicates one, and one step alone can drop it, the second call of the monitor for a path
  that exists, for the threads on the list of that path at that moment. So
  waking a thread never blocks on a full ring. \<open>isCommitted\<close> computes the commit rules wherever
  dependencies are well founded, and its depth is not enough in a cycle it comes to; counting closes is exact for any interleaving of servers. The
  descriptor tables of a client stay consistent, duplicates share their position, and the read cache
  asks exactly beyond the known bound. A server that has started owns the name of its workflow, its
  table has the invariants the transition system starts from, and a signal to its main thread removes
  what the start has made, except what a constructor under way has made by then. The hook calls the handler of the table for every call of it and no handler for any other, for
  every numbering of the calls in which the bound covers them; and every intercepted call takes one
  answer for each request that asks, and names its own thread in all its requests but those of the write
  cache. Threads and server together keep the
  discipline the transition system of the server takes for granted, each blocked thread has either
  its request in the ring, its answer in its own ring or one place in the lists of the server, unless the
  monitor has dropped it; and one of a list for a path that exists, and that the rules release where it waits for data,
  can be run in at most three steps, if the monitor is not between its two calls for that path. When the two threads of the server are
  interleaved call by call, still no question is answered twice and no call that answers blocks; an answer is lost
  in one situation only, in which a client is put on a list the monitor is about to delete, and
  otherwise the next pass of the monitor answers who waits for a file that exists. Each node of a
  cluster is a server of the same transition system, and a close on any of them counts on all: when
  enough of them were counted, the readers on every node are answered by a look at the token that does not
  fall between its two writes. While its log is open a run logs its
  transcript, cut at the level, below the outermost statements of intercepted calls. Where the code does not do what its comments promise, a
  property states what it does instead; these come last among the properties.

  Bounds and fuel. Offsets are \<open>64 word\<close> with the wrap-around of the source; \<open>int\<close> and \<open>long\<close>
  values are \<open>int\<close> with explicit conversions. \<open>is_committed\<close> takes the depth the stack allows:
  \<open>commit_rules_computed\<close> shows that more than the longest chain of dependencies is enough and
  \<open>is_committed_fuel\<close> that a larger depth changes no result. All other functions recurse on their
  data. A spin on a lock file held by another server is the fault \<open>Blocked\<close> in the functions of one
  server and a step in \<open>DistSem\<close>.

  Assumptions on the outside are parameters: what the kernel returns (\<open>kernel\<close>), the environment
  (\<open>env\<close>, \<open>client_env\<close>, and in \<open>Environment\<close> \<open>getenv\<close> and \<open>realpath\<close>), which calls on shared memory
  the kernel refuses (\<open>refusals\<close>), the numbers of the system calls (\<open>numbers\<close>), the document and the
  command line as their packages parse them, the value of a path that was moved from. Each method of the server is
  atomic: the mutexes make it so for the waiting lists, and for the tables of \<open>ClientManager\<close> and
  \<open>CLEngine\<close>, which have no lock, it is an assumption. In \<open>ServerSteps\<close> and \<open>Node\<close> a handler is one
  step between those of the monitor, whose two calls for a path that exists (the replies, and the deletion of
  its list) are two; interleaving is between single calls in \<open>Interleaving\<close> and, for the hooks of new
  threads, in \<open>Threads\<close>, between
  the system calls of servers in \<open>DistSem\<close>, and between the steps of readers and writers in \<open>RingSteps\<close>. In
  \<open>Cluster\<close> a handler is one step too, but for a close that counts, which is four.

  Clients: the ids of threads are not used a second time, and the paths in requests are words
  (\<open>request_ok\<close>); \<open>blank_cuts_path\<close> states what a blank does.

  Not modelled: the messages on the terminal, and in the theories of the components the logging
  statements, which only write (\<open>Logging\<close> has the cases in which they are undefined); starting and
  cancelling threads; the bytes the handlers never touch; the groups and communicators of the examples.
\<close>

subsection \<open>From the system call to the server and back\<close>




















end
